(* ===== verification/Prelude.thy ===== *)
theory Prelude
  imports Main "HOL-Library.AList" "HOL-Library.Char_ord" "HOL-Library.List_Lexorder"
    "HOL-Library.Sublist"
begin

text \<open>
  Shared ground of the development: the named collections of simplification rules, Go
  maps as association lists, sets of strings built by a loop over a slice, and the
  generic facts on lists that several components use.
\<close>

named_theorems kollect_defs \<open>definitional equations unfolded in component proofs\<close>
named_theorems kollect_simps \<open>characteristic equations of the components' operations\<close>

section \<open>Lists\<close>

lemma distinct_map_fst_update:
  "distinct (map fst m) \<Longrightarrow> distinct (map fst (AList.update k v m))"
  by (rule distinct_update)

lemma concat_snoc: "concat (xss @ [xs]) = concat xss @ xs"
  by simp

lemma sorted_insort_set_eq:
  "sorted xs \<Longrightarrow> sorted ys \<Longrightarrow> distinct xs \<Longrightarrow> distinct ys \<Longrightarrow> set xs = set ys \<Longrightarrow> xs = ys"
  by (rule sorted_distinct_set_unique)

lemma insort_key_map_snd:
  "insort_key fst (k, f v) (map (\<lambda>(k, v). (k, f v)) xs) = map (\<lambda>(k, v). (k, f v)) (insort_key fst (k, v) xs)"
  by (induction xs) auto

lemma sort_key_map_snd:
  "sort_key fst (map (\<lambda>(k, v). (k, f v)) xs) = map (\<lambda>(k, v). (k, f v)) (sort_key fst xs)"
  by (induction xs) (auto simp: insort_key_map_snd)

lemma cut_unique: "c \<notin> set a \<Longrightarrow> c \<notin> set a' \<Longrightarrow> a @ c # b = a' @ c # b' \<longleftrightarrow> a = a' \<and> b = b'"
  by (auto simp: append_eq_append_conv2 Cons_eq_append_conv append_eq_Cons_conv)

section \<open>Go maps\<close>

text \<open>
  A Go map is an association list with distinct keys. The iteration order of a Go map is
  unspecified; the order of the list is one such order, and a theorem about every list
  covers every order.
\<close>

type_synonym ('k, 'v) gomap = "('k \<times> 'v) list"

abbreviation wf_map :: "('k, 'v) gomap \<Rightarrow> bool" where
  "wf_map m \<equiv> distinct (map fst m)"

definition map_get_or :: "'v \<Rightarrow> ('k, 'v) gomap \<Rightarrow> 'k \<Rightarrow> 'v" where
  "map_get_or d m k = (case map_of m k of None \<Rightarrow> d | Some v \<Rightarrow> v)"

lemma wf_map_update [simp, intro]: "wf_map m \<Longrightarrow> wf_map (AList.update k v m)"
  by (rule distinct_update)

lemma wf_map_delete [simp, intro]: "wf_map m \<Longrightarrow> wf_map (AList.delete k m)"
  by (rule distinct_delete)

lemma map_of_update [simp]: "map_of (AList.update k v m) = (map_of m)(k \<mapsto> v)"
  by (rule update_conv')

lemma map_of_delete [simp]: "map_of (AList.delete k m) = (map_of m)(k := None)"
  by (rule delete_conv')

lemma map_get_or_update [simp]:
  "map_get_or d (AList.update k v m) k' = (if k = k' then v else map_get_or d m k')"
  by (simp add: map_get_or_def)

lemma map_get_or_delete [simp]:
  "map_get_or d (AList.delete k m) k' = (if k = k' then d else map_get_or d m k')"
  by (simp add: map_get_or_def)

lemma map_of_eq_Some_in_set: "map_of m k = Some v \<Longrightarrow> (k, v) \<in> set m"
  by (rule map_of_SomeD)

lemma wf_map_in_set_iff: "wf_map m \<Longrightarrow> map_of m k = Some v \<longleftrightarrow> (k, v) \<in> set m"
  by (simp add: map_of_eq_Some_iff)

lemma set_update_wf:
  "wf_map m \<Longrightarrow> set (AList.update k v m) = insert (k, v) {p \<in> set m. fst p \<noteq> k}"
  by (induction m) force+

lemma set_delete_eq: "set (AList.delete k m) = {p \<in> set m. fst p \<noteq> k}"
  by (auto simp: AList.delete_eq)

lemma wf_map_filter [simp, intro]: "wf_map m \<Longrightarrow> wf_map (filter P m)"
  by (induction m) auto

lemma map_of_filter_notin: "k \<notin> fst ` set m \<Longrightarrow> map_of (filter P m) k = None"
  by (induction m) auto

lemma map_of_filter_wf:
  "wf_map m \<Longrightarrow> map_of (filter P m) k =
     (case map_of m k of None \<Rightarrow> None | Some v \<Rightarrow> if P (k, v) then Some v else None)"
  by (induction m) (auto simp: map_of_filter_notin split: option.splits)

lemma update_new: "k \<notin> fst ` set m \<Longrightarrow> AList.update k v m = m @ [(k, v)]"
  by (induction m) auto

lemma fold_update_distinct:
  "distinct (map fst (acc @ xs)) \<Longrightarrow> fold (\<lambda>(k, v). AList.update k v) xs acc = acc @ xs"
proof (induction xs arbitrary: acc)
  case (Cons x xs)
  obtain k v where x: "x = (k, v)" by fastforce
  have "k \<notin> fst ` set acc" using Cons.prems x by auto
  then show ?case using Cons.IH [of "acc @ [x]"] Cons.prems x by (simp add: update_new)
qed simp

text \<open>Dropping a character from the end of a list leaves a prefix.\<close>

lemma drop_trailing: "\<exists>j. s = rev (dropWhile (\<lambda>c. c = x) (rev s)) @ replicate j x"
proof -
  define z where "z = rev (takeWhile (\<lambda>c. c = x) (rev s))"
  have "s = rev (dropWhile (\<lambda>c. c = x) (rev s)) @ z" unfolding z_def by (simp flip: rev_append)
  moreover have "\<forall>c \<in> set z. c = x" by (auto simp: z_def dest: set_takeWhileD)
  then have "replicate (length z) x = z" by (rule replicate_length_same)
  ultimately show ?thesis by metis
qed

end
