(* ===== verification/Json.thy ===== *)
theory Json
  imports Go_Strings
begin

text \<open>
  JSON values, and the part of Go's \<open>encoding/json\<close> that the exporters use: compact
  encoding with sorted map keys and HTML escaping (\<open>json.Marshal\<close>), and decoding of a
  whole document (\<open>json.Unmarshal\<close>) into a tree of values. Strings are byte lists; a
  byte sequence that is not UTF-8 is replaced by U+FFFD on both sides, as in Go. The main
  fact is that decoding an encoded value gives the value back, with objects listed by key.
\<close>

section \<open>Values\<close>

text \<open>
  The values an attribute may hold. A \<open>float64\<close> is represented by its shortest decimal
  rendering, \<open>None\<close> for NaN and the infinities, which have none. In a tree that has just
  been parsed \<open>JFloat\<close> holds the number literal as written.
\<close>

datatype any =
    JNull
  | JBool bool
  | JInt int
  | JFloat "string option"
  | JString string
  | JArray "any list"
  | JObject "(string \<times> any) list"

section \<open>Encoding\<close>

definition byte :: "char \<Rightarrow> nat" where
  "byte c = of_char c"

definition cont_byte :: "char \<Rightarrow> bool" where
  "cont_byte c \<longleftrightarrow> 128 \<le> byte c \<and> byte c \<le> 191"

text \<open>The length of the well-formed multi-byte UTF-8 sequence at the head, 0 if there is none.\<close>

fun utf8_len :: "string \<Rightarrow> nat" where
  "utf8_len (a # b # s) =
     (let x = byte a; y = byte b in
      if 194 \<le> x \<and> x \<le> 223 then (if cont_byte b then 2 else 0)
      else if 224 \<le> x \<and> x \<le> 239 then
        (case s of
           c # _ \<Rightarrow> if cont_byte b \<and> cont_byte c \<and> (x = 224 \<longrightarrow> 160 \<le> y) \<and> (x = 237 \<longrightarrow> y \<le> 159) then 3 else 0
         | [] \<Rightarrow> 0)
      else if 240 \<le> x \<and> x \<le> 244 then
        (case s of
           c # d # _ \<Rightarrow> if cont_byte b \<and> cont_byte c \<and> cont_byte d \<and> (x = 240 \<longrightarrow> 144 \<le> y)
                             \<and> (x = 244 \<longrightarrow> y \<le> 143) then 4 else 0
         | _ \<Rightarrow> 0)
      else 0)"
| "utf8_len _ = 0"

definition hex_digit :: "nat \<Rightarrow> char" where
  "hex_digit d = (if d < 10 then char_of (48 + d) else char_of (87 + d))"

definition u_escape :: "nat \<Rightarrow> string" where
  "u_escape n = CHR 0x5C # CHR ''u'' # map hex_digit [n div 4096, n div 256 mod 16, n div 16 mod 16, n mod 16]"

definition escape_ascii :: "char \<Rightarrow> string" where
  "escape_ascii c =
     (if c = CHR 0x22 \<or> c = CHR 0x5C then [CHR 0x5C, c]
      else if c = CHR 0x08 then [CHR 0x5C, CHR ''b'']
      else if c = CHR 0x0C then [CHR 0x5C, CHR ''f'']
      else if c = CHR 0x0A then [CHR 0x5C, CHR ''n'']
      else if c = CHR 0x0D then [CHR 0x5C, CHR ''r'']
      else if c = CHR 0x09 then [CHR 0x5C, CHR ''t'']
      else if byte c < 32 \<or> c = CHR ''<'' \<or> c = CHR ''>'' \<or> c = CHR ''&'' then u_escape (byte c)
      else [c])"

definition line_sep :: string where "line_sep = [CHR 0xE2, CHR 0x80, CHR 0xA8]"
definition para_sep :: string where "para_sep = [CHR 0xE2, CHR 0x80, CHR 0xA9]"
definition replacement :: string where "replacement = [CHR 0xEF, CHR 0xBF, CHR 0xBD]"

function escape :: "string \<Rightarrow> string" where
  "escape [] = []"
| "escape (c # s) =
     (if byte c < 128 then escape_ascii c @ escape s
      else (let n = utf8_len (c # s); q = take n (c # s) in
        if n = 0 then u_escape 65533 @ escape s
        else (if q = line_sep then u_escape 8232 else if q = para_sep then u_escape 8233 else q)
             @ escape (drop (n - 1) s)))"
  by pat_completeness auto
termination by (relation "measure length") auto

definition json_string :: "string \<Rightarrow> string" where
  "json_string s = CHR 0x22 # escape s @ [CHR 0x22]"

text \<open>The only values \<open>json.Marshal\<close> refuses are NaN and the infinities.\<close>

fun json_ok :: "any \<Rightarrow> bool" where
  "json_ok (JFloat x) = (x \<noteq> None)"
| "json_ok (JArray vs) = (\<forall>v \<in> set vs. json_ok v)"
| "json_ok (JObject m) = (\<forall>kv \<in> set m. json_ok (snd kv))"
| "json_ok _ = True"

definition json_array :: "string list \<Rightarrow> string" where
  "json_array vs = ''['' @ Join '','' vs @ '']''"

definition json_fields :: "(string \<times> string) list \<Rightarrow> string" where
  "json_fields kvs = ''{'' @ Join '','' (map (\<lambda>(k, t). json_string k @ '':'' @ t) kvs) @ ''}''"

fun json_text :: "any \<Rightarrow> string" where
  "json_text JNull = ''null''"
| "json_text (JBool b) = (if b then ''true'' else ''false'')"
| "json_text (JInt i) = show_int i"
| "json_text (JFloat x) = (case x of None \<Rightarrow> ''NaN'' | Some t \<Rightarrow> t)"
| "json_text (JString s) = json_string s"
| "json_text (JArray vs) = json_array (map json_text vs)"
| "json_text (JObject m) = json_fields (sort_key fst (map (\<lambda>(k, v). (k, json_text v)) m))"

definition json_marshal :: "any \<Rightarrow> string option" where
  "json_marshal v = (if json_ok v then Some (json_text v) else None)"

section \<open>Parsing\<close>

definition is_ws :: "char \<Rightarrow> bool" where
  "is_ws c \<longleftrightarrow> c = CHR '' '' \<or> c = CHR 0x09 \<or> c = CHR 0x0A \<or> c = CHR 0x0D"

definition skip_ws :: "string \<Rightarrow> string" where
  "skip_ws s = dropWhile is_ws s"

definition hex_value :: "char \<Rightarrow> nat option" where
  "hex_value c = (let b = byte c in
     if 48 \<le> b \<and> b \<le> 57 then Some (b - 48)
     else if 97 \<le> b \<and> b \<le> 102 then Some (b - 87)
     else if 65 \<le> b \<and> b \<le> 70 then Some (b - 55) else None)"

definition hex4 :: "char \<Rightarrow> char \<Rightarrow> char \<Rightarrow> char \<Rightarrow> nat option" where
  "hex4 a b c d = (case (hex_value a, hex_value b, hex_value c, hex_value d) of
     (Some x, Some y, Some z, Some w) \<Rightarrow> Some (((x * 16 + y) * 16 + z) * 16 + w)
   | _ \<Rightarrow> None)"

definition utf8_encode :: "nat \<Rightarrow> string" where
  "utf8_encode n =
     (if n < 128 then [char_of n]
      else if n < 2048 then [char_of (192 + n div 64), char_of (128 + n mod 64)]
      else if n < 65536 then
        [char_of (224 + n div 4096), char_of (128 + n div 64 mod 64), char_of (128 + n mod 64)]
      else [char_of (240 + n div 262144), char_of (128 + n div 4096 mod 64),
            char_of (128 + n div 64 mod 64), char_of (128 + n mod 64)])"

text \<open>
  A \<open>\u\<close> escape: a high surrogate followed by the escape of a low one is one code point,
  any other surrogate is U+FFFD. The result is the decoded text and the number of bytes
  consumed after the four digits.
\<close>

fun low_surrogate :: "string \<Rightarrow> nat option" where
  "low_surrogate (e # u # a # b # c # d # _) =
     (if e = CHR 0x5C \<and> u = CHR ''u'' then
        (case hex4 a b c d of
           Some l \<Rightarrow> if 56320 \<le> l \<and> l < 57344 then Some l else None
         | None \<Rightarrow> None)
      else None)"
| "low_surrogate _ = None"

definition decode_u :: "nat \<Rightarrow> string \<Rightarrow> string \<times> nat" where
  "decode_u h s =
     (if 55296 \<le> h \<and> h < 57344 then
        (case (if h < 56320 then low_surrogate s else None) of
           Some l \<Rightarrow> (utf8_encode (65536 + (h - 55296) * 1024 + (l - 56320)), 6)
         | None \<Rightarrow> (replacement, 0))
      else (utf8_encode h, 0))"

definition simple_escape :: "char \<Rightarrow> char option" where
  "simple_escape c = map_of [(CHR 0x22, CHR 0x22), (CHR 0x5C, CHR 0x5C), (CHR ''/'', CHR ''/''),
     (CHR ''b'', CHR 0x08), (CHR ''f'', CHR 0x0C), (CHR ''n'', CHR 0x0A), (CHR ''r'', CHR 0x0D),
     (CHR ''t'', CHR 0x09)] c"

text \<open>The body of a string literal after the opening quote: the text and what follows it.\<close>

function parse_str :: "string \<Rightarrow> (string \<times> string) option" where
  "parse_str [] = None"
| "parse_str (c # s) =
     (if c = CHR 0x22 then Some ([], s)
      else if byte c < 32 then None
      else if c = CHR 0x5C then
        (case s of
           [] \<Rightarrow> None
         | e # s1 \<Rightarrow>
             if e = CHR ''u'' then
               (case s1 of
                  w # x # y # z # s2 \<Rightarrow>
                    (case hex4 w x y z of
                       None \<Rightarrow> None
                     | Some h \<Rightarrow> (case decode_u h s2 of
                         (t, n) \<Rightarrow> map_option (apfst ((@) t)) (parse_str (drop n s2))))
                | _ \<Rightarrow> None)
             else (case simple_escape e of
                 None \<Rightarrow> None
               | Some t \<Rightarrow> map_option (apfst ((#) t)) (parse_str s1)))
      else if byte c < 128 then map_option (apfst ((#) c)) (parse_str s)
      else (let n = utf8_len (c # s) in
        if n = 0 then map_option (apfst ((@) replacement)) (parse_str s)
        else map_option (apfst ((@) (take n (c # s)))) (parse_str (drop (n - 1) s))))"
  by pat_completeness auto
termination by (relation "measure length") auto

text \<open>A number literal: the literal and what follows it.\<close>

definition digits :: "string \<Rightarrow> string \<times> string" where
  "digits s = (takeWhile is_digit s, dropWhile is_digit s)"

definition int_part :: "string \<Rightarrow> (string \<times> string) option" where
  "int_part s = (case s of
     c # r \<Rightarrow> if c = CHR ''0'' then Some ([c], r)
              else if is_digit c then Some (digits s) else None
   | [] \<Rightarrow> None)"

definition frac_part :: "string \<Rightarrow> (string \<times> string) option" where
  "frac_part s = (case s of
     c # r \<Rightarrow> if c = CHR ''.'' then
                (case digits r of ([], _) \<Rightarrow> None | (ds, r') \<Rightarrow> Some (c # ds, r'))
              else Some ([], s)
   | [] \<Rightarrow> Some ([], s))"

definition exp_sign :: "string \<Rightarrow> string \<times> string" where
  "exp_sign s = (case s of
     c # r \<Rightarrow> if c = CHR ''+'' \<or> c = CHR ''-'' then ([c], r) else ([], s)
   | [] \<Rightarrow> ([], s))"

definition exp_part :: "string \<Rightarrow> (string \<times> string) option" where
  "exp_part s = (case s of
     c # r \<Rightarrow> if c = CHR ''e'' \<or> c = CHR ''E'' then
                (case exp_sign r of (sg, r1) \<Rightarrow>
                  (case digits r1 of ([], _) \<Rightarrow> None | (ds, r2) \<Rightarrow> Some (c # sg @ ds, r2)))
              else Some ([], s)
   | [] \<Rightarrow> Some ([], s))"

definition parse_unsigned :: "string \<Rightarrow> (string \<times> string) option" where
  "parse_unsigned s =
     (case int_part s of None \<Rightarrow> None | Some (a, s1) \<Rightarrow>
        (case frac_part s1 of None \<Rightarrow> None | Some (b, s2) \<Rightarrow>
          (case exp_part s2 of None \<Rightarrow> None | Some (e, s3) \<Rightarrow> Some (a @ b @ e, s3))))"

definition parse_num :: "string \<Rightarrow> (string \<times> string) option" where
  "parse_num s =
     (if HasPrefix s ''-'' then map_option (apfst ((#) (CHR ''-''))) (parse_unsigned (tl s))
      else parse_unsigned s)"

text \<open>
  A value at the head of the input. The fuel bounds the number of nested and sequential
  calls, the length of the input is enough; the depth is the nesting Go still accepts,
  10000 at the top.
\<close>

fun parse_value :: "nat \<Rightarrow> nat \<Rightarrow> string \<Rightarrow> (any \<times> string) option"
  and parse_elems :: "nat \<Rightarrow> nat \<Rightarrow> string \<Rightarrow> (any list \<times> string) option"
  and parse_members :: "nat \<Rightarrow> nat \<Rightarrow> string \<Rightarrow> ((string \<times> any) list \<times> string) option" where
  "parse_value 0 d s = None"
| "parse_value (Suc n) d s =
     (let t = skip_ws s in
      if HasPrefix t ''null'' then Some (JNull, drop 4 t)
      else if HasPrefix t ''true'' then Some (JBool True, drop 4 t)
      else if HasPrefix t ''false'' then Some (JBool False, drop 5 t)
      else case t of
        [] \<Rightarrow> None
      | c # r \<Rightarrow>
          if c = CHR 0x22 then map_option (apfst JString) (parse_str r)
          else if c = CHR ''['' then
            (if d = 0 then None
             else if HasPrefix (skip_ws r) '']'' then Some (JArray [], tl (skip_ws r))
             else map_option (apfst JArray) (parse_elems n (d - 1) r))
          else if c = CHR ''{'' then
            (if d = 0 then None
             else if HasPrefix (skip_ws r) ''}'' then Some (JObject [], tl (skip_ws r))
             else map_option (apfst JObject) (parse_members n (d - 1) r))
          else map_option (apfst (\<lambda>l. JFloat (Some l))) (parse_num t))"
| "parse_elems 0 d s = None"
| "parse_elems (Suc n) d s =
     (case parse_value n d s of
        None \<Rightarrow> None
      | Some (v, r) \<Rightarrow>
          (case skip_ws r of
             c # r' \<Rightarrow> if c = CHR '']'' then Some ([v], r')
                       else if c = CHR '','' then map_option (apfst ((#) v)) (parse_elems n d r')
                       else None
           | [] \<Rightarrow> None))"
| "parse_members 0 d s = None"
| "parse_members (Suc n) d s =
     (case skip_ws s of
        q # r \<Rightarrow>
          if q \<noteq> CHR 0x22 then None
          else (case parse_str r of
            None \<Rightarrow> None
          | Some (k, r1) \<Rightarrow>
              (case skip_ws r1 of
                 c # r2 \<Rightarrow>
                   if c \<noteq> CHR '':'' then None
                   else (case parse_value n d r2 of
                     None \<Rightarrow> None
                   | Some (v, r3) \<Rightarrow>
                       (case skip_ws r3 of
                          e # r4 \<Rightarrow>
                            if e = CHR ''}'' then Some ([(k, v)], r4)
                            else if e = CHR '','' then map_option (apfst ((#) (k, v))) (parse_members n d r4)
                            else None
                        | [] \<Rightarrow> None))
               | [] \<Rightarrow> None))
      | [] \<Rightarrow> None)"

definition json_parse :: "string \<Rightarrow> any option" where
  "json_parse s = (case parse_value (Suc (length s)) 10000 s of
     Some (v, r) \<Rightarrow> if skip_ws r = [] then Some v else None
   | None \<Rightarrow> None)"

section \<open>Strings survive the round trip\<close>

text \<open>What a string becomes by encoding and decoding: invalid bytes are replaced.\<close>

function utf8_norm :: "string \<Rightarrow> string" where
  "utf8_norm [] = []"
| "utf8_norm (c # s) =
     (if byte c < 128 then c # utf8_norm s
      else (let n = utf8_len (c # s) in
        if n = 0 then replacement @ utf8_norm s
        else take n (c # s) @ utf8_norm (drop (n - 1) s)))"
  by pat_completeness auto
termination by (relation "measure length") auto

function valid_utf8 :: "string \<Rightarrow> bool" where
  "valid_utf8 [] = True"
| "valid_utf8 (c # s) =
     (if byte c < 128 then valid_utf8 s
      else (let n = utf8_len (c # s) in n \<noteq> 0 \<and> valid_utf8 (drop (n - 1) s)))"
  by pat_completeness auto
termination by (relation "measure length") auto

lemma utf8_norm_valid: "valid_utf8 s \<Longrightarrow> utf8_norm s = s"
proof (induction s rule: utf8_norm.induct)
  case (2 c s)
  show ?case
  proof (cases "byte c < 128")
    case False
    then obtain m where m: "utf8_len (c # s) = Suc m" "valid_utf8 (drop m s)"
      using 2(4) by (cases "utf8_len (c # s)") (simp_all add: Let_def)
    then show ?thesis using 2(3) False by simp
  qed (use 2 in simp)
qed simp

lemma ascii_valid_utf8: "(\<And>c. c \<in> set s \<Longrightarrow> byte c < 128) \<Longrightarrow> valid_utf8 s"
  by (induction s) auto

lemma utf8_len_take: "utf8_len s = Suc n \<Longrightarrow> utf8_len (take (Suc n) s @ r) = Suc n"
proof (cases s rule: utf8_len.cases)
  case (1 a b s')
  assume *: "utf8_len s = Suc n"
  show ?thesis using * unfolding 1
    by (cases s'; cases "tl s'") (auto simp: Let_def split: if_splits)
qed auto

lemma utf8_len_bounds: "utf8_len s = Suc n \<Longrightarrow> Suc n \<le> length s"
  by (cases s rule: utf8_len.cases) (auto simp: Let_def split: if_splits list.splits)

lemma utf8_seps: "utf8_len (line_sep @ r) = 3" "utf8_len (para_sep @ r) = 3"
  by (simp_all add: line_sep_def para_sep_def Let_def byte_def cont_byte_def)

lemma hex_value_digit: "d < 16 \<Longrightarrow> hex_value (hex_digit d) = Some d"
  by (auto simp: hex_value_def hex_digit_def byte_def Let_def)

lemma hex4_u_escape:
  assumes "n < 65536"
  shows "hex4 (hex_digit (n div 4096)) (hex_digit (n div 256 mod 16)) (hex_digit (n div 16 mod 16))
           (hex_digit (n mod 16)) = Some n"
proof -
  have "n div 4096 < 16" using assms by simp
  moreover have "n div 256 = n div 16 div 16" "n div 4096 = n div 16 div 16 div 16"
    by (simp_all add: div_mult2_eq [symmetric])
  then have "((n div 4096 * 16 + n div 256 mod 16) * 16 + n div 16 mod 16) * 16 + n mod 16 = n"
    by (simp only: div_mult_mod_eq)
  ultimately show ?thesis by (simp add: hex4_def hex_value_digit)
qed

lemma parse_str_u_escape:
  "n < 65536 \<Longrightarrow> \<not> (55296 \<le> n \<and> n < 57344) \<Longrightarrow>
   parse_str (u_escape n @ r) = map_option (apfst ((@) (utf8_encode n))) (parse_str r)"
  using hex4_u_escape [of n]
  by (auto simp: u_escape_def decode_u_def byte_def option.map_comp comp_def)

lemma append_single_fun: "(@) [c] = (#) c"
  by (rule ext) simp

lemma parse_str_escape_ascii:
  "byte c < 128 \<Longrightarrow> parse_str (escape_ascii c @ r) = map_option (apfst ((#) c)) (parse_str r)"
  by (auto simp: escape_ascii_def simple_escape_def parse_str_u_escape utf8_encode_def
        append_single_fun byte_def)

lemma utf8_encode_seps:
  "utf8_encode 8232 = line_sep" "utf8_encode 8233 = para_sep" "utf8_encode 65533 = replacement"
  by (simp_all add: utf8_encode_def line_sep_def para_sep_def replacement_def char_of_eq_iff)

lemma parse_str_multibyte:
  assumes "\<not> byte c < 128" "utf8_len (c # s) = Suc n"
  shows "parse_str (take (Suc n) (c # s) @ r)
       = map_option (apfst ((@) (take (Suc n) (c # s)))) (parse_str r)"
proof -
  have l: "length (take n s) = n" using utf8_len_bounds [OF assms(2)] by simp
  have "c \<noteq> CHR 0x22" "c \<noteq> CHR 0x5C" using assms(1) by (auto simp: byte_def)
  then show ?thesis
    using assms utf8_len_take [OF assms(2), of r] l by (auto simp: Let_def)
qed

lemma parse_str_escape: "parse_str (escape s @ CHR 0x22 # r) = Some (utf8_norm s, r)"
proof (induction s rule: escape.induct)
  case (2 c s)
  let ?n = "utf8_len (c # s)"
  show ?case
  proof (cases "byte c < 128 \<or> ?n = 0")
    case True
    then show ?thesis using 2
      by (auto simp: parse_str_escape_ascii parse_str_u_escape utf8_encode_seps)
  next
    case False
    then obtain m where m: "?n = Suc m" by (cases ?n) auto
    then show ?thesis using False 2(3) [OF _ refl refl] parse_str_multibyte [OF _ m]
      by (simp add: Let_def parse_str_u_escape utf8_encode_seps del: parse_str.simps)
  qed
qed simp

section \<open>Values survive the round trip\<close>

definition num_lit :: "string \<Rightarrow> bool" where
  "num_lit t \<longleftrightarrow> parse_num t = Some (t, [])"

text \<open>What may follow a value inside a compact document.\<close>

definition ends_value :: "string \<Rightarrow> bool" where
  "ends_value r \<longleftrightarrow> r = [] \<or> hd r \<in> {CHR '','', CHR '']'', CHR ''}''}"

lemma not_digit_punct [simp]:
  "\<not> is_digit CHR '',''" "\<not> is_digit CHR '']''" "\<not> is_digit CHR ''}''" "\<not> is_digit CHR ''-''"
  "\<not> is_digit CHR 0x22" "\<not> is_digit CHR ''[''" "\<not> is_digit CHR ''{''" "is_digit CHR ''0''"
  by (simp_all add: is_digit_def less_eq_char_def)

lemma digits_append:
  assumes "ends_value r"
  shows "digits (s @ r) = apsnd (\<lambda>x. x @ r) (digits s)"
proof -
  have "takeWhile is_digit r = []" "dropWhile is_digit r = r"
    using assms by (cases r; auto simp: ends_value_def)+
  then show ?thesis by (induction s) (simp_all add: digits_def)
qed

lemma int_part_append:
  "ends_value r \<Longrightarrow> int_part (s @ r) = map_option (apsnd (\<lambda>x. x @ r)) (int_part s)"
  using digits_append [of r s] by (cases s; cases r) (auto simp: int_part_def ends_value_def)

lemma frac_part_append:
  assumes "ends_value r"
  shows "frac_part (s @ r) = map_option (apsnd (\<lambda>x. x @ r)) (frac_part s)"
proof (cases s)
  case Nil
  then show ?thesis using assms by (cases r) (auto simp: frac_part_def ends_value_def)
next
  case (Cons c t)
  obtain ds t' where "digits t = (ds, t')" by fastforce
  then show ?thesis using digits_append [OF assms, of t] Cons
    by (cases ds) (simp_all add: frac_part_def)
qed

lemma exp_sign_append: "ends_value r \<Longrightarrow> exp_sign (s @ r) = apsnd (\<lambda>x. x @ r) (exp_sign s)"
  by (cases s; cases r) (auto simp: exp_sign_def ends_value_def)

lemma exp_part_append:
  assumes "ends_value r"
  shows "exp_part (s @ r) = map_option (apsnd (\<lambda>x. x @ r)) (exp_part s)"
proof (cases s)
  case Nil
  then show ?thesis using assms by (cases r) (auto simp: exp_part_def ends_value_def)
next
  case (Cons c t)
  obtain sg t1 where 1: "exp_sign t = (sg, t1)" by fastforce
  obtain ds t2 where "digits t1 = (ds, t2)" by fastforce
  then show ?thesis
    using digits_append [OF assms, of t1] exp_sign_append [OF assms, of t] Cons 1
    by (cases ds) (simp_all add: exp_part_def)
qed

lemma parse_unsigned_append:
  "ends_value r \<Longrightarrow> parse_unsigned (s @ r) = map_option (apsnd (\<lambda>x. x @ r)) (parse_unsigned s)"
  by (simp add: parse_unsigned_def int_part_append frac_part_append exp_part_append
      split: option.split)

lemma parse_num_append:
  assumes "ends_value r" "num_lit t"
  shows "parse_num (t @ r) = Some (t, r)"
proof (cases "HasPrefix t ''-''")
  case True
  then obtain u where "t = CHR ''-'' # u" by (auto simp: HasPrefix_iff)
  then show ?thesis using assms
    by (auto simp: num_lit_def parse_num_def parse_unsigned_append HasPrefix_iff)
next
  case False
  have "t \<noteq> []" using assms(2) by (auto simp: num_lit_def parse_num_def parse_unsigned_def int_part_def HasPrefix_iff)
  then have "\<not> HasPrefix (t @ r) ''-''" using False by (cases t) (auto simp: HasPrefix_iff)
  then show ?thesis using False assms
    by (auto simp: num_lit_def parse_num_def parse_unsigned_append)
qed

lemma num_lit_head: "num_lit t \<Longrightarrow> \<exists>c s. t = c # s \<and> (c = CHR ''-'' \<or> is_digit c)"
  by (cases t)
     (auto simp: num_lit_def parse_num_def parse_unsigned_def int_part_def HasPrefix_iff
        split: if_splits)

lemma show_nat_head: "show_nat n = c # s \<Longrightarrow> c = CHR ''0'' \<Longrightarrow> s = []"
proof (induction n arbitrary: s rule: show_nat.induct)
  case (1 n)
  show ?case
  proof (cases "n < 10")
    case False
    then obtain s' where s': "show_nat (n div 10) = c # s'" "s = s' @ [digit_char (n mod 10)]"
      using 1(2) by (subst (asm) show_nat.simps) (auto simp: append_eq_Cons_conv)
    then have "s' = []" using 1(1,3) False by simp
    then have "nat_of_digits 0 (show_nat (n div 10)) = 0" using s' 1(3) by simp
    then show ?thesis using False by (simp add: nat_of_digits_show)
  qed (use 1(2) in \<open>simp add: show_nat.simps\<close>)
qed

lemma digits_all: "\<forall>c \<in> set s. is_digit c \<Longrightarrow> digits s = (s, [])"
  by (auto simp: digits_def)

lemma parse_unsigned_show_nat: "parse_unsigned (show_nat n) = Some (show_nat n, [])"
proof -
  obtain c s where cs: "show_nat n = c # s" by (cases "show_nat n") auto
  have "\<forall>x \<in> set (c # s). is_digit x" using show_nat_digits cs by metis
  then show ?thesis using show_nat_head [OF cs] unfolding cs
    by (auto simp: parse_unsigned_def int_part_def digits_all frac_part_def exp_part_def)
qed

lemma num_lit_show_int: "num_lit (show_int i)"
proof -
  have "\<not> HasPrefix (show_nat n) ''-''" for n
    using show_nat_digits [of "CHR ''-''" n] by (auto simp: HasPrefix_iff)
  moreover have "HasPrefix (CHR ''-'' # s) ''-''" for s by (simp add: HasPrefix_iff)
  ultimately show ?thesis
    by (simp add: num_lit_def show_int_def parse_num_def parse_unsigned_show_nat)
qed

fun json_wf :: "any \<Rightarrow> bool" where
  "json_wf (JFloat x) = (case x of None \<Rightarrow> False | Some t \<Rightarrow> num_lit t)"
| "json_wf (JArray vs) = (\<forall>v \<in> set vs. json_wf v)"
| "json_wf (JObject m) = (\<forall>kv \<in> set m. json_wf (snd kv))"
| "json_wf _ = True"

fun json_depth :: "any \<Rightarrow> nat" where
  "json_depth (JArray vs) = Suc (foldr max (map json_depth vs) 0)"
| "json_depth (JObject m) = Suc (foldr max (map (\<lambda>kv. json_depth (snd kv)) m) 0)"
| "json_depth _ = 0"

text \<open>The tree that parsing an encoded value gives: keys in order, numbers as literals.\<close>

fun parsed :: "any \<Rightarrow> any" where
  "parsed (JInt i) = JFloat (Some (show_int i))"
| "parsed (JString s) = JString (utf8_norm s)"
| "parsed (JArray vs) = JArray (map parsed vs)"
| "parsed (JObject m) =
     JObject (map (apfst utf8_norm) (sort_key fst (map (\<lambda>(k, v). (k, parsed v)) m)))"
| "parsed v = v"

lemma json_wf_ok: "json_wf v \<Longrightarrow> json_ok v"
  by (induction v rule: json_ok.induct) (auto split: option.splits)

lemma foldr_max_le: "foldr max ns 0 \<le> (d::nat) \<longleftrightarrow> (\<forall>n \<in> set ns. n \<le> d)"
  by (induction ns) auto

definition parses_to :: "nat \<Rightarrow> string \<Rightarrow> any \<Rightarrow> bool" where
  "parses_to d t v \<longleftrightarrow> (\<forall>n r. length t \<le> n \<longrightarrow> ends_value r \<longrightarrow> parse_value n d (t @ r) = Some (v, r))"

lemma skip_ws_punct [simp]:
  "skip_ws (CHR '']'' # r) = CHR '']'' # r" "skip_ws (CHR '','' # r) = CHR '','' # r"
  "skip_ws (CHR ''}'' # r) = CHR ''}'' # r" "skip_ws (CHR '':'' # r) = CHR '':'' # r"
  "skip_ws (CHR 0x22 # r) = CHR 0x22 # r" "skip_ws (CHR ''['' # r) = CHR ''['' # r"
  "skip_ws (CHR ''{'' # r) = CHR ''{'' # r" "skip_ws (CHR ''-'' # r) = CHR ''-'' # r"
  "skip_ws (CHR ''n'' # r) = CHR ''n'' # r" "skip_ws (CHR ''t'' # r) = CHR ''t'' # r"
  "skip_ws (CHR ''f'' # r) = CHR ''f'' # r"
  by (simp_all add: skip_ws_def is_ws_def)

lemma parse_elems_texts:
  assumes "vs \<noteq> []" "list_all2 (parses_to d) ts vs" "length (Join '','' ts) < n"
  shows "parse_elems n d (Join '','' ts @ CHR '']'' # r) = Some (vs, r)"
  using assms
proof (induction vs arbitrary: ts n)
  case (Cons v vs)
  obtain t ts' where ts: "ts = t # ts'" "parses_to d t v" "list_all2 (parses_to d) ts' vs"
    using Cons.prems(2) by (auto simp: list_all2_Cons2)
  obtain m where n: "n = Suc m" using Cons.prems(3) by (cases n) auto
  show ?case
  proof (cases "vs = []")
    case True
    then show ?thesis using ts n Cons.prems(3) by (auto simp: parses_to_def ends_value_def)
  next
    case False
    then have ne: "ts' \<noteq> []" using ts(3) by auto
    then have j: "Join '','' ts = t @ CHR '','' # Join '','' ts'" by (simp add: ts(1) Join_Cons)
    then have "parse_elems m d (Join '','' ts' @ CHR '']'' # r) = Some (vs, r)"
      using Cons.IH [of ts' m] False ts(3) Cons.prems(3) n by simp
    then show ?thesis using ts(2) Cons.prems(3) n j
      by (simp add: parses_to_def ends_value_def)
  qed
qed simp

lemma json_string_parse:
  "parse_str (escape k @ CHR 0x22 # r) = Some (utf8_norm k, r)"
  by (rule parse_str_escape)

definition member_text :: "string \<times> string \<Rightarrow> string" where
  "member_text kt = json_string (fst kt) @ '':'' @ snd kt"

definition member_parses :: "nat \<Rightarrow> string \<times> string \<Rightarrow> string \<times> any \<Rightarrow> bool" where
  "member_parses d kt kv \<longleftrightarrow> fst kv = utf8_norm (fst kt) \<and> parses_to d (snd kt) (snd kv)"

lemma parse_members_texts:
  assumes "kvs \<noteq> []" "list_all2 (member_parses d) kts kvs"
    "length (Join '','' (map member_text kts)) < n"
  shows "parse_members n d (Join '','' (map member_text kts) @ CHR ''}'' # r) = Some (kvs, r)"
  using assms
proof (induction kvs arbitrary: kts n)
  case (Cons kv kvs)
  obtain k t kts' where "kts = (k, t) # kts'" "member_parses d (k, t) kv"
      "list_all2 (member_parses d) kts' kvs"
    using Cons.prems(2) by (auto simp: list_all2_Cons2)
  then have ts: "kts = (k, t) # kts'" "parses_to d t (snd kv)" "fst kv = utf8_norm k"
      "list_all2 (member_parses d) kts' kvs"
    by (simp_all add: member_parses_def)
  have kv: "kv = (utf8_norm k, snd kv)" using ts(3) by (cases kv) simp
  obtain m where n: "n = Suc m" using Cons.prems(3) by (cases n) auto
  have mt: "member_text (k, t) = CHR 0x22 # escape k @ CHR 0x22 # CHR '':'' # t"
    by (simp add: member_text_def json_string_def)
  show ?case
  proof (cases "kvs = []")
    case True
    then show ?thesis using ts(1,2,4) n Cons.prems(3) mt
      by (simp add: parses_to_def ends_value_def json_string_parse) (metis kv)
  next
    case False
    then have ne: "kts' \<noteq> []" using ts(4) by auto
    then have j: "Join '','' (map member_text kts)
        = member_text (k, t) @ CHR '','' # Join '','' (map member_text kts')"
      by (simp add: ts(1) Join_Cons)
    then have "parse_members m d (Join '','' (map member_text kts') @ CHR ''}'' # r) = Some (kvs, r)"
      using Cons.IH [of kts' m] False ts(4) Cons.prems(3) n by simp
    then show ?thesis using ts(2) Cons.prems(3) n j mt
      by (simp add: parses_to_def ends_value_def json_string_parse) (metis kv)
  qed
qed simp

lemma parses_to_num:
  assumes "num_lit t"
  shows "parses_to d t (JFloat (Some t))"
  unfolding parses_to_def
proof (intro allI impI)
  fix n r assume n: "length t \<le> n" and r: "ends_value r"
  obtain c s where cs: "t = c # s" "c = CHR ''-'' \<or> is_digit c" using num_lit_head [OF assms] by auto
  obtain m where m: "n = Suc m" using n cs by (cases n) auto
  have c: "skip_ws (t @ r) = t @ r" "c \<notin> {CHR 0x22, CHR ''['', CHR ''{'', CHR ''n'', CHR ''t'', CHR ''f''}"
    using cs by (auto simp: skip_ws_def is_ws_def is_digit_def less_eq_char_def)
  then have "\<not> HasPrefix (t @ r) ''null''" "\<not> HasPrefix (t @ r) ''true''" "\<not> HasPrefix (t @ r) ''false''"
    using cs by (auto simp: HasPrefix_iff)
  then show "parse_value n d (t @ r) = Some (JFloat (Some t), r)"
    using c parse_num_append [OF r assms] cs m by (auto simp: Let_def)
qed

lemma parses_to_word:
  "parses_to d ''null'' JNull" "parses_to d ''true'' (JBool True)" "parses_to d ''false'' (JBool False)"
  unfolding parses_to_def
  by (auto simp: HasPrefix_iff Let_def Suc_le_D elim!: le_SucE dest!: Suc_le_D)

lemma parses_to_string: "parses_to d (json_string s) (JString (utf8_norm s))"
  unfolding parses_to_def json_string_def
  by (auto simp: HasPrefix_iff Let_def json_string_parse dest!: Suc_le_D)

lemma parse_elems_bracket: "HasPrefix (skip_ws s) '']'' \<Longrightarrow> parse_elems n d s = None"
proof (cases n)
  case (Suc m)
  assume "HasPrefix (skip_ws s) '']''"
  then have "parse_value m d s = None"
    by (cases m) (auto simp: HasPrefix_iff Let_def parse_num_def parse_unsigned_def int_part_def)
  then show ?thesis using Suc by simp
qed simp

lemma parse_members_brace: "HasPrefix (skip_ws s) ''}'' \<Longrightarrow> parse_members n d s = None"
  by (cases n) (auto simp: HasPrefix_iff)

lemma parses_to_array:
  assumes "list_all2 (parses_to d) ts vs"
  shows "parses_to (Suc d) (json_array ts) (JArray vs)"
  unfolding parses_to_def
proof (intro allI impI)
  fix n r assume n: "length (json_array ts) \<le> n"
  obtain m where m: "n = Suc m" using n by (cases n) (auto simp: json_array_def)
  show "parse_value n (Suc d) (json_array ts @ r) = Some (JArray vs, r)"
  proof (cases "vs = []")
    case True
    then show ?thesis using assms m by (simp add: json_array_def HasPrefix_iff Let_def)
  next
    case False
    have *: "parse_elems m d (Join '','' ts @ CHR '']'' # r) = Some (vs, r)"
      using parse_elems_texts [OF False assms, of m r] n m by (simp add: json_array_def)
    then have "\<not> HasPrefix (skip_ws (Join '','' ts @ CHR '']'' # r)) '']''"
      using parse_elems_bracket by fastforce
    then show ?thesis using * m by (simp add: json_array_def HasPrefix_iff Let_def)
  qed
qed

lemma json_fields_members: "json_fields kts = ''{'' @ Join '','' (map member_text kts) @ ''}''"
proof -
  have "(\<lambda>(k, t). json_string k @ '':'' @ t) = member_text"
    by (auto simp: member_text_def)
  then show ?thesis by (simp add: json_fields_def)
qed

lemma parses_to_object:
  assumes "list_all2 (member_parses d) kts kvs"
  shows "parses_to (Suc d) (json_fields kts) (JObject kvs)"
  unfolding parses_to_def
proof (intro allI impI)
  fix n r assume n: "length (json_fields kts) \<le> n"
  obtain m where m: "n = Suc m" using n by (cases n) (auto simp: json_fields_members)
  let ?s = "Join '','' (map member_text kts) @ CHR ''}'' # r"
  show "parse_value n (Suc d) (json_fields kts @ r) = Some (JObject kvs, r)"
  proof (cases "kvs = []")
    case True
    then show ?thesis using assms m by (simp add: json_fields_members HasPrefix_iff Let_def)
  next
    case False
    have *: "parse_members m d ?s = Some (kvs, r)"
      using parse_members_texts [OF False assms, of m r] n m by (simp add: json_fields_members)
    then have "\<not> HasPrefix (skip_ws ?s) ''}''" using parse_members_brace by fastforce
    then show ?thesis using * m by (simp add: json_fields_members HasPrefix_iff Let_def)
  qed
qed

lemma parsed_object:
  "parsed (JObject m) = JObject (map (\<lambda>(k, v). (utf8_norm k, parsed v)) (sort_key fst m))"
  by (auto simp: sort_key_map_snd)

lemma json_text_object:
  "json_text (JObject m) = json_fields (map (\<lambda>(k, v). (k, json_text v)) (sort_key fst m))"
  by (simp add: sort_key_map_snd)

lemma parses_to_value:
  "json_wf v \<Longrightarrow> json_depth v \<le> d \<Longrightarrow> parses_to d (json_text v) (parsed v)"
proof (induction v arbitrary: d rule: json_text.induct)
  case (6 vs)
  obtain e where d: "d = Suc e" using 6(3) by (cases d) auto
  have "list_all2 (parses_to e) (map json_text vs) (map parsed vs)"
    using 6 d by (auto simp: list_all2_map1 list_all2_map2 list_all2_same foldr_max_le)
  then show ?case using parses_to_array d by simp
next
  case (7 m)
  obtain e where d: "d = Suc e" using 7(3) by (cases d) auto
  have "parses_to e (json_text v) (parsed v)" if "(k, v) \<in> set m" for k v
    using 7(1) [OF that refl] 7(2,3) that d by (fastforce simp: foldr_max_le)
  then have "list_all2 (member_parses e) (map (\<lambda>(k, v). (k, json_text v)) (sort_key fst m))
      (map (\<lambda>(k, v). (utf8_norm k, parsed v)) (sort_key fst m))"
    by (auto simp: list_all2_map1 list_all2_map2 list_all2_same member_parses_def)
  then show ?case using parses_to_object d unfolding json_text_object parsed_object by blast
qed (auto simp: parses_to_word parses_to_num num_lit_show_int parses_to_string split: option.splits)

lemma parses_to_document:
  "parses_to 10000 t v \<Longrightarrow> json_parse t = Some v"
  by (auto simp: json_parse_def parses_to_def ends_value_def skip_ws_def
        dest!: spec [of _ "Suc (length t)"] spec [of _ "[]"])

lemma json_parse_text:
  "json_wf v \<Longrightarrow> json_depth v \<le> 10000 \<Longrightarrow> json_parse (json_text v) = Some (parsed v)"
  by (intro parses_to_document parses_to_value)

end
