(* ===== verification/Store.thy ===== *)
theory Store
  imports Json "HOL-Library.Word"
begin

text \<open>
  The in-memory collection store, \<open>src/internal/collect/store.go\<close>: rows keyed by target
  namespace, target name and resource UID, kept in one shard per target namespace, with
  a mutation counter per namespace and two kinds of buffered watcher channels.

  Each method of \<open>Store\<close> is one function. A method that holds the shard lock over its
  work is one atomic step, so it is a state transformer; the reading methods also create
  the shard they look up (\<open>shardFor\<close>) and return the changed store beside their
  result. A channel is its buffer: \<open>chan struct\<close> with capacity 1 is the number of
  buffered signals, \<open>chan string\<close> with capacity 8 is the list of buffered namespaces.
  The locale \<open>item_store\<close> is the contract the other components rely on; it is
  interpreted below on the functions of this theory.
\<close>

section \<open>Rows and state\<close>

text \<open>A collected row; \<open>None\<close> is the nil attribute map.\<close>

record item =
  item_targetNamespace :: string
  item_targetName :: string
  item_namespace :: string
  item_name :: string
  item_group :: string
  item_version :: string
  item_kind :: string
  item_uid :: string
  item_attributes :: "(string, any) gomap option"

type_synonym bucket = "(string, item) gomap"
type_synonym shard = "(string, bucket) gomap"

record store =
  shards :: "(string, shard) gomap"
  watchers :: "(nat, nat) gomap"
  nsWatchers :: "(nat, string list) gomap"
  versions :: "(string, 64 word) gomap"
  nextChan :: nat

section \<open>Operations\<close>

definition NewStore :: store where
  "NewStore = \<lparr>shards = [], watchers = [], nsWatchers = [], versions = [], nextChan = 0\<rparr>"

definition Subscribe :: "store \<Rightarrow> nat \<times> store" where
  "Subscribe s = (let ch = nextChan s in
     (ch, s\<lparr>watchers := AList.update ch 0 (watchers s), nextChan := Suc ch\<rparr>))"

definition Unsubscribe :: "nat \<Rightarrow> store \<Rightarrow> store" where
  "Unsubscribe ch s = s\<lparr>watchers := AList.delete ch (watchers s)\<rparr>"

definition SubscribeNamespaces :: "store \<Rightarrow> nat \<times> store" where
  "SubscribeNamespaces s = (let ch = nextChan s in
     (ch, s\<lparr>nsWatchers := AList.update ch [] (nsWatchers s), nextChan := Suc ch\<rparr>))"

definition UnsubscribeNamespaces :: "nat \<Rightarrow> store \<Rightarrow> store" where
  "UnsubscribeNamespaces ch s = s\<lparr>nsWatchers := AList.delete ch (nsWatchers s)\<rparr>"

text \<open>A \<open>select\<close> with a default branch: send if the buffer has room, else drop.\<close>

definition notifyWatchers :: "string \<Rightarrow> store \<Rightarrow> store" where
  "notifyWatchers ns s = s\<lparr>
     watchers := map (\<lambda>(ch, n). (ch, if n < 1 then Suc n else n)) (watchers s),
     nsWatchers := map (\<lambda>(ch, q). (ch, if length q < 8 then q @ [ns] else q)) (nsWatchers s)\<rparr>"

definition targetKey :: "string \<Rightarrow> string \<Rightarrow> string" where
  "targetKey namespace name = namespace @ ''/'' @ name"

definition shardFor :: "string \<Rightarrow> store \<Rightarrow> shard \<times> store" where
  "shardFor ns s = (case map_of (shards s) ns of
     Some sh \<Rightarrow> (sh, s)
   | None \<Rightarrow> ([], s\<lparr>shards := AList.update ns [] (shards s)\<rparr>))"

definition bumpNamespaceVersion :: "string \<Rightarrow> store \<Rightarrow> store" where
  "bumpNamespaceVersion ns s =
     s\<lparr>versions := AList.update ns (map_get_or 0 (versions s) ns + 1) (versions s)\<rparr>"

definition NamespaceVersion :: "string \<Rightarrow> store \<Rightarrow> 64 word" where
  "NamespaceVersion ns s = map_get_or 0 (versions s) ns"

text \<open>Write a changed shard back: the code mutates it through the pointer.\<close>

definition put_shard :: "string \<Rightarrow> shard \<Rightarrow> store \<Rightarrow> store" where
  "put_shard ns sh s = s\<lparr>shards := AList.update ns sh (shards s)\<rparr>"

definition Upsert :: "item \<Rightarrow> store \<Rightarrow> store" where
  "Upsert it s =
     (let ns = item_targetNamespace it; tn = item_targetName it;
          (sh, s1) = shardFor ns s;
          bucket = map_get_or [] sh tn;
          sh' = AList.update tn (AList.update (item_uid it) it bucket) sh
      in notifyWatchers ns (bumpNamespaceVersion ns (put_shard ns sh' s1)))"

definition RemoveTarget :: "string \<Rightarrow> string \<Rightarrow> store \<Rightarrow> store" where
  "RemoveTarget ns tn s =
     (let (sh, s1) = shardFor ns s
      in notifyWatchers ns (bumpNamespaceVersion ns (put_shard ns (AList.delete tn sh) s1)))"

definition Remove :: "string \<Rightarrow> string \<Rightarrow> string \<Rightarrow> store \<Rightarrow> store" where
  "Remove ns tn uid s =
     (let (sh, s1) = shardFor ns s;
          s2 = (case map_of sh tn of
                  None \<Rightarrow> s1
                | Some bucket \<Rightarrow>
                    (let bucket' = AList.delete uid bucket;
                         sh' = (if bucket' = [] then AList.delete tn sh
                                else AList.update tn bucket' sh)
                     in bumpNamespaceVersion ns (put_shard ns sh' s1)))
      in notifyWatchers ns s2)"

definition CountForTarget :: "string \<Rightarrow> string \<Rightarrow> store \<Rightarrow> nat \<times> store" where
  "CountForTarget ns tn s =
     (let (sh, s1) = shardFor ns s in (length (map_get_or [] sh tn), s1))"

definition SnapshotTarget :: "string \<Rightarrow> string \<Rightarrow> store \<Rightarrow> item list \<times> store" where
  "SnapshotTarget ns tn s =
     (let (sh, s1) = shardFor ns s in (map snd (map_get_or [] sh tn), s1))"

definition shard_count :: "shard \<Rightarrow> nat" where
  "shard_count sh = fold (\<lambda>(tn, bucket) total. total + length bucket) sh 0"

definition shard_items :: "shard \<Rightarrow> item list" where
  "shard_items sh = concat (map (\<lambda>(tn, bucket). map snd bucket) sh)"

definition CountForNamespace :: "string \<Rightarrow> store \<Rightarrow> nat \<times> store" where
  "CountForNamespace ns s = (let (sh, s1) = shardFor ns s in (shard_count sh, s1))"

definition SnapshotNamespace :: "string \<Rightarrow> store \<Rightarrow> item list \<times> store" where
  "SnapshotNamespace ns s = (let (sh, s1) = shardFor ns s in (shard_items sh, s1))"

definition Len :: "store \<Rightarrow> nat" where
  "Len s = fold (\<lambda>(ns, sh) total. total + shard_count sh) (shards s) 0"

definition TotalCount :: "store \<Rightarrow> nat" where
  "TotalCount s = Len s"

definition snapshotAll :: "store \<Rightarrow> item list" where
  "snapshotAll s = concat (map (\<lambda>(ns, sh). shard_items sh) (shards s))"

record namespace_summary =
  summary_namespace :: string
  summary_itemCount :: nat
  summary_items :: "item list"

definition Summary :: "string \<Rightarrow> store \<Rightarrow> namespace_summary \<times> store" where
  "Summary ns s =
     (let (items0, s1) = SnapshotNamespace ns s;
          items = (if ns = '''' then snapshotAll s1 else items0)
      in (\<lparr>summary_namespace = ns, summary_itemCount = length items, summary_items = items\<rparr>, s1))"

lemmas store_defs = Upsert_def Remove_def RemoveTarget_def shardFor_def put_shard_def
  bumpNamespaceVersion_def notifyWatchers_def Let_def


section \<open>Abstraction and invariant\<close>

text \<open>The store as a map: the row of a target namespace, target name and UID.\<close>

definition shard_of :: "store \<Rightarrow> string \<Rightarrow> shard" where
  "shard_of s ns = map_get_or [] (shards s) ns"

definition bucket_of :: "store \<Rightarrow> string \<Rightarrow> string \<Rightarrow> bucket" where
  "bucket_of s ns tn = map_get_or [] (shard_of s ns) tn"

definition rows :: "store \<Rightarrow> string \<Rightarrow> string \<Rightarrow> string \<Rightarrow> item option" where
  "rows s ns tn uid = map_of (bucket_of s ns tn) uid"

definition wf_bucket :: "string \<Rightarrow> string \<Rightarrow> bucket \<Rightarrow> bool" where
  "wf_bucket ns tn b \<longleftrightarrow> b \<noteq> [] \<and> wf_map b \<and>
     (\<forall>(uid, it) \<in> set b. item_uid it = uid \<and> item_targetName it = tn \<and> item_targetNamespace it = ns)"

definition wf_shard :: "string \<Rightarrow> shard \<Rightarrow> bool" where
  "wf_shard ns sh \<longleftrightarrow> wf_map sh \<and> (\<forall>(tn, b) \<in> set sh. wf_bucket ns tn b)"

definition wf_channels :: "store \<Rightarrow> bool" where
  "wf_channels s \<longleftrightarrow> wf_map (watchers s) \<and> wf_map (nsWatchers s) \<and>
     (\<forall>(ch, n) \<in> set (watchers s). n \<le> 1 \<and> ch < nextChan s) \<and>
     (\<forall>(ch, q) \<in> set (nsWatchers s). length q \<le> 8 \<and> ch < nextChan s)"

definition wf_store :: "store \<Rightarrow> bool" where
  "wf_store s \<longleftrightarrow> wf_map (shards s) \<and> (\<forall>(ns, sh) \<in> set (shards s). wf_shard ns sh) \<and>
     wf_map (versions s) \<and> wf_channels s"

lemma shardFor_fst: "fst (shardFor ns s) = shard_of s ns"
  by (simp add: shardFor_def shard_of_def map_get_or_def split: option.splits)

lemma shardFor_shard_of [simp]: "shard_of (snd (shardFor ns s)) ns' = shard_of s ns'"
  by (auto simp: shardFor_def shard_of_def map_get_or_def split: option.splits)

lemma shard_of_put [simp]: "shard_of (put_shard ns sh s) ns' = (if ns = ns' then sh else shard_of s ns')"
  by (simp add: put_shard_def shard_of_def)

lemma shard_of_bump [simp]: "shard_of (bumpNamespaceVersion ns s) ns' = shard_of s ns'"
  by (simp add: bumpNamespaceVersion_def shard_of_def)

lemma shard_of_notify [simp]: "shard_of (notifyWatchers ns s) ns' = shard_of s ns'"
  by (simp add: notifyWatchers_def shard_of_def)

lemma NamespaceVersion_shardFor [simp]:
  "NamespaceVersion ns' (snd (shardFor ns s)) = NamespaceVersion ns' s"
  by (simp add: shardFor_def NamespaceVersion_def split: option.splits)

lemma NamespaceVersion_put [simp]: "NamespaceVersion ns' (put_shard ns sh s) = NamespaceVersion ns' s"
  by (simp add: put_shard_def NamespaceVersion_def)

lemma NamespaceVersion_notify [simp]: "NamespaceVersion ns' (notifyWatchers ns s) = NamespaceVersion ns' s"
  by (simp add: notifyWatchers_def NamespaceVersion_def)

lemma NamespaceVersion_bump [simp]:
  "NamespaceVersion ns' (bumpNamespaceVersion ns s) =
     (if ns = ns' then NamespaceVersion ns s + 1 else NamespaceVersion ns' s)"
  by (simp add: bumpNamespaceVersion_def NamespaceVersion_def)

text \<open>The mutating operations in terms of the shard they change.\<close>

definition removed_shard :: "string \<Rightarrow> string \<Rightarrow> shard \<Rightarrow> shard" where
  "removed_shard tn uid sh = (case map_of sh tn of
     None \<Rightarrow> sh
   | Some b \<Rightarrow> (let b' = AList.delete uid b in
       if b' = [] then AList.delete tn sh else AList.update tn b' sh))"

lemma shard_of_Upsert:
  "shard_of (Upsert it s) ns =
     (if ns = item_targetNamespace it
      then AList.update (item_targetName it)
             (AList.update (item_uid it) it (map_get_or [] (shard_of s ns) (item_targetName it)))
             (shard_of s ns)
      else shard_of s ns)"
  by (auto simp: Upsert_def Let_def split_beta shardFor_fst)

lemma shard_of_RemoveTarget:
  "shard_of (RemoveTarget ns tn s) ns' =
     (if ns = ns' then AList.delete tn (shard_of s ns) else shard_of s ns')"
  by (simp add: RemoveTarget_def Let_def split_beta shardFor_fst)

lemma shard_of_Remove:
  "shard_of (Remove ns tn uid s) ns' =
     (if ns = ns' then removed_shard tn uid (shard_of s ns) else shard_of s ns')"
  by (auto simp: Remove_def Let_def split_beta shardFor_fst removed_shard_def split: option.splits)

lemma bucket_of_eq:
  "bucket_of s ns tn = map_get_or [] (shard_of s ns) tn"
  by (simp add: bucket_of_def)

lemma map_get_or_removed_shard:
  "map_get_or [] (removed_shard tn uid sh) tn' =
     (if tn = tn' then AList.delete uid (map_get_or [] sh tn) else map_get_or [] sh tn')"
  by (auto simp: removed_shard_def Let_def map_get_or_def split: option.splits)

lemma rows_Upsert:
  "rows (Upsert it s) ns tn uid =
     (if (ns, tn, uid) = (item_targetNamespace it, item_targetName it, item_uid it)
      then Some it else rows s ns tn uid)"
  by (auto simp: rows_def bucket_of_def shard_of_Upsert)

lemma rows_Remove:
  "rows (Remove ns tn uid s) ns' tn' uid' =
     (if (ns', tn', uid') = (ns, tn, uid) then None else rows s ns' tn' uid')"
  by (auto simp: rows_def bucket_of_def shard_of_Remove map_get_or_removed_shard)

lemma rows_RemoveTarget:
  "rows (RemoveTarget ns tn s) ns' tn' uid' =
     (if (ns', tn') = (ns, tn) then None else rows s ns' tn' uid')"
  by (auto simp: rows_def bucket_of_def shard_of_RemoveTarget)

lemma rows_NewStore: "rows NewStore ns tn uid = None"
  by (simp add: rows_def bucket_of_def shard_of_def NewStore_def map_get_or_def)

lemmas rows_simps [kollect_simps] = rows_Upsert rows_Remove rows_RemoveTarget rows_NewStore

text \<open>Reading never changes a row.\<close>

lemma rows_shardFor [simp]: "rows (snd (shardFor ns s)) ns' tn uid = rows s ns' tn uid"
  by (simp add: rows_def bucket_of_def)

lemma read_state:
  "snd (CountForTarget ns tn s) = snd (shardFor ns s)"
  "snd (SnapshotTarget ns tn s) = snd (shardFor ns s)"
  "snd (CountForNamespace ns s) = snd (shardFor ns s)"
  "snd (SnapshotNamespace ns s) = snd (shardFor ns s)"
  "snd (Summary ns s) = snd (shardFor ns s)"
  by (simp_all add: CountForTarget_def SnapshotTarget_def CountForNamespace_def
      SnapshotNamespace_def Summary_def Let_def split_beta)

section \<open>Every operation keeps the invariant\<close>

lemma wf_shard_of: "wf_store s \<Longrightarrow> wf_shard ns (shard_of s ns)"
  by (auto simp: wf_store_def shard_of_def map_get_or_def wf_shard_def dest!: map_of_SomeD split: option.splits)

lemma wf_bucket_of:
  "wf_shard ns sh \<Longrightarrow> map_of sh tn = Some b \<Longrightarrow> wf_bucket ns tn b"
  by (auto simp: wf_shard_def dest!: map_of_SomeD)

lemma wf_shard_update:
  "wf_shard ns sh \<Longrightarrow> wf_bucket ns tn b \<Longrightarrow> wf_shard ns (AList.update tn b sh)"
  by (auto simp: wf_shard_def set_update_wf)

lemma wf_shard_delete: "wf_shard ns sh \<Longrightarrow> wf_shard ns (AList.delete tn sh)"
  by (auto simp: wf_shard_def set_delete_eq)

lemma wf_bucket_update:
  "wf_bucket (item_targetNamespace it) (item_targetName it) b \<or> b = [] \<Longrightarrow>
   wf_bucket (item_targetNamespace it) (item_targetName it) (AList.update (item_uid it) it b)"
  by (auto simp: wf_bucket_def set_update_wf update_nonempty)

lemma wf_bucket_delete:
  "wf_bucket ns tn b \<Longrightarrow> AList.delete uid b \<noteq> [] \<Longrightarrow> wf_bucket ns tn (AList.delete uid b)"
  by (auto simp: wf_bucket_def set_delete_eq)

lemma wf_removed_shard: "wf_shard ns sh \<Longrightarrow> wf_shard ns (removed_shard tn uid sh)"
  by (auto simp: removed_shard_def Let_def wf_shard_delete
      intro!: wf_shard_update wf_bucket_delete dest: wf_bucket_of split: option.splits)

lemma wf_store_put:
  "wf_store s \<Longrightarrow> wf_shard ns sh \<Longrightarrow> wf_store (put_shard ns sh s)"
  by (auto simp: wf_store_def put_shard_def set_update_wf wf_channels_def)

lemma wf_store_shardFor: "wf_store s \<Longrightarrow> wf_store (snd (shardFor ns s))"
  using wf_store_put [of s ns "[]"]
  by (auto simp: shardFor_def put_shard_def wf_shard_def split: option.splits)

lemma wf_store_bump: "wf_store s \<Longrightarrow> wf_store (bumpNamespaceVersion ns s)"
  by (auto simp: wf_store_def bumpNamespaceVersion_def wf_channels_def)

lemma wf_store_notify: "wf_store s \<Longrightarrow> wf_store (notifyWatchers ns s)"
  by (auto simp: wf_store_def notifyWatchers_def wf_channels_def comp_def split_beta)

lemmas wf_store_steps = wf_store_put wf_store_shardFor wf_store_bump wf_store_notify

lemma wf_store_NewStore: "wf_store NewStore"
  by (simp add: wf_store_def NewStore_def wf_channels_def)

lemma wf_store_Upsert: "wf_store s \<Longrightarrow> wf_store (Upsert it s)"
  unfolding Upsert_def Let_def split_beta shardFor_fst
  by (intro wf_store_steps wf_shard_update wf_bucket_update wf_shard_of)
    (auto simp: map_get_or_def split: option.splits dest: wf_bucket_of [OF wf_shard_of])

lemma wf_store_RemoveTarget: "wf_store s \<Longrightarrow> wf_store (RemoveTarget ns tn s)"
  unfolding RemoveTarget_def Let_def split_beta shardFor_fst
  by (intro wf_store_steps wf_shard_delete wf_shard_of)

lemma wf_store_Remove: "wf_store s \<Longrightarrow> wf_store (Remove ns tn uid s)"
proof -
  assume wf: "wf_store s"
  have "wf_shard ns (removed_shard tn uid (shard_of s ns))"
    by (intro wf_removed_shard wf_shard_of wf)
  then show ?thesis
    unfolding Remove_def Let_def split_beta shardFor_fst
    using wf by (auto simp: removed_shard_def Let_def intro!: wf_store_steps split: option.splits if_splits)
qed

lemma wf_store_Subscribe: "wf_store s \<Longrightarrow> wf_store (snd (Subscribe s))"
  by (fastforce simp: wf_store_def Subscribe_def wf_channels_def set_update_wf Let_def)

lemma wf_store_SubscribeNamespaces: "wf_store s \<Longrightarrow> wf_store (snd (SubscribeNamespaces s))"
  by (fastforce simp: wf_store_def SubscribeNamespaces_def wf_channels_def set_update_wf Let_def)

lemma wf_store_Unsubscribe: "wf_store s \<Longrightarrow> wf_store (Unsubscribe ch s)"
  by (auto simp: wf_store_def Unsubscribe_def wf_channels_def set_delete_eq)

lemma wf_store_UnsubscribeNamespaces: "wf_store s \<Longrightarrow> wf_store (UnsubscribeNamespaces ch s)"
  by (auto simp: wf_store_def UnsubscribeNamespaces_def wf_channels_def set_delete_eq)


section \<open>The contract of the store\<close>

text \<open>
  What the collection engine and the reconcilers rely on: a map from (target namespace,
  target name, UID) to rows that three operations change. A log of operations is
  replayed by \<open>replay\<close>; its effect on the map is \<open>abs_op\<close> folded over the log.
\<close>

datatype store_op =
    OpUpsert item
  | OpRemove string string string
  | OpRemoveTarget string string

type_synonym rowmap = "string \<Rightarrow> string \<Rightarrow> string \<Rightarrow> item option"

fun abs_op :: "store_op \<Rightarrow> rowmap \<Rightarrow> rowmap" where
  "abs_op (OpUpsert it) m = (\<lambda>ns tn uid.
     if (ns, tn, uid) = (item_targetNamespace it, item_targetName it, item_uid it)
     then Some it else m ns tn uid)"
| "abs_op (OpRemove ns0 tn0 uid0) m = (\<lambda>ns tn uid.
     if (ns, tn, uid) = (ns0, tn0, uid0) then None else m ns tn uid)"
| "abs_op (OpRemoveTarget ns0 tn0) m = (\<lambda>ns tn uid.
     if (ns, tn) = (ns0, tn0) then None else m ns tn uid)"

fun op_with :: "(item \<Rightarrow> 's \<Rightarrow> 's) \<Rightarrow> (string \<Rightarrow> string \<Rightarrow> string \<Rightarrow> 's \<Rightarrow> 's) \<Rightarrow>
    (string \<Rightarrow> string \<Rightarrow> 's \<Rightarrow> 's) \<Rightarrow> store_op \<Rightarrow> 's \<Rightarrow> 's" where
  "op_with up rm rt (OpUpsert it) s = up it s"
| "op_with up rm rt (OpRemove ns tn uid) s = rm ns tn uid s"
| "op_with up rm rt (OpRemoveTarget ns tn) s = rt ns tn s"

locale item_store =
  fixes inv :: "'s \<Rightarrow> bool"
    and upsert :: "item \<Rightarrow> 's \<Rightarrow> 's"
    and remove :: "string \<Rightarrow> string \<Rightarrow> string \<Rightarrow> 's \<Rightarrow> 's"
    and remove_target :: "string \<Rightarrow> string \<Rightarrow> 's \<Rightarrow> 's"
    and lookup :: "'s \<Rightarrow> rowmap"
  assumes inv_upsert: "inv s \<Longrightarrow> inv (upsert it s)"
    and inv_remove: "inv s \<Longrightarrow> inv (remove ns tn uid s)"
    and inv_remove_target: "inv s \<Longrightarrow> inv (remove_target ns tn s)"
    and lookup_upsert: "inv s \<Longrightarrow> lookup (upsert it s) = abs_op (OpUpsert it) (lookup s)"
    and lookup_remove: "inv s \<Longrightarrow> lookup (remove ns tn uid s) = abs_op (OpRemove ns tn uid) (lookup s)"
    and lookup_remove_target:
      "inv s \<Longrightarrow> lookup (remove_target ns tn s) = abs_op (OpRemoveTarget ns tn) (lookup s)"
    and lookup_keyed: "inv s \<Longrightarrow> lookup s ns tn uid = Some it \<Longrightarrow>
      item_targetNamespace it = ns \<and> item_targetName it = tn \<and> item_uid it = uid"
begin

lemma step_inv: "inv s \<Longrightarrow> inv (op_with upsert remove remove_target op s)"
  by (cases op) (auto intro: inv_upsert inv_remove inv_remove_target)

lemma step_lookup:
  "inv s \<Longrightarrow> lookup (op_with upsert remove remove_target op s) = abs_op op (lookup s)"
  by (cases op) (simp_all add: lookup_upsert lookup_remove lookup_remove_target)

lemma replay_refines:
  "inv s \<Longrightarrow> inv (fold (op_with upsert remove remove_target) ops s) \<and>
     lookup (fold (op_with upsert remove remove_target) ops s) = fold abs_op ops (lookup s)"
  by (induction ops arbitrary: s) (auto simp: step_inv step_lookup)

lemma upsert_then_remove:
  "inv s \<Longrightarrow> lookup (remove (item_targetNamespace it) (item_targetName it) (item_uid it) (upsert it s)) =
     lookup (remove (item_targetNamespace it) (item_targetName it) (item_uid it) s)"
  by (auto simp: lookup_remove lookup_upsert inv_upsert fun_eq_iff)

lemma remove_target_clears: "inv s \<Longrightarrow> lookup (remove_target ns tn s) ns tn uid = None"
  by (simp add: lookup_remove_target)

end

lemma rows_keyed:
  assumes "wf_store s" and "rows s ns tn uid = Some it"
  shows "item_targetNamespace it = ns \<and> item_targetName it = tn \<and> item_uid it = uid"
proof -
  obtain b where b: "map_of (shard_of s ns) tn = Some b" and it: "map_of b uid = Some it"
    using assms(2) by (auto simp: rows_def bucket_of_def map_get_or_def split: option.splits)
  have "wf_bucket ns tn b" by (rule wf_bucket_of [OF wf_shard_of [OF assms(1)] b])
  with it show ?thesis by (auto simp: wf_bucket_def dest!: map_of_SomeD)
qed

interpretation kstore: item_store wf_store Upsert Remove RemoveTarget rows
  by unfold_locales
    (auto simp: wf_store_Upsert wf_store_Remove wf_store_RemoveTarget rows_simps fun_eq_iff
      dest: rows_keyed)

abbreviation apply_op :: "store_op \<Rightarrow> store \<Rightarrow> store" where
  "apply_op \<equiv> op_with Upsert Remove RemoveTarget"

abbreviation run_ops :: "store_op list \<Rightarrow> store \<Rightarrow> store" where
  "run_ops \<equiv> fold apply_op"

section \<open>Snapshots and counts\<close>

lemma shard_count_length: "shard_count sh = length (shard_items sh)"
proof -
  have "fold (\<lambda>(tn, b) total. total + length b) sh n = n + length (shard_items sh)" for n
    by (induction sh arbitrary: n) (auto simp: shard_items_def)
  then show ?thesis by (simp add: shard_count_def)
qed

lemma Len_length: "Len s = length (snapshotAll s)"
proof -
  have "fold (\<lambda>(ns, sh) total. total + shard_count sh) m n =
      n + length (concat (map (\<lambda>(ns, sh). shard_items sh) m))" for m :: "(string, shard) gomap" and n
    by (induction m arbitrary: n) (auto simp: shard_count_length)
  then show ?thesis by (simp add: Len_def snapshotAll_def)
qed

lemma set_shard_items:
  "wf_shard ns sh \<Longrightarrow> it \<in> set (shard_items sh) \<longleftrightarrow>
     (\<exists>tn uid. map_of (map_get_or [] sh tn) uid = Some it)"
proof
  assume wf: "wf_shard ns sh" and "it \<in> set (shard_items sh)"
  then obtain tn b uid where "(tn, b) \<in> set sh" and "(uid, it) \<in> set b"
    by (auto simp: shard_items_def)
  with wf have "map_of sh tn = Some b" and "map_of b uid = Some it"
    by (auto simp: wf_shard_def wf_bucket_def)
  then have "map_of (map_get_or [] sh tn) uid = Some it" by (simp add: map_get_or_def)
  then show "\<exists>tn uid. map_of (map_get_or [] sh tn) uid = Some it" by blast
next
  assume "\<exists>tn uid. map_of (map_get_or [] sh tn) uid = Some it"
  then obtain tn uid b where "map_of sh tn = Some b" and "map_of b uid = Some it"
    by (auto simp: map_get_or_def split: option.splits)
  then show "it \<in> set (shard_items sh)"
    by (force simp: shard_items_def dest!: map_of_SomeD)
qed

lemma distinct_bucket_items:
  assumes "wf_bucket ns tn b"
  shows "distinct (map snd b)"
proof -
  have uid: "fst p = item_uid (snd p)" if "p \<in> set b" for p
    using that assms by (auto simp: wf_bucket_def)
  have "inj_on snd (set b)"
    by (rule inj_onI) (metis uid prod_eqI)
  moreover have "distinct b" using assms by (simp add: wf_bucket_def distinct_map)
  ultimately show ?thesis by (simp add: distinct_map)
qed

lemma distinct_shard_items: "wf_shard ns sh \<Longrightarrow> distinct (shard_items sh)"
proof (induction sh)
  case (Cons p sh)
  obtain tn b where p: "p = (tn, b)" by (cases p)
  with Cons.prems have b: "wf_bucket ns tn b" and rest: "wf_shard ns sh" and tn: "tn \<notin> fst ` set sh"
    by (auto simp: wf_shard_def)
  have "item_targetName it = tn" if "it \<in> set (map snd b)" for it
    using that b by (auto simp: wf_bucket_def)
  moreover have "item_targetName it \<noteq> tn" if "it \<in> set (shard_items sh)" for it
    using that rest tn by (force simp: wf_shard_def shard_items_def wf_bucket_def)
  ultimately have "set (map snd b) \<inter> set (shard_items sh) = {}" by blast
  with distinct_bucket_items [OF b] Cons.IH [OF rest] show ?case
    by (simp add: p shard_items_def)
qed (simp add: shard_items_def)

lemma SnapshotNamespace_fst: "fst (SnapshotNamespace ns s) = shard_items (shard_of s ns)"
  by (simp add: SnapshotNamespace_def split_beta shardFor_fst)

lemma CountForNamespace_fst: "fst (CountForNamespace ns s) = shard_count (shard_of s ns)"
  by (simp add: CountForNamespace_def split_beta shardFor_fst)

lemma set_SnapshotNamespace:
  "wf_store s \<Longrightarrow> it \<in> set (fst (SnapshotNamespace ns s)) \<longleftrightarrow> (\<exists>tn uid. rows s ns tn uid = Some it)"
  by (simp add: SnapshotNamespace_fst rows_def bucket_of_def set_shard_items [OF wf_shard_of])

section \<open>Mutation counter\<close>

fun bump_of :: "string \<Rightarrow> store_op \<Rightarrow> store \<Rightarrow> nat" where
  "bump_of ns (OpUpsert it) s = (if item_targetNamespace it = ns then 1 else 0)"
| "bump_of ns (OpRemove ns' tn uid) s =
     (if ns' = ns \<and> map_of (shard_of s ns) tn \<noteq> None then 1 else 0)"
| "bump_of ns (OpRemoveTarget ns' tn) s = (if ns' = ns then 1 else 0)"

fun bumps :: "string \<Rightarrow> store_op list \<Rightarrow> store \<Rightarrow> nat" where
  "bumps ns [] s = 0"
| "bumps ns (op # ops) s = bump_of ns op s + bumps ns ops (apply_op op s)"

lemma version_apply_op:
  "NamespaceVersion ns (apply_op op s) = NamespaceVersion ns s + of_nat (bump_of ns op s)"
  by (cases op) (auto simp: Upsert_def Remove_def RemoveTarget_def Let_def split_beta shardFor_fst
      split: option.splits)

lemma shard_unbumped: "bump_of ns op s = 0 \<Longrightarrow> shard_of (apply_op op s) ns = shard_of s ns"
  by (cases op) (auto simp: shard_of_Upsert shard_of_Remove shard_of_RemoveTarget removed_shard_def
      split: if_splits option.splits)

lemma version_run_ops:
  "NamespaceVersion ns (run_ops ops s) = NamespaceVersion ns s + of_nat (bumps ns ops s)"
  by (induction ops arbitrary: s) (auto simp: version_apply_op)

lemma shard_unbumped_run: "bumps ns ops s = 0 \<Longrightarrow> shard_of (run_ops ops s) ns = shard_of s ns"
  by (induction ops arbitrary: s) (auto simp: shard_unbumped)

lemma bumps_le_length: "bumps ns ops s \<le> length ops"
proof (induction ops arbitrary: s)
  case (Cons op ops)
  have "bump_of ns op s \<le> 1" by (cases op) auto
  with Cons [of "apply_op op s"] show ?case by simp
qed simp

lemma bumps_append: "bumps ns (xs @ ys) s = bumps ns xs s + bumps ns ys (run_ops xs s)"
  by (induction xs arbitrary: s) auto

lemma of_nat_64_eq_0: "of_nat n = (0 :: 64 word) \<Longrightarrow> n < 2 ^ 64 \<Longrightarrow> n = 0"
  by (auto simp: word_of_nat_eq_0_iff dest: nat_dvd_not_less)


section \<open>Properties\<close>

text \<open>C1. The sharded store implements a plain map of rows: after any sequence of
  upserts, removals and target removals on a new store, looking a row up gives what the
  same sequence gives on a map from (target namespace, target name, UID) to rows, and
  the shards, buckets, keys and channel buffers are well formed (no empty bucket is left
  behind, every row sits under its own keys).\<close>

theorem store_refines_map:
  "rows (run_ops ops NewStore) = fold abs_op ops (\<lambda>_ _ _. None) \<and> wf_store (run_ops ops NewStore)"
proof -
  have "rows NewStore = (\<lambda>_ _ _. None)" by (simp add: fun_eq_iff rows_NewStore)
  then show ?thesis using kstore.replay_refines [OF wf_store_NewStore, of ops] by simp
qed

text \<open>A namespace snapshot holds every row of the namespace exactly once and nothing
  else, the namespace count is its length, the snapshot over all shards has as many
  rows as \<open>Len\<close> reports, and taking a snapshot changes no row.\<close>

theorem snapshot_exact:
  "let s = run_ops ops NewStore; (items, s') = SnapshotNamespace ns s in
     set items = {it. \<exists>tn uid. rows s ns tn uid = Some it} \<and> distinct items \<and>
     fst (CountForNamespace ns s) = length items \<and> Len s = length (snapshotAll s) \<and>
     rows s' = rows s"
proof -
  define s where "s = run_ops ops NewStore"
  have wf: "wf_store s"
    using kstore.replay_refines [OF wf_store_NewStore, of ops] by (simp add: s_def)
  have "distinct (fst (SnapshotNamespace ns s))"
    by (simp add: SnapshotNamespace_fst distinct_shard_items [OF wf_shard_of [OF wf]])
  moreover have "rows (snd (SnapshotNamespace ns s)) = rows s"
    by (simp add: read_state fun_eq_iff)
  moreover have "fst (CountForNamespace ns s) = length (fst (SnapshotNamespace ns s))"
    by (simp add: CountForNamespace_fst SnapshotNamespace_fst shard_count_length)
  ultimately show ?thesis
    using set_SnapshotNamespace [OF wf]
    by (auto simp: Let_def split_beta Len_length simp flip: s_def)
qed

text \<open>C2. Two reads of \<open>NamespaceVersion\<close> that return the same value guarantee that
  the namespace's content has not changed in between, as long as fewer than
  \<open>2 ^ 64\<close> operations ran (the counter is a \<open>uint64\<close> and wraps after that).\<close>

theorem same_version_same_content:
  assumes "length ops < 2 ^ 64"
    and "NamespaceVersion ns (run_ops ops s) = NamespaceVersion ns s"
  shows "fst (SnapshotNamespace ns (run_ops ops s)) = fst (SnapshotNamespace ns s) \<and>
    (\<forall>tn uid. rows (run_ops ops s) ns tn uid = rows s ns tn uid)"
proof -
  have "of_nat (bumps ns ops s) = (0 :: 64 word)"
    using assms(2) by (simp add: version_run_ops)
  moreover have "bumps ns ops s < 2 ^ 64"
    using assms(1) bumps_le_length [of ns ops s] by simp
  ultimately have "shard_of (run_ops ops s) ns = shard_of s ns"
    by (intro shard_unbumped_run of_nat_64_eq_0)
  then show ?thesis by (simp add: SnapshotNamespace_fst rows_def bucket_of_def)
qed

definition example_item :: "string \<Rightarrow> string \<Rightarrow> item" where
  "example_item ns uid = \<lparr>item_targetNamespace = ns, item_targetName = ''t'', item_namespace = ''app'',
     item_name = ''web'', item_group = ''apps'', item_version = ''v1'', item_kind = ''Deployment'',
     item_uid = uid, item_attributes = Some []\<rparr>"

theorem same_version_same_content_witness:
  "let s = Upsert (example_item ''team'' ''u1'') NewStore;
       ops = [OpRemove ''team'' ''gone'' ''u1'', OpUpsert (example_item ''other'' ''u2'')] in
   length ops < 2 ^ 64 \<and> NamespaceVersion ''team'' (run_ops ops s) = NamespaceVersion ''team'' s \<and>
   fst (SnapshotNamespace ''team'' (run_ops ops s)) = [example_item ''team'' ''u1'']"
proof -
  let ?s = "Upsert (example_item ''team'' ''u1'') NewStore"
  let ?ops = "[OpRemove ''team'' ''gone'' ''u1'', OpUpsert (example_item ''other'' ''u2'')]"
  have 1: "length ?ops < 2 ^ 64" by simp
  have 2: "NamespaceVersion ''team'' (run_ops ?ops ?s) = NamespaceVersion ''team'' ?s"
    by (simp add: NamespaceVersion_def store_defs example_item_def NewStore_def map_get_or_def)
  have "fst (SnapshotNamespace ''team'' ?s) = [example_item ''team'' ''u1'']"
    by (simp add: SnapshotNamespace_def store_defs example_item_def NewStore_def map_get_or_def
        shard_items_def)
  with 1 2 same_version_same_content [OF 1 2] show ?thesis by (simp add: Let_def)
qed

text \<open>C3. No wake-up is lost: after every upsert, removal or target removal each
  subscriber's channel holds exactly one signal, and each namespace subscriber's buffer
  either holds the changed namespace or is full (8 entries), in which case the send was
  dropped.\<close>

fun op_namespace :: "store_op \<Rightarrow> string" where
  "op_namespace (OpUpsert it) = item_targetNamespace it"
| "op_namespace (OpRemove ns tn uid) = ns"
| "op_namespace (OpRemoveTarget ns tn) = ns"

lemma watchers_apply_op:
  "watchers (apply_op op s) = map (\<lambda>(ch, n). (ch, if n < 1 then Suc n else n)) (watchers s)"
  by (cases op) (simp_all add: store_defs split_beta split: option.splits)

lemma nsWatchers_apply_op:
  "nsWatchers (apply_op op s) =
     map (\<lambda>(ch, q). (ch, if length q < 8 then q @ [op_namespace op] else q)) (nsWatchers s)"
  by (cases op) (simp_all add: store_defs split_beta split: option.splits)

theorem no_lost_wakeup:
  assumes "wf_store s"
  shows "list_all (\<lambda>(ch, n). n = 1) (watchers (apply_op op s)) \<and>
    list_all (\<lambda>(ch, q). op_namespace op \<in> set q \<or> length q = 8) (nsWatchers (apply_op op s))"
proof -
  have "n \<le> 1" if "(ch, n) \<in> set (watchers s)" for ch n
    using that assms by (auto simp: wf_store_def wf_channels_def)
  moreover have "length q \<le> 8" if "(ch, q) \<in> set (nsWatchers s)" for ch q
    using that assms by (auto simp: wf_store_def wf_channels_def)
  ultimately show ?thesis
    by (force simp: watchers_apply_op nsWatchers_apply_op list_all_iff intro: le_antisym)
qed

theorem no_lost_wakeup_witness:
  "let s = snd (SubscribeNamespaces (snd (Subscribe NewStore)));
       s' = apply_op (OpUpsert (example_item ''team'' ''u1'')) s in
   wf_store s \<and> list_all (\<lambda>(ch, n). n = 1) (watchers s') \<and>
   list_all (\<lambda>(ch, q). ''team'' \<in> set q \<or> length q = 8) (nsWatchers s') \<and>
   watchers s' = [(0, 1)] \<and> nsWatchers s' = [(1, [''team''])]"
proof -
  let ?s = "snd (SubscribeNamespaces (snd (Subscribe NewStore)))"
  let ?s' = "apply_op (OpUpsert (example_item ''team'' ''u1'')) ?s"
  have wf: "wf_store ?s"
    by (intro wf_store_SubscribeNamespaces wf_store_Subscribe wf_store_NewStore)
  have "watchers ?s' = [(0, 1)]" "nsWatchers ?s' = [(1, [''team''])]"
    by (simp_all add: store_defs Subscribe_def SubscribeNamespaces_def NewStore_def example_item_def)
  with wf no_lost_wakeup [OF wf, of "OpUpsert (example_item ''team'' ''u1'')"]
  show ?thesis by (simp add: Let_def example_item_def)
qed

end
