(* ===== verification/Aggregate.thy ===== *)
theory Aggregate
  imports Store
begin

text \<open>
  Cross-target rollup, \<open>src/internal/aggregate/dedupe.go\<close>: the cluster inventory collapses rows
  of the same object that several targets collected. The loop of \<open>MergeRows\<close> keeps a map from
  resource key to position in the output; the specification it is compared with says, for every
  key, which row is kept and where.
\<close>

section \<open>Operations\<close>

record RowIdentity =
  ri_TargetNamespace :: string
  ri_TargetName :: string
  ri_Namespace :: string
  ri_Name :: string
  ri_UID :: string

definition IdentityFromItem :: "item \<Rightarrow> RowIdentity" where
  "IdentityFromItem it =
     \<lparr>ri_TargetNamespace = item_targetNamespace it, ri_TargetName = item_targetName it,
      ri_Namespace = item_namespace it, ri_Name = item_name it, ri_UID = item_uid it\<rparr>"

record ResourceUID =
  ru_Namespace :: string
  ru_UID :: string

definition ResourceKeyFromItem :: "item \<Rightarrow> ResourceUID" where
  "ResourceKeyFromItem it = \<lparr>ru_Namespace = item_namespace it, ru_UID = item_uid it\<rparr>"

datatype DedupeMode = DedupeKeepAll | DedupeByResourceUID

fun merge_loop ::
  "(ResourceUID, nat) gomap \<Rightarrow> item list \<Rightarrow> item list \<Rightarrow> item list" where
  "merge_loop seen out [] = out"
| "merge_loop seen out (it # items) =
     (let key = ResourceKeyFromItem it in
      case map_of seen key of
        Some idx \<Rightarrow> merge_loop seen (out[idx := it]) items
      | None \<Rightarrow> merge_loop (AList.update key (length out) seen) (out @ [it]) items)"

definition MergeRows :: "item list \<Rightarrow> DedupeMode \<Rightarrow> item list" where
  "MergeRows items mode =
     (if items = [] \<or> mode = DedupeKeepAll then items else merge_loop [] [] items)"

text \<open>The value of \<open>spec.dedupe\<close>; \<open>None\<close> is a nil spec.\<close>

definition ClusterInventoryDedupeByResourceUID :: string where
  "ClusterInventoryDedupeByResourceUID = ''byResourceUID''"

definition DedupeModeFromSpec :: "string option \<Rightarrow> DedupeMode" where
  "DedupeModeFromSpec spec = (case spec of
     None \<Rightarrow> DedupeKeepAll
   | Some d \<Rightarrow> if d = ClusterInventoryDedupeByResourceUID then DedupeByResourceUID else DedupeKeepAll)"

section \<open>The loop\<close>

text \<open>The position map and the output agree.\<close>

definition merge_inv :: "(ResourceUID, nat) gomap \<Rightarrow> item list \<Rightarrow> bool" where
  "merge_inv seen out \<longleftrightarrow> distinct (map ResourceKeyFromItem out)
     \<and> (\<forall>k i. map_of seen k = Some i \<longleftrightarrow> i < length out \<and> ResourceKeyFromItem (out ! i) = k)"

lemma merge_inv_empty: "merge_inv [] []"
  by (simp add: merge_inv_def)

lemma merge_inv_replace:
  assumes "merge_inv seen out" "map_of seen (ResourceKeyFromItem it) = Some idx"
  shows "merge_inv seen (out[idx := it])"
    "map ResourceKeyFromItem (out[idx := it]) = map ResourceKeyFromItem out"
proof -
  have i: "idx < length out" "ResourceKeyFromItem (out ! idx) = ResourceKeyFromItem it"
    using assms by (auto simp: merge_inv_def)
  then show m: "map ResourceKeyFromItem (out[idx := it]) = map ResourceKeyFromItem out"
    by (simp add: map_update list_update_same_conv)
  have "ResourceKeyFromItem (out[idx := it] ! j) = ResourceKeyFromItem (out ! j)" if "j < length out" for j
    using i that by (cases "j = idx") simp_all
  then show "merge_inv seen (out[idx := it])" using assms(1) m by (auto simp: merge_inv_def)
qed

lemma merge_inv_append:
  assumes "merge_inv seen out" "map_of seen (ResourceKeyFromItem it) = None"
  shows "merge_inv (AList.update (ResourceKeyFromItem it) (length out) seen) (out @ [it])"
proof -
  have new: "ResourceKeyFromItem (out ! i) \<noteq> ResourceKeyFromItem it" if "i < length out" for i
    using assms that by (metis merge_inv_def option.distinct(1))
  then have "ResourceKeyFromItem it \<notin> ResourceKeyFromItem ` set out"
    by (metis imageE in_set_conv_nth)
  then show ?thesis using assms(1) new
    by (auto simp: merge_inv_def nth_append less_Suc_eq_le split: if_splits)
qed

text \<open>The last row with a given key, and the keys in order of first occurrence.\<close>

definition last_with :: "ResourceUID \<Rightarrow> item list \<Rightarrow> item option" where
  "last_with k items = find (\<lambda>it. ResourceKeyFromItem it = k) (rev items)"

fun first_keys :: "ResourceUID list \<Rightarrow> ResourceUID list \<Rightarrow> ResourceUID list" where
  "first_keys seen [] = seen"
| "first_keys seen (k # ks) = first_keys (if k \<in> set seen then seen else seen @ [k]) ks"

lemma last_with_Cons:
  "last_with k (it # items) = (case last_with k items of Some x \<Rightarrow> Some x
     | None \<Rightarrow> if ResourceKeyFromItem it = k then Some it else None)"
proof -
  have "find P (xs @ ys) = (case find P xs of Some x \<Rightarrow> Some x | None \<Rightarrow> find P ys)" for P and xs ys :: "item list"
    by (induction xs) auto
  then show ?thesis by (simp add: last_with_def split: option.split)
qed

lemma merge_inv_dom:
  assumes "merge_inv seen out"
  shows "map_of seen k = None \<longleftrightarrow> k \<notin> ResourceKeyFromItem ` set out"
proof -
  have iff: "map_of seen k = Some i \<longleftrightarrow> i < length out \<and> ResourceKeyFromItem (out ! i) = k" for i
    using assms by (simp add: merge_inv_def)
  show ?thesis
  proof (cases "map_of seen k")
    case None
    have "ResourceKeyFromItem x \<noteq> k" if "x \<in> set out" for x
      using that iff None by (metis in_set_conv_nth option.distinct(1))
    then show ?thesis using None by blast
  next
    case (Some i)
    then have "i < length out" "ResourceKeyFromItem (out ! i) = k" using iff [of i] by simp_all
    then have "k \<in> ResourceKeyFromItem ` set out" using nth_mem [of i out] by blast
    then show ?thesis using Some by simp
  qed
qed

lemma merge_loop_keys:
  assumes "merge_inv seen out"
  shows "map ResourceKeyFromItem (merge_loop seen out items)
       = first_keys (map ResourceKeyFromItem out) (map ResourceKeyFromItem items)"
  using assms
proof (induction items arbitrary: seen out)
  case (Cons it items)
  show ?case
  proof (cases "map_of seen (ResourceKeyFromItem it)")
    case None
    then have "ResourceKeyFromItem it \<notin> set (map ResourceKeyFromItem out)"
      using merge_inv_dom [OF Cons.prems, of "ResourceKeyFromItem it"] by simp
    then show ?thesis using None Cons.IH [OF merge_inv_append [OF Cons.prems None]] by (simp add: Let_def)
  next
    case (Some idx)
    then have "ResourceKeyFromItem it \<in> set (map ResourceKeyFromItem out)"
      using merge_inv_dom [OF Cons.prems, of "ResourceKeyFromItem it"] by simp
    then show ?thesis using Some Cons.IH [OF merge_inv_replace(1) [OF Cons.prems Some]]
        merge_inv_replace(2) [OF Cons.prems Some] by (simp add: Let_def)
  qed
qed simp

lemma merge_loop_rows:
  assumes "merge_inv seen out" "x \<in> set (merge_loop seen out items)"
  shows "last_with (ResourceKeyFromItem x) items = Some x
     \<or> last_with (ResourceKeyFromItem x) items = None \<and> x \<in> set out"
  using assms
proof (induction items arbitrary: seen out)
  case (Cons it items)
  show ?case
  proof (cases "map_of seen (ResourceKeyFromItem it)")
    case None
    then have "ResourceKeyFromItem it \<notin> ResourceKeyFromItem ` set out"
      using merge_inv_dom [OF Cons.prems(1), of "ResourceKeyFromItem it"] by simp
    then show ?thesis using None Cons.IH [OF merge_inv_append [OF Cons.prems(1) None]] Cons.prems(2)
      by (auto simp: Let_def last_with_Cons)
  next
    case (Some idx)
    let ?out = "out[idx := it]"
    have inv: "merge_inv seen ?out" by (rule merge_inv_replace(1) [OF Cons.prems(1) Some])
    have "idx < length out" using Cons.prems(1) Some by (auto simp: merge_inv_def)
    then have it: "it \<in> set ?out" by (simp add: set_update_memI)
    have "x = it \<or> ResourceKeyFromItem x \<noteq> ResourceKeyFromItem it \<and> x \<in> set out" if "x \<in> set ?out"
      using inv it that set_update_subset_insert [of out idx it]
      unfolding merge_inv_def distinct_map inj_on_def by blast
    moreover have "x \<in> set (merge_loop seen ?out items)" using Cons.prems(2) Some by (simp add: Let_def)
    ultimately show ?thesis using Cons.IH [OF inv] unfolding last_with_Cons
      by (cases "last_with (ResourceKeyFromItem x) items") auto
  qed
qed (simp add: last_with_def)

lemma last_with_NoneD: "last_with k items = None \<Longrightarrow> it \<in> set items \<Longrightarrow> ResourceKeyFromItem it \<noteq> k"
  by (auto simp: last_with_def find_None_iff)

lemma set_first_keys: "set (first_keys seen ks) = set seen \<union> set ks"
  by (induction seen ks rule: first_keys.induct) auto

lemma distinct_first_keys: "distinct seen \<Longrightarrow> distinct (first_keys seen ks)"
  by (induction seen ks rule: first_keys.induct) auto

section \<open>Properties\<close>

text \<open>C9. Collapsing by resource keeps exactly one row per object: the output has every resource key of
  the input once, in the order in which the keys first occur, and the row kept for a key is the last
  one the input has for it; in keep-all mode the input is returned unchanged.\<close>

theorem merge_rows_last_wins:
  "map ResourceKeyFromItem (MergeRows items DedupeByResourceUID)
     = first_keys [] (map ResourceKeyFromItem items)
   \<and> distinct (map ResourceKeyFromItem (MergeRows items DedupeByResourceUID))
   \<and> ResourceKeyFromItem ` set (MergeRows items DedupeByResourceUID) = ResourceKeyFromItem ` set items
   \<and> list_all (\<lambda>x. last_with (ResourceKeyFromItem x) items = Some x) (MergeRows items DedupeByResourceUID)
   \<and> MergeRows items DedupeKeepAll = items"
proof -
  let ?m = "MergeRows items DedupeByResourceUID"
  have m: "?m = merge_loop [] [] items" by (simp add: MergeRows_def)
  have k: "map ResourceKeyFromItem ?m = first_keys [] (map ResourceKeyFromItem items)"
    using merge_loop_keys [OF merge_inv_empty] m by simp
  have s: "set (map ResourceKeyFromItem ?m) = set (map ResourceKeyFromItem items)"
    unfolding k set_first_keys by simp
  have l: "last_with (ResourceKeyFromItem x) items = Some x" if "x \<in> set ?m" for x
    using merge_loop_rows [OF merge_inv_empty] that m by fastforce
  show ?thesis
  proof (intro conjI)
    show "distinct (map ResourceKeyFromItem ?m)" unfolding k by (rule distinct_first_keys) simp
    show "ResourceKeyFromItem ` set ?m = ResourceKeyFromItem ` set items" using s by (simp only: set_map)
    show "list_all (\<lambda>x. last_with (ResourceKeyFromItem x) items = Some x) ?m"
      unfolding list_all_iff using l by blast
  qed (rule k, simp add: MergeRows_def)
qed

end
