(* ===== verification/Json_Decode.thy ===== *)
theory Json_Decode
  imports Json
begin

text \<open>
  Decoding a parsed document into Go values: numbers into \<open>float64\<close>, rendered again as
  \<open>encoding/json\<close> renders them, numbers into \<open>int64\<close>, objects into \<open>map[string]any\<close>
  and the fields of a struct. A type mismatch is remembered and decoding goes on, as in
  \<open>json.Unmarshal\<close>: every decoder returns its value beside a flag that is False after
  an error.
\<close>

section \<open>Floating point numbers\<close>

fun bit_len :: "nat \<Rightarrow> nat" where
  "bit_len n = (if n = 0 then 0 else Suc (bit_len (n div 2)))"

declare bit_len.simps [simp del]

definition div_even :: "nat \<Rightarrow> nat \<Rightarrow> nat" where
  "div_even n d = (let q = n div d; r = n mod d in
     if 2 * r < d \<or> (2 * r = d \<and> even q) then q else q + 1)"

definition scaled :: "nat \<Rightarrow> int \<Rightarrow> nat \<times> nat \<Rightarrow> nat \<times> nat" where
  "scaled b e v = (case v of (n, d) \<Rightarrow>
     if 0 \<le> e then (n, d * b ^ nat e) else (n * b ^ nat (- e), d))"

text \<open>
  The \<open>float64\<close> nearest to a positive fraction, ties to even: a mantissa below \<open>2 ^ 53\<close>
  and a binary exponent, \<open>None\<close> on overflow.
\<close>

definition round64 :: "nat \<times> nat \<Rightarrow> (nat \<times> int) option" where
  "round64 v =
     (let e0 = int (bit_len (fst v)) - int (bit_len (snd v)) - 53;
          (n0, d0) = scaled 2 e0 v;
          e1 = max (- 1074) (if 2 ^ 53 \<le> n0 div d0 then e0 + 1 else e0);
          (n, d) = scaled 2 e1 v;
          m = div_even n d;
          (m', e) = (if m = 2 ^ 53 then (2 ^ 52, e1 + 1) else (m, e1))
      in if 971 < e then None else Some (m', e))"

text \<open>The position of the decimal point before the first digit of a positive fraction.\<close>

fun leading_zeros :: "nat \<Rightarrow> nat \<times> nat \<Rightarrow> nat" where
  "leading_zeros 0 v = 0"
| "leading_zeros (Suc f) (n, d) = (if d \<le> 10 * n then 0 else Suc (leading_zeros f (10 * n, d)))"

definition point_pos :: "nat \<times> nat \<Rightarrow> int" where
  "point_pos v = (case v of (n, d) \<Rightarrow>
     if d \<le> n then int (length (show_nat (n div d))) else - int (leading_zeros 400 (n, d)))"

text \<open>The candidate with \<open>k\<close> digits that reads back as the same number, if there is one.\<close>

definition candidate :: "nat \<times> int \<Rightarrow> nat \<times> nat \<Rightarrow> nat \<Rightarrow> nat option" where
  "candidate f v k =
     (let x = point_pos v - int k;
          (n, d) = scaled 10 x v;
          reads = (\<lambda>c. round64 (scaled 10 (- x) (c, 1)) = Some f);
          near = div_even n d; lo = n div d
      in find reads [near, lo, lo + 1])"

definition strip_zeros :: "string \<Rightarrow> string" where
  "strip_zeros s = rev (dropWhile (\<lambda>c. c = CHR ''0'') (rev s))"

fun shortest :: "nat \<times> int \<Rightarrow> nat \<times> nat \<Rightarrow> nat list \<Rightarrow> string \<times> int" where
  "shortest f v [] = (''0'', 1)"
| "shortest f v (k # ks) =
     (case candidate f v k of
        Some c \<Rightarrow> (strip_zeros (show_nat c), point_pos v + int (length (show_nat c)) - int k)
      | None \<Rightarrow> shortest f v ks)"

definition zeros :: "int \<Rightarrow> string" where
  "zeros n = replicate (nat n) (CHR ''0'')"

definition plain_text :: "string \<Rightarrow> int \<Rightarrow> string" where
  "plain_text ds p =
     (if p \<le> 0 then ''0.'' @ zeros (- p) @ ds
      else if int (length ds) \<le> p then ds @ zeros (p - int (length ds))
      else take (nat p) ds @ ''.'' @ drop (nat p) ds)"

definition exp_text :: "string \<Rightarrow> int \<Rightarrow> string" where
  "exp_text ds p =
     (let e = p - 1; m = (case ds of [] \<Rightarrow> [] | [c] \<Rightarrow> [c] | c # r \<Rightarrow> c # CHR ''.'' # r)
      in m @ (if e < 0 then ''e-'' @ show_nat (nat (- e)) else ''e+'' @ pad_nat 2 (nat e)))"

definition lit_value :: "string \<Rightarrow> nat \<times> int" where
  "lit_value s =
     (let (mant, ex) = (takeWhile (\<lambda>c. c \<noteq> CHR ''e'' \<and> c \<noteq> CHR ''E'') s,
                        dropWhile (\<lambda>c. c \<noteq> CHR ''e'' \<and> c \<noteq> CHR ''E'') s);
          ip = takeWhile is_digit mant;
          fp = drop (Suc (length ip)) mant;
          (sg, eds) = exp_sign (tl ex);
          e = int (nat_of_digits 0 eds)
      in (nat_of_digits 0 (ip @ fp), (if sg = ''-'' then - e else e) - int (length fp)))"

text \<open>\<open>strconv.ParseFloat\<close> of a literal, printed again with the fewest digits.\<close>

definition float_text :: "string \<Rightarrow> string option" where
  "float_text lit =
     (let neg = HasPrefix lit ''-'';
          (n, e) = lit_value (if neg then tl lit else lit);
          sign = (if neg then ''-'' else [])
      in if n = 0 then Some (sign @ ''0'')
         else (case round64 (scaled 10 (- e) (n, 1)) of
             None \<Rightarrow> None
           | Some (m, b) \<Rightarrow>
               if m = 0 then Some (sign @ ''0'')
               else (let v = scaled 2 (- b) (m, 1); (ds, p) = shortest (m, b) v [1..<18]
                     in Some (sign @ (if p < - 5 \<or> 21 < p then exp_text ds p else plain_text ds p)))))"

section \<open>Decoding a parsed tree\<close>

fun decode_any :: "any \<Rightarrow> any \<times> bool" where
  "decode_any (JFloat x) =
     (case x of None \<Rightarrow> (JNull, False)
      | Some lit \<Rightarrow> (case float_text lit of Some t \<Rightarrow> (JFloat (Some t), True) | None \<Rightarrow> (JNull, False)))"
| "decode_any (JArray vs) =
     (let rs = map decode_any vs in (JArray (map fst rs), list_all snd rs))"
| "decode_any (JObject m) =
     (let rs = map (\<lambda>(k, v). (k, decode_any v)) m
      in (JObject (fold (\<lambda>(k, v). AList.update k v) (map (apsnd fst) rs) []), list_all (snd \<circ> snd) rs))"
| "decode_any v = (v, True)"

definition decode_string :: "any \<Rightarrow> string \<Rightarrow> string \<times> bool" where
  "decode_string v old = (case v of JString s \<Rightarrow> (s, True) | JNull \<Rightarrow> (old, True) | _ \<Rightarrow> (old, False))"

definition parse_int64 :: "string \<Rightarrow> int option" where
  "parse_int64 lit =
     (let neg = HasPrefix lit ''-''; ds = (if neg then tl lit else lit);
          n = int (nat_of_digits 0 ds); i = (if neg then - n else n)
      in if ds \<noteq> [] \<and> list_all is_digit ds \<and> - (2 ^ 63) \<le> i \<and> i < 2 ^ 63 then Some i else None)"

definition decode_int :: "any \<Rightarrow> int \<Rightarrow> int \<times> bool" where
  "decode_int v old = (case v of
     JFloat (Some lit) \<Rightarrow> (case parse_int64 lit of Some i \<Rightarrow> (i, True) | None \<Rightarrow> (old, False))
   | JNull \<Rightarrow> (old, True)
   | _ \<Rightarrow> (old, False))"

text \<open>A \<open>map[string]any\<close> field: \<open>null\<close> makes it nil, an object is merged into the old map.\<close>

definition decode_map ::
  "any \<Rightarrow> (string, any) gomap option \<Rightarrow> (string, any) gomap option \<times> bool" where
  "decode_map v old = (case v of
     JNull \<Rightarrow> (None, True)
   | JObject m \<Rightarrow>
       (let rs = map (\<lambda>(k, v). (k, decode_any v)) m;
            base = (case old of None \<Rightarrow> [] | Some b \<Rightarrow> b)
        in (Some (fold (\<lambda>(k, v). AList.update k v) (map (apsnd fst) rs) base), list_all (snd \<circ> snd) rs))
   | _ \<Rightarrow> (old, False))"

section \<open>Values that decode to themselves\<close>

text \<open>
  Everything but integers of a Go integer type, which come back as \<open>float64\<close>, and
  strings that are not UTF-8. The order of an object's list is not observable; decoding
  lists the members by key.
\<close>

fun exact :: "any \<Rightarrow> bool" where
  "exact (JInt i) = False"
| "exact (JFloat x) = (case x of None \<Rightarrow> False | Some t \<Rightarrow> num_lit t \<and> float_text t = Some t)"
| "exact (JString s) = valid_utf8 s"
| "exact (JArray vs) = (\<forall>v \<in> set vs. exact v)"
| "exact (JObject m) = (wf_map m \<and> (\<forall>kv \<in> set m. valid_utf8 (fst kv) \<and> exact (snd kv)))"
| "exact _ = True"

fun by_key :: "any \<Rightarrow> any" where
  "by_key (JArray vs) = JArray (map by_key vs)"
| "by_key (JObject m) = JObject (sort_key fst (map (\<lambda>(k, v). (k, by_key v)) m))"
| "by_key v = v"

lemma exact_wf: "exact v \<Longrightarrow> json_wf v"
  by (induction v rule: exact.induct) (auto split: option.splits)

lemma fold_update_members:
  "wf_map m \<Longrightarrow> fold (\<lambda>(k, v). AList.update k v) m [] = m"
  using fold_update_distinct [of "[]" m] by simp

lemma wf_map_sort_key: "wf_map m \<Longrightarrow> wf_map (sort_key fst m)"
  by (rule distinct_map [THEN iffD2]) (auto simp: distinct_map)

lemma decode_members:
  assumes "wf_map m" "\<And>k v. (k, v) \<in> set m \<Longrightarrow> valid_utf8 k"
    and "\<And>k v. (k, v) \<in> set m \<Longrightarrow> decode_any (parsed v) = (by_key v, True)"
  defines "rs \<equiv> map (\<lambda>(k, v). (k, decode_any v))
                   (map (\<lambda>(k, v). (utf8_norm k, parsed v)) (sort_key fst m))"
  shows "fold (\<lambda>(k, v). AList.update k v) (map (apsnd fst) rs) []
           = sort_key fst (map (\<lambda>(k, v). (k, by_key v)) m)"
    and "list_all (snd \<circ> snd) rs"
proof -
  have rs: "rs = map (\<lambda>(k, v). (k, by_key v, True)) (sort_key fst m)"
    unfolding rs_def using assms(2,3) by (auto simp: utf8_norm_valid)
  then have "map (apsnd fst) rs = map (\<lambda>(k, v). (k, by_key v)) (sort_key fst m)"
    by auto
  moreover have "wf_map (map (\<lambda>(k, v). (k, by_key v)) (sort_key fst m))"
    using wf_map_sort_key [OF assms(1)] by (simp add: case_prod_unfold comp_def)
  ultimately show "fold (\<lambda>(k, v). AList.update k v) (map (apsnd fst) rs) []
           = sort_key fst (map (\<lambda>(k, v). (k, by_key v)) m)"
    using fold_update_members [of "map (\<lambda>(k, v). (k, by_key v)) (sort_key fst m)"]
    by (simp only: sort_key_map_snd)
  show "list_all (snd \<circ> snd) rs" by (auto simp: rs list_all_iff)
qed

lemma decode_any_parsed: "exact v \<Longrightarrow> decode_any (parsed v) = (by_key v, True)"
proof (induction v rule: exact.induct)
  case (4 vs)
  then show ?case by (auto simp: Let_def list_all_iff)
next
  case (5 m)
  have m: "decode_any (parsed v) = (by_key v, True)" if "(k, v) \<in> set m" for k v
    using 5 that by fastforce
  have "wf_map m" "\<And>k v. (k, v) \<in> set m \<Longrightarrow> valid_utf8 k" using 5(2) by auto
  then show ?case using decode_members [OF _ _ m]
    unfolding parsed_object by (simp add: Let_def)
qed (auto simp: utf8_norm_valid split: option.splits)

lemma parse_int64_show: "- (2 ^ 63) \<le> i \<Longrightarrow> i < 2 ^ 63 \<Longrightarrow> parse_int64 (show_int i) = Some i"
proof -
  assume i: "- (2 ^ 63) \<le> i" "i < 2 ^ 63"
  have d: "list_all is_digit (show_nat n)" for n using show_nat_digits by (auto simp: list_all_iff)
  have "\<not> HasPrefix (show_nat n) ''-''" for n
    using show_nat_digits [of "CHR ''-''" n] by (auto simp: HasPrefix_iff)
  then show ?thesis using i d
    by (auto simp: parse_int64_def show_int_def nat_of_digits_show HasPrefix_iff Let_def)
qed

end
