(* ===== verification/Digest.thy ===== *)
theory Digest
  imports Json "HOL-Library.Word"
begin

unbundle bit_operations_syntax

text \<open>
  SHA-256 as \<open>crypto/sha256\<close> computes it, on 32-bit words, and the hex rendering of
  \<open>src/internal/digest/hash.go\<close> and of \<open>exportContentHash\<close>. Digests are only compared
  in the program, so the facts the components use are that a digest is 64 lower-case hex
  characters and that it is a function of the bytes. That two payloads with the same
  digest are the same payload is not a theorem: where a property depends on it, a collision
  is one of its stated outcomes.
\<close>

section \<open>SHA-256\<close>

text \<open>
  The constants of the standard by their definition: the first 32 bits of the fractional
  parts of the cube roots of the first 64 primes, and of the square roots of the first 8.
\<close>

definition small_primes :: "nat list" where
  "small_primes = filter (\<lambda>n. \<forall>d \<in> set [2..<n]. n mod d \<noteq> 0) [2..<312]"

text \<open>The integer \<open>k\<close>-th root of \<open>n\<close>, bit by bit from the highest.\<close>

fun root_bits :: "nat \<Rightarrow> nat \<Rightarrow> nat \<Rightarrow> nat \<Rightarrow> nat" where
  "root_bits k n 0 r = r"
| "root_bits k n (Suc b) r = root_bits k n b (if (r + 2 ^ b) ^ k \<le> n then r + 2 ^ b else r)"

definition root_frac :: "nat \<Rightarrow> nat \<Rightarrow> 32 word" where
  "root_frac k p = of_nat (root_bits k (p * 2 ^ (32 * k)) 36 0)"

definition sha_k :: "32 word list" where
  "sha_k = map (root_frac 3) small_primes"

definition sha_init :: "32 word list" where
  "sha_init = map (root_frac 2) (take 8 small_primes)"

definition rotr :: "nat \<Rightarrow> 32 word \<Rightarrow> 32 word" where
  "rotr n w = drop_bit n w OR push_bit (32 - n) w"

definition be_bytes :: "nat \<Rightarrow> nat \<Rightarrow> nat list" where
  "be_bytes k n = map (\<lambda>i. n div 256 ^ (k - 1 - i) mod 256) [0..<k]"

definition sha_pad :: "nat list \<Rightarrow> nat list" where
  "sha_pad bs = (let l = length bs in
     bs @ 128 # replicate ((119 - l mod 64) mod 64) 0 @ be_bytes 8 (8 * l mod 2 ^ 64))"

fun be_words :: "nat list \<Rightarrow> 32 word list" where
  "be_words (a # b # c # d # bs) = of_nat (((a * 256 + b) * 256 + c) * 256 + d) # be_words bs"
| "be_words _ = []"

text \<open>The message schedule, the last sixteen words held newest first.\<close>

fun sha_schedule :: "nat \<Rightarrow> 32 word list \<Rightarrow> 32 word list" where
  "sha_schedule 0 ws = []"
| "sha_schedule (Suc n) ws =
     (let w15 = ws ! 14; w2 = ws ! 1;
          s0 = rotr 7 w15 XOR rotr 18 w15 XOR drop_bit 3 w15;
          s1 = rotr 17 w2 XOR rotr 19 w2 XOR drop_bit 10 w2;
          w = ws ! 15 + s0 + ws ! 6 + s1
      in w # sha_schedule n (take 16 (w # ws)))"

definition sha_round :: "32 word \<times> 32 word \<Rightarrow> 32 word list \<Rightarrow> 32 word list" where
  "sha_round kw st = (case (kw, st) of
     ((k, w), [a, b, c, d, e, f, g, h]) \<Rightarrow>
       (let t1 = h + (rotr 6 e XOR rotr 11 e XOR rotr 25 e) + ((e AND f) XOR (NOT e AND g)) + k + w;
            t2 = (rotr 2 a XOR rotr 13 a XOR rotr 22 a) + ((a AND b) XOR (a AND c) XOR (b AND c))
        in [t1 + t2, a, b, c, d + t1, e, f, g])
   | _ \<Rightarrow> st)"

definition sha_block :: "32 word list \<Rightarrow> 32 word list \<Rightarrow> 32 word list" where
  "sha_block st ws = map2 (+) st (fold sha_round (zip sha_k (ws @ sha_schedule 48 (rev ws))) st)"

fun sha_blocks :: "nat \<Rightarrow> 32 word list \<Rightarrow> 32 word list \<Rightarrow> 32 word list" where
  "sha_blocks 0 st ws = st"
| "sha_blocks (Suc n) st ws = sha_blocks n (sha_block st (take 16 ws)) (drop 16 ws)"

definition Sum256 :: "string \<Rightarrow> nat list" where
  "Sum256 s = (let ws = be_words (sha_pad (map byte s))
     in concat (map (\<lambda>w. be_bytes 4 (unat w)) (sha_blocks (length ws div 16) sha_init ws)))"

section \<open>Hex digests\<close>

definition EncodeToString :: "nat list \<Rightarrow> string" where
  "EncodeToString bs = concat (map (\<lambda>b. [hex_digit (b div 16), hex_digit (b mod 16)]) bs)"

definition ContentHash :: "string \<Rightarrow> string" where
  "ContentHash payload = EncodeToString (Sum256 payload)"

lemma length_sha_round [simp]: "length (sha_round kw st) = length st"
  by (auto simp: sha_round_def Let_def split: list.splits prod.splits)

lemma length_sha_fold: "length (fold sha_round kws st) = length st"
  by (induction kws arbitrary: st) auto

lemma length_sha_blocks: "length (sha_blocks n st ws) = length st"
  by (induction n st ws rule: sha_blocks.induct) (simp_all add: sha_block_def length_sha_fold)

lemma length_concat_const: "(\<And>x. length (f x) = k) \<Longrightarrow> length (concat (map f xs)) = k * length xs"
  by (induction xs) auto

lemma length_sha_init [simp]: "length sha_init = 8"
proof -
  let ?p = "\<lambda>n::nat. \<forall>d \<in> set [2..<n]. n mod d \<noteq> 0"
  have "[2..<20 + 292] = [2..<20] @ [20..<20 + (292::nat)]"
    by (rule upt_add_eq_append) simp
  moreover have "20 + 292 = (312::nat)" by simp
  ultimately have p: "small_primes = filter ?p [2..<20] @ filter ?p [20..<312]"
    unfolding small_primes_def by (simp only: filter_append)
  have "length (filter ?p [2..<20]) = 8" by code_simp
  then have "8 \<le> length small_primes" unfolding p length_append by (rule ssubst) (rule le_add1)
  then show ?thesis by (simp add: sha_init_def)
qed

lemma length_Sum256: "length (Sum256 s) = 32"
  by (simp add: Sum256_def Let_def length_concat_const [where k = 4] be_bytes_def length_sha_blocks
      del: length_concat)

lemma length_ContentHash [simp]: "length (ContentHash s) = 64"
  by (simp add: ContentHash_def EncodeToString_def length_concat_const [where k = 2] length_Sum256
      del: length_concat)

lemma Sum256_byte: "b \<in> set (Sum256 s) \<Longrightarrow> b < 256"
  by (auto simp: Sum256_def Let_def be_bytes_def)

definition is_hex :: "char \<Rightarrow> bool" where
  "is_hex c \<longleftrightarrow> c \<in> set ''0123456789abcdef''"

lemma is_hex_hex_digit: "d < 16 \<Longrightarrow> is_hex (hex_digit d)"
proof -
  have "\<forall>d \<in> set [0..<16]. is_hex (hex_digit d)" by code_simp
  then show "d < 16 \<Longrightarrow> is_hex (hex_digit d)" by simp
qed

lemma ContentHash_hex: "c \<in> set (ContentHash s) \<Longrightarrow> is_hex c"
  using Sum256_byte [of _ s]
  by (auto simp: ContentHash_def EncodeToString_def less_mult_imp_div_less intro!: is_hex_hex_digit)

end
