(* ===== verification/Go_Time.thy ===== *)
theory Go_Time
  imports Go_Strings
begin

text \<open>
  The part of Go's \<open>time\<close> package the exporters use. An instant is its number of
  nanoseconds since 1970-01-01T00:00:00Z, a duration a number of nanoseconds; calendar
  dates are proleptic Gregorian in UTC. \<open>Format\<close> is \<open>t.UTC().Format(time.RFC3339Nano)\<close>;
  \<open>Parse\<close> is \<open>time.Parse(time.RFC3339Nano, s)\<close> on RFC 3339 timestamps (the one-digit hour
  and the decimal comma that \<open>time.Parse\<close> also tolerates are rejected here).
\<close>

type_synonym time = int
type_synonym duration = int

definition Second :: duration where "Second = 1000000000"
definition Minute :: duration where "Minute = 60 * Second"

text \<open>The zero \<open>time.Time\<close>: midnight of January 1, year 1.\<close>

definition zero_time :: time where "zero_time = - 62135596800 * Second"

definition IsZero :: "time \<Rightarrow> bool" where "IsZero t \<longleftrightarrow> t = zero_time"

section \<open>Calendar\<close>

definition civil_from_days :: "int \<Rightarrow> int \<times> int \<times> int" where
  "civil_from_days days =
     (let z = days + 719468; era = z div 146097; doe = z mod 146097;
          yoe = (doe - doe div 1460 + doe div 36524 - doe div 146096) div 365;
          doy = doe - (365 * yoe + yoe div 4 - yoe div 100);
          mp = (5 * doy + 2) div 153;
          d = doy - (153 * mp + 2) div 5 + 1;
          m = (if mp < 10 then mp + 3 else mp - 9)
      in (yoe + era * 400 + (if m \<le> 2 then 1 else 0), m, d))"

definition days_from_civil :: "int \<Rightarrow> int \<Rightarrow> int \<Rightarrow> int" where
  "days_from_civil y m d =
     (let y' = (if m \<le> 2 then y - 1 else y); era = y' div 400; yoe = y' mod 400;
          doy = (153 * (if 2 < m then m - 3 else m + 9) + 2) div 5 + d - 1;
          doe = yoe * 365 + yoe div 4 - yoe div 100 + doy
      in era * 146097 + doe - 719468)"

definition leap :: "int \<Rightarrow> bool" where
  "leap y \<longleftrightarrow> y mod 4 = 0 \<and> (y mod 100 \<noteq> 0 \<or> y mod 400 = 0)"

definition days_in :: "int \<Rightarrow> int \<Rightarrow> int" where
  "days_in m y = (if m = 2 then (if leap y then 29 else 28)
     else if m \<in> {4, 6, 9, 11} then 30 else 31)"

section \<open>Formatting and parsing\<close>

definition pad_int :: "nat \<Rightarrow> int \<Rightarrow> string" where
  "pad_int w i = (if i < 0 then CHR ''-'' # pad_nat w (nat (- i)) else pad_nat w (nat i))"

definition frac_text :: "int \<Rightarrow> string" where
  "frac_text ns = (if ns = 0 then []
     else CHR ''.'' # rev (dropWhile (\<lambda>c. c = CHR ''0'') (rev (pad_int 9 ns))))"

definition Format :: "time \<Rightarrow> string" where
  "Format t =
     (let secs = t div Second; ns = t mod Second; sod = secs mod 86400;
          (y, m, d) = civil_from_days (secs div 86400)
      in pad_int 4 y @ ''-'' @ pad_int 2 m @ ''-'' @ pad_int 2 d @ ''T''
         @ pad_int 2 (sod div 3600) @ '':'' @ pad_int 2 (sod div 60 mod 60) @ '':'' @ pad_int 2 (sod mod 60)
         @ frac_text ns @ ''Z'')"

definition num_in :: "string \<Rightarrow> int \<Rightarrow> int \<Rightarrow> int option" where
  "num_in s lo hi = (let n = int (nat_of_digits 0 s) in
     if list_all is_digit s \<and> lo \<le> n \<and> n \<le> hi then Some n else None)"

text \<open>The fraction: a point and digits, read to nine places; then the zone.\<close>

definition parse_frac :: "string \<Rightarrow> int \<times> string" where
  "parse_frac s = (case s of
     c # r \<Rightarrow>
       if c = CHR ''.'' \<and> r \<noteq> [] \<and> is_digit (hd r)
       then (int (nat_of_digits 0 (take 9 (takeWhile is_digit r @ replicate 9 (CHR ''0'')))),
             dropWhile is_digit r)
       else (0, s)
   | [] \<Rightarrow> (0, s))"

definition parse_zone :: "string \<Rightarrow> int option" where
  "parse_zone s =
     (if s = ''Z'' then Some 0
      else if length s = 6 \<and> (HasPrefix s ''+'' \<or> HasPrefix s ''-'') \<and> s ! 3 = CHR '':'' then
        (case (num_in (take 2 (drop 1 s)) 0 23, num_in (drop 4 s) 0 59) of
           (Some h, Some m) \<Rightarrow> Some ((if HasPrefix s ''-'' then - 1 else 1) * (h * 3600 + m * 60))
         | _ \<Rightarrow> None)
      else None)"

definition Parse :: "string \<Rightarrow> time option" where
  "Parse s =
     (if length s < 19 \<or> s ! 4 \<noteq> CHR ''-'' \<or> s ! 7 \<noteq> CHR ''-'' \<or> s ! 10 \<noteq> CHR ''T''
         \<or> s ! 13 \<noteq> CHR '':'' \<or> s ! 16 \<noteq> CHR '':'' then None
      else (case (num_in (take 4 s) 0 9999, num_in (take 2 (drop 5 s)) 1 12) of
          (Some y, Some m) \<Rightarrow>
            (case (num_in (take 2 (drop 8 s)) 1 (days_in m y), num_in (take 2 (drop 11 s)) 0 23,
                   num_in (take 2 (drop 14 s)) 0 59, num_in (take 2 (drop 17 s)) 0 59) of
               (Some d, Some h, Some mi, Some sec) \<Rightarrow>
                 (case parse_frac (drop 19 s) of (ns, z) \<Rightarrow>
                   (case parse_zone z of
                      Some off \<Rightarrow>
                        Some ((days_from_civil y m d * 86400 + h * 3600 + mi * 60 + sec - off) * Second + ns)
                    | None \<Rightarrow> None))
             | _ \<Rightarrow> None)
        | _ \<Rightarrow> None))"

end
