(* ===== verification/Envelope.thy ===== *)
theory Envelope
  imports Store Json_Decode Digest Go_Time "HOL-Library.Multiset"
begin

text \<open>
  The versioned export document: \<open>src/internal/collect/export_envelope.go\<close>, the thin
  wrappers of \<open>src/internal/export/envelope.go\<close> and \<open>envelope_meta.go\<close>, the contract of
  \<open>contract.go\<close> and the size policy of \<open>spill.go\<close>. Encoding goes through the JSON model,
  so a payload is the exact byte string the sinks receive; decoding is the struct decoder of
  \<open>encoding/json\<close> on the same types. An error is the left side of a sum, named by the
  operation that failed. \<open>time.Now\<close> is an argument.
\<close>

section \<open>Types\<close>

type_synonym export_error = string

record ExportMetadata =
  meta_Generation :: int
  meta_Cluster :: string
  meta_ExportedAt :: time
  meta_PartIndex :: int
  meta_PartTotal :: int

text \<open>The document; \<open>None\<close> is the nil slice of items.\<close>

record ExportEnvelope =
  env_SchemaVersion :: string
  env_Checksum :: string
  env_Generation :: int
  env_PartIndex :: int
  env_PartTotal :: int
  env_ItemCount :: int
  env_ExportedAt :: string
  env_Cluster :: string
  env_Items :: "item list option"

definition ExportSchemaVersion :: string where
  "ExportSchemaVersion = ''kollect.dev/v1alpha1''"

section \<open>Encoding\<close>

definition NUL :: string where "NUL = [CHR 0x00]"

definition itemCanonicalKey :: "item \<Rightarrow> string" where
  "itemCanonicalKey it = Join NUL [item_targetNamespace it, item_targetName it, item_namespace it,
     item_name it, item_uid it, item_group it, item_version it, item_kind it]"

definition canonicalItems :: "item list \<Rightarrow> item list" where
  "canonicalItems items = sort_key itemCanonicalKey items"

definition attributes_json :: "(string, any) gomap option \<Rightarrow> any" where
  "attributes_json a = (case a of None \<Rightarrow> JNull | Some m \<Rightarrow> JObject m)"

definition omitempty :: "bool \<Rightarrow> string \<Rightarrow> string \<Rightarrow> (string \<times> string) list" where
  "omitempty is_empty k t = (if is_empty then [] else [(k, t)])"

definition item_fields :: "item \<Rightarrow> (string \<times> string) list" where
  "item_fields it =
     [(''targetNamespace'', json_string (item_targetNamespace it)),
      (''targetName'', json_string (item_targetName it)),
      (''namespace'', json_string (item_namespace it)),
      (''name'', json_string (item_name it))]
     @ omitempty (item_group it = []) ''group'' (json_string (item_group it)) @
     [(''version'', json_string (item_version it)),
      (''kind'', json_string (item_kind it)),
      (''uid'', json_string (item_uid it)),
      (''attributes'', json_text (attributes_json (item_attributes it)))]"

definition item_text :: "item \<Rightarrow> string" where
  "item_text it = json_fields (item_fields it)"

definition item_ok :: "item \<Rightarrow> bool" where
  "item_ok it \<longleftrightarrow> json_ok (attributes_json (item_attributes it))"

definition items_text :: "item list option \<Rightarrow> string" where
  "items_text its = (case its of None \<Rightarrow> ''null'' | Some l \<Rightarrow> json_array (map item_text l))"

definition items_ok :: "item list \<Rightarrow> bool" where
  "items_ok items = list_all item_ok items"

definition marshal_items :: "item list option \<Rightarrow> string option" where
  "marshal_items its = (if items_ok (case its of None \<Rightarrow> [] | Some l \<Rightarrow> l) then Some (items_text its) else None)"

definition envelope_fields :: "ExportEnvelope \<Rightarrow> (string \<times> string) list" where
  "envelope_fields env =
     [(''schemaVersion'', json_string (env_SchemaVersion env)),
      (''checksum'', json_string (env_Checksum env))]
     @ omitempty (env_Generation env = 0) ''generation'' (show_int (env_Generation env))
     @ omitempty (env_PartIndex env = 0) ''partIndex'' (show_int (env_PartIndex env))
     @ omitempty (env_PartTotal env = 0) ''partTotal'' (show_int (env_PartTotal env)) @
     [(''itemCount'', show_int (env_ItemCount env)),
      (''exportedAt'', json_string (env_ExportedAt env))]
     @ omitempty (env_Cluster env = []) ''cluster'' (json_string (env_Cluster env)) @
     [(''items'', items_text (env_Items env))]"

definition envelope_text :: "ExportEnvelope \<Rightarrow> string" where
  "envelope_text env = json_fields (envelope_fields env)"

definition exportContentHash :: "string \<Rightarrow> string" where
  "exportContentHash payload = EncodeToString (Sum256 payload)"

definition export_env :: "time \<Rightarrow> item list \<Rightarrow> ExportMetadata \<Rightarrow> ExportEnvelope" where
  "export_env now items meta =
     (let items' = canonicalItems items;
          exportedAt = (if IsZero (meta_ExportedAt meta) then now else meta_ExportedAt meta)
      in \<lparr>env_SchemaVersion = ExportSchemaVersion,
          env_Checksum = exportContentHash (items_text (Some items')),
          env_Generation = meta_Generation meta,
          env_PartIndex = meta_PartIndex meta,
          env_PartTotal = meta_PartTotal meta,
          env_ItemCount = int (length items'),
          env_ExportedAt = Format exportedAt,
          env_Cluster = meta_Cluster meta,
          env_Items = Some items'\<rparr>)"

definition MarshalExportEnvelope ::
  "time \<Rightarrow> item list \<Rightarrow> ExportMetadata \<Rightarrow> export_error + string" where
  "MarshalExportEnvelope now items meta =
     (case marshal_items (Some (canonicalItems items)) of
        None \<Rightarrow> Inl ''marshal export items''
      | Some _ \<Rightarrow> Inr (envelope_text (export_env now items meta)))"

definition ItemsFingerprint :: "item list \<Rightarrow> export_error + string" where
  "ItemsFingerprint items =
     (case marshal_items (Some (canonicalItems items)) of
        None \<Rightarrow> Inl ''marshal items for fingerprint''
      | Some itemsJSON \<Rightarrow> Inr (exportContentHash itemsJSON))"

section \<open>Decoding\<close>

definition zero_item :: item where
  "zero_item = \<lparr>item_targetNamespace = [], item_targetName = [], item_namespace = [], item_name = [],
     item_group = [], item_version = [], item_kind = [], item_uid = [], item_attributes = None\<rparr>"

definition zero_envelope :: ExportEnvelope where
  "zero_envelope = \<lparr>env_SchemaVersion = [], env_Checksum = [], env_Generation = 0, env_PartIndex = 0,
     env_PartTotal = 0, env_ItemCount = 0, env_ExportedAt = [], env_Cluster = [], env_Items = None\<rparr>"

text \<open>One member of an object into the field its key names; keys match without case.\<close>

definition set_item_field :: "string \<Rightarrow> any \<Rightarrow> item \<Rightarrow> item \<times> bool" where
  "set_item_field k v it =
     (if EqualFold k ''targetNamespace'' then
        apfst (\<lambda>x. it\<lparr>item_targetNamespace := x\<rparr>) (decode_string v (item_targetNamespace it))
      else if EqualFold k ''targetName'' then
        apfst (\<lambda>x. it\<lparr>item_targetName := x\<rparr>) (decode_string v (item_targetName it))
      else if EqualFold k ''namespace'' then
        apfst (\<lambda>x. it\<lparr>item_namespace := x\<rparr>) (decode_string v (item_namespace it))
      else if EqualFold k ''name'' then
        apfst (\<lambda>x. it\<lparr>item_name := x\<rparr>) (decode_string v (item_name it))
      else if EqualFold k ''group'' then
        apfst (\<lambda>x. it\<lparr>item_group := x\<rparr>) (decode_string v (item_group it))
      else if EqualFold k ''version'' then
        apfst (\<lambda>x. it\<lparr>item_version := x\<rparr>) (decode_string v (item_version it))
      else if EqualFold k ''kind'' then
        apfst (\<lambda>x. it\<lparr>item_kind := x\<rparr>) (decode_string v (item_kind it))
      else if EqualFold k ''uid'' then
        apfst (\<lambda>x. it\<lparr>item_uid := x\<rparr>) (decode_string v (item_uid it))
      else if EqualFold k ''attributes'' then
        apfst (\<lambda>x. it\<lparr>item_attributes := x\<rparr>) (decode_map v (item_attributes it))
      else (it, True))"

definition decode_struct ::
  "(string \<Rightarrow> any \<Rightarrow> 'r \<Rightarrow> 'r \<times> bool) \<Rightarrow> 'r \<Rightarrow> any \<Rightarrow> 'r \<times> bool" where
  "decode_struct setf zero v = (case v of
     JObject m \<Rightarrow> fold (\<lambda>(k, x) (r, ok). apsnd (\<lambda>b. ok \<and> b) (setf k x r)) m (zero, True)
   | JNull \<Rightarrow> (zero, True)
   | _ \<Rightarrow> (zero, False))"

definition decode_item :: "any \<Rightarrow> item \<times> bool" where
  "decode_item v = decode_struct set_item_field zero_item v"

definition decode_items :: "any \<Rightarrow> item list option \<Rightarrow> item list option \<times> bool" where
  "decode_items v old = (case v of
     JArray vs \<Rightarrow> (let rs = map decode_item vs in (Some (map fst rs), list_all snd rs))
   | JNull \<Rightarrow> (None, True)
   | _ \<Rightarrow> (old, False))"

definition set_env_field :: "string \<Rightarrow> any \<Rightarrow> ExportEnvelope \<Rightarrow> ExportEnvelope \<times> bool" where
  "set_env_field k v env =
     (if EqualFold k ''schemaVersion'' then
        apfst (\<lambda>x. env\<lparr>env_SchemaVersion := x\<rparr>) (decode_string v (env_SchemaVersion env))
      else if EqualFold k ''checksum'' then
        apfst (\<lambda>x. env\<lparr>env_Checksum := x\<rparr>) (decode_string v (env_Checksum env))
      else if EqualFold k ''generation'' then
        apfst (\<lambda>x. env\<lparr>env_Generation := x\<rparr>) (decode_int v (env_Generation env))
      else if EqualFold k ''partIndex'' then
        apfst (\<lambda>x. env\<lparr>env_PartIndex := x\<rparr>) (decode_int v (env_PartIndex env))
      else if EqualFold k ''partTotal'' then
        apfst (\<lambda>x. env\<lparr>env_PartTotal := x\<rparr>) (decode_int v (env_PartTotal env))
      else if EqualFold k ''itemCount'' then
        apfst (\<lambda>x. env\<lparr>env_ItemCount := x\<rparr>) (decode_int v (env_ItemCount env))
      else if EqualFold k ''exportedAt'' then
        apfst (\<lambda>x. env\<lparr>env_ExportedAt := x\<rparr>) (decode_string v (env_ExportedAt env))
      else if EqualFold k ''cluster'' then
        apfst (\<lambda>x. env\<lparr>env_Cluster := x\<rparr>) (decode_string v (env_Cluster env))
      else if EqualFold k ''items'' then
        apfst (\<lambda>x. env\<lparr>env_Items := x\<rparr>) (decode_items v (env_Items env))
      else (env, True))"

text \<open>\<open>json.Unmarshal(payload, &env)\<close>: \<open>None\<close> if the payload is not JSON at all.\<close>

definition unmarshal_envelope :: "string \<Rightarrow> (ExportEnvelope \<times> bool) option" where
  "unmarshal_envelope payload = map_option (decode_struct set_env_field zero_envelope) (json_parse payload)"

definition ItemsFromExportPayload :: "string \<Rightarrow> export_error + item list option" where
  "ItemsFromExportPayload payload =
     (if payload = [] \<or> payload = ''[]'' \<or> payload = ''null'' then Inr None
      else (case unmarshal_envelope payload of
          Some (env, ok) \<Rightarrow>
            if ok \<and> env_SchemaVersion env \<noteq> [] then
              (if env_SchemaVersion env \<noteq> ExportSchemaVersion then Inl ''unsupported schemaVersion''
               else Inr (env_Items env))
            else (case decode_items (the (json_parse payload)) None of
                (items, True) \<Rightarrow> Inr items
              | (_, False) \<Rightarrow> Inl ''decode export payload'')
        | None \<Rightarrow> Inl ''decode export payload''))"

section \<open>The export package\<close>

text \<open>\<open>export.Metadata\<close> has the fields of \<open>collect.ExportMetadata\<close> and is copied field by field.\<close>

record Metadata =
  Generation :: int
  Cluster :: string
  ExportedAt :: time
  PartIndex :: int
  PartTotal :: int

definition MarshalEnvelope :: "time \<Rightarrow> item list \<Rightarrow> Metadata \<Rightarrow> export_error + string" where
  "MarshalEnvelope now items meta = MarshalExportEnvelope now items
     \<lparr>meta_Generation = Generation meta, meta_Cluster = Cluster meta, meta_ExportedAt = ExportedAt meta,
      meta_PartIndex = PartIndex meta, meta_PartTotal = PartTotal meta\<rparr>"

definition ItemsJSONFromEnvelope :: "string \<Rightarrow> export_error + string" where
  "ItemsJSONFromEnvelope payload =
     (case ItemsFromExportPayload payload of
        Inl e \<Rightarrow> Inl e
      | Inr items \<Rightarrow> (case marshal_items items of Some t \<Rightarrow> Inr t | None \<Rightarrow> Inl ''marshal items''))"

definition GenerationFromEnvelope :: "string \<Rightarrow> int" where
  "GenerationFromEnvelope payload =
     (case unmarshal_envelope payload of Some (env, True) \<Rightarrow> env_Generation env | _ \<Rightarrow> 0)"

record EnvelopeMeta =
  em_Generation :: int
  em_Cluster :: string
  em_ItemCount :: int
  em_Checksum :: string
  em_ExportedAt :: time
  em_PartIndex :: int
  em_PartTotal :: int

definition zero_envelope_meta :: EnvelopeMeta where
  "zero_envelope_meta = \<lparr>em_Generation = 0, em_Cluster = [], em_ItemCount = 0, em_Checksum = [],
     em_ExportedAt = zero_time, em_PartIndex = 0, em_PartTotal = 0\<rparr>"

definition EnvelopeMetaFromPayload :: "string \<Rightarrow> EnvelopeMeta" where
  "EnvelopeMetaFromPayload payload =
     (case unmarshal_envelope payload of
        Some (env, True) \<Rightarrow>
          \<lparr>em_Generation = env_Generation env, em_Cluster = env_Cluster env,
           em_ItemCount = env_ItemCount env, em_Checksum = env_Checksum env,
           em_ExportedAt = (if env_ExportedAt env \<noteq> [] then
               (case Parse (env_ExportedAt env) of Some t \<Rightarrow> t | None \<Rightarrow> zero_time) else zero_time),
           em_PartIndex = env_PartIndex env, em_PartTotal = env_PartTotal env\<rparr>
      | _ \<Rightarrow> zero_envelope_meta)"

definition SchemaVersion :: string where
  "SchemaVersion = ''kollect.dev/v1alpha1''"

definition NormalizeSchemaVersion :: "string \<Rightarrow> string" where
  "NormalizeSchemaVersion v = (if v = [] then SchemaVersion else v)"

definition supportedSchemaVersions :: "string list" where
  "supportedSchemaVersions = [SchemaVersion]"

definition ValidateSchemaVersion :: "string \<Rightarrow> export_error option" where
  "ValidateSchemaVersion v =
     (if NormalizeSchemaVersion v \<in> set supportedSchemaVersions then None
      else Some ''unsupported schemaVersion'')"

definition ValidateEnvelopeSchemaVersion :: "string \<Rightarrow> export_error option" where
  "ValidateEnvelopeSchemaVersion v =
     (if NormalizeSchemaVersion v \<noteq> SchemaVersion then Some ''unsupported schemaVersion'' else None)"

record SpillAssessment =
  sa_Size :: int
  sa_Cap :: int
  sa_Warn :: bool
  sa_RequiresSpill :: bool
  sa_ExceedsCap :: bool

definition SpillWarnBytes :: int where "SpillWarnBytes = 2 ^ 20"
definition SpillMandatoryBytes :: int where "SpillMandatoryBytes = 2 ^ 20"

definition AssessSpill :: "int \<Rightarrow> int \<Rightarrow> SpillAssessment" where
  "AssessSpill sz maxBytes =
     \<lparr>sa_Size = sz, sa_Cap = maxBytes,
      sa_Warn = (SpillWarnBytes \<le> sz),
      sa_RequiresSpill = (SpillMandatoryBytes < sz),
      sa_ExceedsCap = (0 < maxBytes \<and> maxBytes < sz)\<rparr>"

definition IsObjectStoreSinkType :: "string \<Rightarrow> bool" where
  "IsObjectStoreSinkType sinkType \<longleftrightarrow> sinkType = ''s3'' \<or> sinkType = ''gcs''"

section \<open>Exports of the store\<close>

definition MarshalTargetExport ::
  "time \<Rightarrow> string \<Rightarrow> string \<Rightarrow> ExportMetadata \<Rightarrow> store \<Rightarrow> (export_error + string) \<times> store" where
  "MarshalTargetExport now ns tn meta s =
     (case SnapshotTarget ns tn s of (items, s') \<Rightarrow> (MarshalExportEnvelope now items meta, s'))"

definition MarshalNamespaceExport ::
  "time \<Rightarrow> string \<Rightarrow> ExportMetadata \<Rightarrow> store \<Rightarrow> (export_error + string) \<times> store" where
  "MarshalNamespaceExport now ns meta s =
     (case SnapshotNamespace ns s of (items, s') \<Rightarrow> (MarshalExportEnvelope now items meta, s'))"

definition MarshalNamespaceJSON :: "time \<Rightarrow> string \<Rightarrow> store \<Rightarrow> (export_error + string) \<times> store" where
  "MarshalNamespaceJSON now ns s = MarshalNamespaceExport now ns
     \<lparr>meta_Generation = 0, meta_Cluster = [], meta_ExportedAt = zero_time, meta_PartIndex = 0,
      meta_PartTotal = 0\<rparr> s"

section \<open>Canonical order\<close>

lemma set_canonicalItems [simp]: "set (canonicalItems items) = set items"
  by (simp add: canonicalItems_def)

lemma length_canonicalItems [simp]: "length (canonicalItems items) = length items"
  by (simp add: canonicalItems_def)

lemma items_ok_canonical: "items_ok (canonicalItems items) = items_ok items"
  by (simp add: items_ok_def list_all_iff)

lemma marshal_items_canonical:
  "marshal_items (Some (canonicalItems items))
     = (if items_ok items then Some (items_text (Some (canonicalItems items))) else None)"
  by (simp add: marshal_items_def items_ok_canonical)

lemma MarshalExportEnvelope_eq:
  "MarshalExportEnvelope now items meta =
     (if items_ok items then Inr (envelope_text (export_env now items meta))
      else Inl ''marshal export items'')"
  by (simp add: MarshalExportEnvelope_def marshal_items_canonical)

lemma ItemsFingerprint_eq:
  "ItemsFingerprint items =
     (if items_ok items then Inr (exportContentHash (items_text (Some (canonicalItems items))))
      else Inl ''marshal items for fingerprint'')"
  by (simp add: ItemsFingerprint_def marshal_items_canonical)

lemma canonicalItems_permuted:
  assumes "mset xs = mset ys" "distinct (map itemCanonicalKey xs)"
  shows "canonicalItems xs = canonicalItems ys"
  unfolding canonicalItems_def
  by (rule sort_key_inj_key_eq) (use assms in \<open>simp_all add: distinct_map\<close>)

section \<open>Decoding what was encoded\<close>

definition item_strings :: "item \<Rightarrow> string list" where
  "item_strings it = [item_targetNamespace it, item_targetName it, item_namespace it, item_name it,
     item_group it, item_version it, item_kind it, item_uid it]"

text \<open>Rows whose strings are UTF-8 and whose attributes are decoded as they were.\<close>

definition exact_item :: "item \<Rightarrow> bool" where
  "exact_item it \<longleftrightarrow> list_all valid_utf8 (item_strings it) \<and> exact (attributes_json (item_attributes it))
     \<and> json_depth (attributes_json (item_attributes it)) \<le> 9997"

definition item_by_key :: "item \<Rightarrow> item" where
  "item_by_key it = it\<lparr>item_attributes :=
     map_option (\<lambda>m. sort_key fst (map (\<lambda>(k, v). (k, by_key v)) m)) (item_attributes it)\<rparr>"

definition item_members :: "item \<Rightarrow> (string \<times> any) list" where
  "item_members it =
     [(''targetNamespace'', JString (item_targetNamespace it)),
      (''targetName'', JString (item_targetName it)),
      (''namespace'', JString (item_namespace it)),
      (''name'', JString (item_name it))]
     @ (if item_group it = [] then [] else [(''group'', JString (item_group it))]) @
     [(''version'', JString (item_version it)),
      (''kind'', JString (item_kind it)),
      (''uid'', JString (item_uid it)),
      (''attributes'', parsed (attributes_json (item_attributes it)))]"

lemma key_norm: "list_all (\<lambda>c. byte c < 128) k \<Longrightarrow> utf8_norm k = k"
  by (intro utf8_norm_valid ascii_valid_utf8) (auto simp: list_all_iff)

lemma member_key: "list_all (\<lambda>c. byte c < 128) k \<Longrightarrow> parses_to d t v \<Longrightarrow> member_parses d (k, t) (k, v)"
  by (simp add: member_parses_def key_norm)

lemma parses_to_exact_string: "valid_utf8 s \<Longrightarrow> parses_to d (json_string s) (JString s)"
  using parses_to_string [of d s] by (simp add: utf8_norm_valid)

lemma exact_item_ok: "exact_item it \<Longrightarrow> item_ok it"
  by (simp add: exact_item_def item_ok_def exact_wf json_wf_ok)

lemma item_parses:
  assumes "exact_item it"
  shows "parses_to 9998 (item_text it) (JObject (item_members it))"
proof -
  let ?a = "attributes_json (item_attributes it)"
  have s: "\<And>s. s \<in> set (item_strings it) \<Longrightarrow> parses_to 9997 (json_string s) (JString s)"
    using assms by (auto simp: exact_item_def list_all_iff parses_to_exact_string)
  have a: "parses_to 9997 (json_text ?a) (parsed ?a)"
    using assms by (auto simp: exact_item_def exact_wf parses_to_value)
  have "list_all2 (member_parses 9997) (item_fields it) (item_members it)"
    unfolding item_fields_def item_members_def omitempty_def
    by (intro list_all2_appendI list_all2_Cons [THEN iffD2] conjI member_key)
       (auto simp: a s item_strings_def byte_def intro!: member_key)
  then show ?thesis
    using parses_to_object [of 9997] by (simp add: item_text_def)
qed

lemma set_item_field_simps:
  "set_item_field ''targetNamespace'' (JString s) it = (it\<lparr>item_targetNamespace := s\<rparr>, True)"
  "set_item_field ''targetName'' (JString s) it = (it\<lparr>item_targetName := s\<rparr>, True)"
  "set_item_field ''namespace'' (JString s) it = (it\<lparr>item_namespace := s\<rparr>, True)"
  "set_item_field ''name'' (JString s) it = (it\<lparr>item_name := s\<rparr>, True)"
  "set_item_field ''group'' (JString s) it = (it\<lparr>item_group := s\<rparr>, True)"
  "set_item_field ''version'' (JString s) it = (it\<lparr>item_version := s\<rparr>, True)"
  "set_item_field ''kind'' (JString s) it = (it\<lparr>item_kind := s\<rparr>, True)"
  "set_item_field ''uid'' (JString s) it = (it\<lparr>item_uid := s\<rparr>, True)"
  "set_item_field ''attributes'' v it =
     apfst (\<lambda>x. it\<lparr>item_attributes := x\<rparr>) (decode_map v (item_attributes it))"
  by (simp_all add: set_item_field_def EqualFold_def ToLower_def lower_char_def decode_string_def)

lemma decode_map_attributes:
  assumes "exact (attributes_json a)"
  shows "decode_map (parsed (attributes_json a)) None
           = (map_option (\<lambda>m. sort_key fst (map (\<lambda>(k, v). (k, by_key v)) m)) a, True)"
proof (cases a)
  case None
  then show ?thesis by (simp add: decode_map_def attributes_json_def)
next
  case (Some m)
  have "wf_map m" "\<And>k v. (k, v) \<in> set m \<Longrightarrow> valid_utf8 k"
    and "\<And>k v. (k, v) \<in> set m \<Longrightarrow> decode_any (parsed v) = (by_key v, True)"
    using assms Some by (auto simp: attributes_json_def intro!: decode_any_parsed)
  then show ?thesis using decode_members [of m] Some
    unfolding attributes_json_def decode_map_def
    by (simp only: parsed_object option.case any.case Let_def option.map)
qed

lemma decode_item_members:
  assumes "exact_item it"
  shows "decode_item (JObject (item_members it)) = (item_by_key it, True)"
proof -
  have "exact (attributes_json (item_attributes it))" using assms by (simp add: exact_item_def)
  then show ?thesis
    unfolding decode_item_def decode_struct_def item_members_def
    by (auto simp: set_item_field_simps zero_item_def decode_map_attributes item_by_key_def)
qed

text \<open>The members of an encoded envelope, and the envelope they decode to.\<close>

definition opt_num :: "string \<Rightarrow> int \<Rightarrow> (string \<times> any) list" where
  "opt_num k i = (if i = 0 then [] else [(k, JFloat (Some (show_int i)))])"

definition envelope_members :: "ExportEnvelope \<Rightarrow> item list \<Rightarrow> (string \<times> any) list" where
  "envelope_members env items =
     [(''schemaVersion'', JString (env_SchemaVersion env)), (''checksum'', JString (env_Checksum env))]
     @ opt_num ''generation'' (env_Generation env) @ opt_num ''partIndex'' (env_PartIndex env)
     @ opt_num ''partTotal'' (env_PartTotal env) @
     [(''itemCount'', JFloat (Some (show_int (env_ItemCount env)))),
      (''exportedAt'', JString (env_ExportedAt env))]
     @ (if env_Cluster env = [] then [] else [(''cluster'', JString (env_Cluster env))]) @
     [(''items'', JArray (map (\<lambda>it. JObject (item_members it)) items))]"

definition int64 :: "int \<Rightarrow> bool" where
  "int64 i \<longleftrightarrow> - (2 ^ 63) \<le> i \<and> i < 2 ^ 63"

definition exact_envelope :: "ExportEnvelope \<Rightarrow> bool" where
  "exact_envelope env \<longleftrightarrow>
     list_all valid_utf8 [env_SchemaVersion env, env_Checksum env, env_ExportedAt env, env_Cluster env]
     \<and> list_all int64 [env_Generation env, env_PartIndex env, env_PartTotal env, env_ItemCount env]
     \<and> (case env_Items env of None \<Rightarrow> False | Some items \<Rightarrow> list_all exact_item items)"

lemma items_parse:
  assumes "list_all exact_item items"
  shows "parses_to 9999 (items_text (Some items)) (JArray (map (\<lambda>it. JObject (item_members it)) items))"
proof -
  have "list_all2 (parses_to 9998) (map item_text items) (map (\<lambda>it. JObject (item_members it)) items)"
    using assms by (auto simp: list_all2_map1 list_all2_map2 list_all2_same list_all_iff item_parses)
  then show ?thesis using parses_to_array [of 9998] by (simp add: items_text_def)
qed

lemma envelope_parses:
  assumes "exact_envelope env" "env_Items env = Some items"
  shows "json_parse (envelope_text env) = Some (JObject (envelope_members env items))"
proof -
  have "\<And>s. s \<in> {env_SchemaVersion env, env_Checksum env, env_ExportedAt env, env_Cluster env} \<Longrightarrow>
            parses_to 9999 (json_string s) (JString s)"
    using assms(1) by (auto simp: exact_envelope_def parses_to_exact_string)
  moreover have "\<And>i. parses_to 9999 (show_int i) (JFloat (Some (show_int i)))"
    by (rule parses_to_num) (rule num_lit_show_int)
  moreover have "parses_to 9999 (items_text (Some items)) (JArray (map (\<lambda>it. JObject (item_members it)) items))"
    using assms by (intro items_parse) (simp add: exact_envelope_def)
  ultimately have "list_all2 (member_parses 9999) (envelope_fields env) (envelope_members env items)"
    unfolding envelope_fields_def envelope_members_def omitempty_def opt_num_def assms(2)
    by (intro list_all2_appendI list_all2_Cons [THEN iffD2] conjI member_key)
       (auto simp: byte_def intro!: member_key)
  then show ?thesis
    using parses_to_object [of 9999] by (auto simp: envelope_text_def intro!: parses_to_document)
qed

lemma set_env_field_simps:
  "set_env_field ''schemaVersion'' (JString s) env = (env\<lparr>env_SchemaVersion := s\<rparr>, True)"
  "set_env_field ''checksum'' (JString s) env = (env\<lparr>env_Checksum := s\<rparr>, True)"
  "set_env_field ''exportedAt'' (JString s) env = (env\<lparr>env_ExportedAt := s\<rparr>, True)"
  "set_env_field ''cluster'' (JString s) env = (env\<lparr>env_Cluster := s\<rparr>, True)"
  "set_env_field ''items'' v env = apfst (\<lambda>x. env\<lparr>env_Items := x\<rparr>) (decode_items v (env_Items env))"
  by (simp_all add: set_env_field_def EqualFold_def ToLower_def lower_char_def decode_string_def)

lemma set_env_num_simps:
  assumes "int64 i"
  shows "set_env_field ''generation'' (JFloat (Some (show_int i))) env = (env\<lparr>env_Generation := i\<rparr>, True)"
    "set_env_field ''partIndex'' (JFloat (Some (show_int i))) env = (env\<lparr>env_PartIndex := i\<rparr>, True)"
    "set_env_field ''partTotal'' (JFloat (Some (show_int i))) env = (env\<lparr>env_PartTotal := i\<rparr>, True)"
    "set_env_field ''itemCount'' (JFloat (Some (show_int i))) env = (env\<lparr>env_ItemCount := i\<rparr>, True)"
  using parse_int64_show [of i] assms
  by (simp_all add: set_env_field_def EqualFold_def ToLower_def lower_char_def decode_int_def int64_def)

lemma decode_items_members:
  "list_all exact_item items \<Longrightarrow>
   decode_items (JArray (map (\<lambda>it. JObject (item_members it)) items)) old = (Some (map item_by_key items), True)"
  by (auto simp: decode_items_def Let_def list_all_iff decode_item_members)

lemma unmarshal_envelope_text:
  assumes "exact_envelope env" "env_Items env = Some items"
  shows "unmarshal_envelope (envelope_text env) = Some (env\<lparr>env_Items := Some (map item_by_key items)\<rparr>, True)"
proof -
  have i: "list_all exact_item items"
      "int64 (env_Generation env)" "int64 (env_PartIndex env)" "int64 (env_PartTotal env)" "int64 (env_ItemCount env)"
    using assms by (simp_all add: exact_envelope_def)
  show ?thesis
    unfolding unmarshal_envelope_def envelope_parses [OF assms] decode_struct_def envelope_members_def opt_num_def
    by (auto simp: set_env_field_simps set_env_num_simps i decode_items_members zero_envelope_def
          intro!: ExportEnvelope.equality)
qed

section \<open>The document written for a list of rows\<close>

definition ascii :: "string \<Rightarrow> bool" where
  "ascii s = list_all (\<lambda>c. byte c < 128) s"

lemma ascii_append [simp]: "ascii (s @ t) \<longleftrightarrow> ascii s \<and> ascii t"
  by (simp add: ascii_def)

lemma ascii_Cons [simp]: "ascii (c # t) \<longleftrightarrow> byte c < 128 \<and> ascii t"
  by (simp add: ascii_def)

lemma ascii_Nil [simp]: "ascii []"
  by (simp add: ascii_def)

lemma is_digit_ascii: "is_digit c \<Longrightarrow> byte c < 128"
  by (simp add: is_digit_def less_eq_char_def byte_def)

lemma ascii_pad_int [simp]: "ascii (pad_int w i)"
  using pad_nat_digits by (auto simp: pad_int_def ascii_def list_all_iff byte_def [of "CHR ''-''"]
    intro!: is_digit_ascii)

lemma ascii_frac_text [simp]: "ascii (frac_text ns)"
proof -
  have "ascii (rev (dropWhile P (rev s)))" if "ascii s" for P s
    using that by (auto simp: ascii_def list_all_iff dest!: set_dropWhileD)
  then show ?thesis by (simp add: frac_text_def byte_def)
qed

lemma ascii_Format: "ascii (Format t)"
  by (simp add: Format_def Let_def byte_def split: prod.split)

lemma valid_utf8_Format: "valid_utf8 (Format t)"
  using ascii_Format [of t] by (intro ascii_valid_utf8) (simp add: ascii_def list_all_iff)

lemma is_hex_ascii: "is_hex c \<Longrightarrow> byte c < 128"
  by (auto simp: is_hex_def byte_def)

lemma exportContentHash_eq: "exportContentHash s = ContentHash s"
  by (simp add: exportContentHash_def ContentHash_def)

lemma valid_utf8_hash: "valid_utf8 (exportContentHash s)"
  by (rule ascii_valid_utf8) (auto simp: exportContentHash_eq dest!: ContentHash_hex intro: is_hex_ascii)

lemma valid_utf8_schema: "valid_utf8 ExportSchemaVersion"
  by (rule ascii_valid_utf8) (auto simp: ExportSchemaVersion_def byte_def)

definition exact_meta :: "ExportMetadata \<Rightarrow> bool" where
  "exact_meta meta \<longleftrightarrow> valid_utf8 (meta_Cluster meta) \<and> int64 (meta_Generation meta)
     \<and> int64 (meta_PartIndex meta) \<and> int64 (meta_PartTotal meta)"

lemma export_env_simps [simp]:
  "env_SchemaVersion (export_env now items meta) = ExportSchemaVersion"
  "env_Checksum (export_env now items meta) = exportContentHash (items_text (Some (canonicalItems items)))"
  "env_Generation (export_env now items meta) = meta_Generation meta"
  "env_PartIndex (export_env now items meta) = meta_PartIndex meta"
  "env_PartTotal (export_env now items meta) = meta_PartTotal meta"
  "env_ItemCount (export_env now items meta) = int (length items)"
  "env_Cluster (export_env now items meta) = meta_Cluster meta"
  "env_Items (export_env now items meta) = Some (canonicalItems items)"
  by (simp_all add: export_env_def Let_def)

lemma valid_utf8_exportedAt: "valid_utf8 (env_ExportedAt (export_env now items meta))"
  by (simp add: export_env_def Let_def valid_utf8_Format)

lemma exact_export_env:
  assumes "list_all exact_item items" "exact_meta meta" "int64 (int (length items))"
  shows "exact_envelope (export_env now items meta)"
  using assms
  by (simp add: exact_envelope_def exact_meta_def list_all_iff valid_utf8_exportedAt
      valid_utf8_hash valid_utf8_schema)

lemma items_ok_exact: "list_all exact_item items \<Longrightarrow> items_ok items"
  by (auto simp: items_ok_def list_all_iff exact_item_ok)

lemma unmarshal_export:
  assumes "list_all exact_item items" "exact_meta meta" "int64 (int (length items))"
  shows "unmarshal_envelope (envelope_text (export_env now items meta))
       = Some ((export_env now items meta)\<lparr>env_Items := Some (map item_by_key (canonicalItems items))\<rparr>, True)"
  by (rule unmarshal_envelope_text) (use exact_export_env [OF assms] in simp_all)

lemma envelope_text_head: "\<exists>s. envelope_text env = CHR ''{'' # s"
  by (simp add: envelope_text_def json_fields_def)

text \<open>What the readers of a payload see, for the document of given rows.\<close>

lemma export_decodes:
  fixes now :: time
  assumes "list_all exact_item items" "exact_meta meta" "int64 (int (length items))"
  defines "payload \<equiv> envelope_text (export_env now items meta)"
  shows "ItemsFromExportPayload payload = Inr (Some (map item_by_key (canonicalItems items)))"
    and "ItemsFingerprint items = Inr (em_Checksum (EnvelopeMetaFromPayload payload))"
    and "em_ItemCount (EnvelopeMetaFromPayload payload) = int (length items)"
    and "em_Generation (EnvelopeMetaFromPayload payload) = meta_Generation meta"
    and "GenerationFromEnvelope payload = meta_Generation meta"
    and "em_Cluster (EnvelopeMetaFromPayload payload) = meta_Cluster meta"
    and "em_PartIndex (EnvelopeMetaFromPayload payload) = meta_PartIndex meta"
    and "em_PartTotal (EnvelopeMetaFromPayload payload) = meta_PartTotal meta"
proof -
  have "payload \<notin> {[], ''[]'', ''null''}"
    using envelope_text_head [of "export_env now items meta"] by (auto simp: payload_def)
  then show "ItemsFromExportPayload payload = Inr (Some (map item_by_key (canonicalItems items)))"
    using unmarshal_export [OF assms(1-3), of now] unfolding payload_def
    by (simp add: ItemsFromExportPayload_def ExportSchemaVersion_def)
qed (use unmarshal_export [OF assms(1-3), of now] items_ok_exact [OF assms(1)] in
      \<open>simp_all add: payload_def EnvelopeMetaFromPayload_def GenerationFromEnvelope_def ItemsFingerprint_eq\<close>)


definition example_row :: "string \<Rightarrow> item" where
  "example_row uid = (example_item ''team'' uid)\<lparr>item_attributes :=
     Some [(''ready'', JBool True), (''image'', JString ''nginx''), (''labels'', JObject [(''app'', JNull)])]\<rparr>"

definition example_meta :: ExportMetadata where
  "example_meta = \<lparr>meta_Generation = 7, meta_Cluster = ''prod'', meta_ExportedAt = zero_time,
     meta_PartIndex = 0, meta_PartTotal = 0\<rparr>"

lemma exact_example_row: "valid_utf8 uid \<Longrightarrow> exact_item (example_row uid)"
  by (simp add: exact_item_def example_row_def example_item_def item_strings_def attributes_json_def byte_def)

lemma exact_example_meta: "exact_meta example_meta"
  by (simp add: exact_meta_def example_meta_def int64_def byte_def)


section \<open>Fingerprints\<close>

lemma json_text_by_key: "json_text (by_key v) = json_text v"
proof (induction v rule: by_key.induct)
  case (1 vs)
  then show ?case by (simp cong: map_cong)
next
  case (2 m)
  have "map (\<lambda>(k, v). (k, json_text v)) (map (\<lambda>(k, v). (k, by_key v)) (sort_key fst m))
      = map (\<lambda>(k, v). (k, json_text v)) (sort_key fst m)"
    using 2 by (auto simp: )
  moreover have "sort_key fst (map (\<lambda>(k, v). (k, by_key v)) (sort_key fst m))
      = map (\<lambda>(k, v). (k, by_key v)) (sort_key fst m)"
    by (simp add: sort_key_map_snd sort_key_id_if_sorted)
  ultimately show ?case
    by (simp only: by_key.simps json_text_object sort_key_map_snd)
qed auto

lemma item_text_by_key: "item_text (item_by_key it) = item_text it"
proof -
  have "json_text (attributes_json (item_attributes (item_by_key it)))
      = json_text (by_key (attributes_json (item_attributes it)))"
    by (cases "item_attributes it") (simp_all add: attributes_json_def item_by_key_def)
  then show ?thesis
    by (simp add: item_text_def item_fields_def json_text_by_key item_by_key_def)
qed

lemma json_ok_by_key: "json_ok (by_key v) = json_ok v"
  by (induction v rule: by_key.induct) auto

lemma item_ok_by_key [simp]: "item_ok (item_by_key it) = item_ok it"
proof -
  have "attributes_json (item_attributes (item_by_key it)) = by_key (attributes_json (item_attributes it))"
    by (cases "item_attributes it") (simp_all add: attributes_json_def item_by_key_def)
  then show ?thesis by (simp add: item_ok_def json_ok_by_key)
qed

lemma itemCanonicalKey_by_key: "itemCanonicalKey (item_by_key it) = itemCanonicalKey it"
  by (simp add: itemCanonicalKey_def item_by_key_def)

lemma insort_key_map: "(\<And>x. g (f x) = g x) \<Longrightarrow> insort_key g (f x) (map f xs) = map f (insort_key g x xs)"
  by (induction xs) auto

lemma sort_key_map_inv: "(\<And>x. g (f x) = g x) \<Longrightarrow> sort_key g (map f xs) = map f (sort_key g xs)"
  by (induction xs) (simp_all add: insort_key_map)

lemma canonicalItems_idem: "canonicalItems (canonicalItems items) = canonicalItems items"
  unfolding canonicalItems_def by (rule sort_key_id_if_sorted) simp

lemma ItemsFingerprint_by_key:
  "ItemsFingerprint (map item_by_key (canonicalItems items)) = ItemsFingerprint items"
proof -
  have "canonicalItems (map item_by_key zs) = map item_by_key (canonicalItems zs)" for zs
    by (simp add: canonicalItems_def sort_key_map_inv itemCanonicalKey_by_key)
  then have "items_text (Some (canonicalItems (map item_by_key (canonicalItems items))))
      = items_text (Some (canonicalItems items))"
    by (simp add: canonicalItems_idem items_text_def comp_def item_text_by_key)
  moreover have "items_ok (map item_by_key (canonicalItems items)) = items_ok items"
    by (simp add: items_ok_def list_all_iff)
  ultimately show ?thesis by (simp add: ItemsFingerprint_eq)
qed

lemma items_text_eq_iff:
  assumes "list_all exact_item xs" "list_all exact_item ys"
  shows "items_text (Some xs) = items_text (Some ys) \<longleftrightarrow> map item_by_key xs = map item_by_key ys"
proof
  assume "items_text (Some xs) = items_text (Some ys)"
  then have "parses_to 9999 (items_text (Some ys)) (JArray (map (\<lambda>it. JObject (item_members it)) xs))"
    using items_parse [OF assms(1)] by simp
  moreover have "parses_to 9999 (items_text (Some ys)) (JArray (map (\<lambda>it. JObject (item_members it)) ys))"
    by (rule items_parse [OF assms(2)])
  ultimately have "map (\<lambda>it. JObject (item_members it)) xs = map (\<lambda>it. JObject (item_members it)) ys"
    by (auto simp: parses_to_def ends_value_def dest!: spec [of _ "length (items_text (Some ys))"] spec [of _ "[]"])
  then show "map item_by_key xs = map item_by_key ys"
    using decode_items_members [OF assms(1), of None] decode_items_members [OF assms(2), of None] by simp
next
  have "items_text (Some (map item_by_key zs)) = items_text (Some zs)" for zs
    by (simp add: items_text_def comp_def item_text_by_key)
  then show "map item_by_key xs = map item_by_key ys \<Longrightarrow> items_text (Some xs) = items_text (Some ys)"
    by metis
qed

lemma canonical_eq_iff_mset:
  assumes "distinct (map itemCanonicalKey xs)"
  shows "map item_by_key (canonicalItems xs) = map item_by_key (canonicalItems ys)
     \<longleftrightarrow> mset (map item_by_key xs) = mset (map item_by_key ys)"
proof
  assume "map item_by_key (canonicalItems xs) = map item_by_key (canonicalItems ys)"
  then have "mset (map item_by_key (canonicalItems xs)) = mset (map item_by_key (canonicalItems ys))" by simp
  then show "mset (map item_by_key xs) = mset (map item_by_key ys)" by (simp add: canonicalItems_def)
next
  assume "mset (map item_by_key xs) = mset (map item_by_key ys)"
  moreover have "distinct (map itemCanonicalKey (map item_by_key xs))"
    using assms by (simp add: comp_def itemCanonicalKey_by_key)
  ultimately have "canonicalItems (map item_by_key xs) = canonicalItems (map item_by_key ys)"
    by (rule canonicalItems_permuted)
  then show "map item_by_key (canonicalItems xs) = map item_by_key (canonicalItems ys)"
    by (simp add: canonicalItems_def sort_key_map_inv itemCanonicalKey_by_key)
qed



end
