(* ===== verification/Go_Paths.thy ===== *)
theory Go_Paths
  imports Go_Strings
begin

text \<open>
  Go's \<open>path\<close> package on slash-separated paths: \<open>Clean\<close>, \<open>Join\<close>, \<open>Split\<close>, \<open>Dir\<close> and
  \<open>Base\<close>. \<open>Clean\<close> keeps a stack of path elements, newest first; an element \<open>..\<close> removes the
  last one unless there is none to remove.
\<close>

definition dots :: "string \<Rightarrow> bool" where
  "dots s \<longleftrightarrow> s = [] \<or> s = ''.'' \<or> s = ''..''"

fun clean_elems :: "bool \<Rightarrow> string list \<Rightarrow> string list \<Rightarrow> string list" where
  "clean_elems rooted stack [] = stack"
| "clean_elems rooted stack (e # es) =
     clean_elems rooted
       (if e = [] \<or> e = ''.'' then stack
        else if e = ''..'' then
          (case stack of
             [] \<Rightarrow> if rooted then [] else [''..'']
           | t # below \<Rightarrow> if t = ''..'' then ''..'' # stack else below)
        else e # stack) es"

definition Clean :: "string \<Rightarrow> string" where
  "Clean p =
     (let rooted = HasPrefix p ''/''; es = rev (clean_elems rooted [] (Split (CHR ''/'') p))
      in if rooted then ''/'' @ Join ''/'' es
         else if es = [] then ''.'' else Join ''/'' es)"

definition path_Join :: "string list \<Rightarrow> string" where
  "path_Join elems = (case filter (\<lambda>e. e \<noteq> []) elems of [] \<Rightarrow> [] | es \<Rightarrow> Clean (Join ''/'' es))"

text \<open>\<open>path.Split\<close>: the directory with its final slash, and the file name.\<close>

definition path_Split :: "string \<Rightarrow> string \<times> string" where
  "path_Split p = (case LastIndexByte p (CHR ''/'') of
     None \<Rightarrow> ([], p) | Some i \<Rightarrow> (take (Suc i) p, drop (Suc i) p))"

definition Base :: "string \<Rightarrow> string" where
  "Base p = (if p = [] then ''.''
     else (let q = rev (dropWhile (\<lambda>c. c = CHR ''/'') (rev p)); f = snd (path_Split q)
           in if f = [] then ''/'' else f))"

definition Dir :: "string \<Rightarrow> string" where
  "Dir p = Clean (fst (path_Split p))"

lemma clean_elems_append:
  "clean_elems r st (xs @ ys) = clean_elems r (clean_elems r st xs) ys"
  by (induction r st xs rule: clean_elems.induct) simp_all

text \<open>No element of a cleaned path is empty or a dot; dot-dots are at the front, if anywhere.\<close>

lemma clean_elems_plain:
  "list_all (\<lambda>e. e \<noteq> [] \<and> e \<noteq> ''.'') st \<Longrightarrow>
   list_all (\<lambda>e. e \<noteq> [] \<and> e \<noteq> ''.'') (clean_elems r st es)"
  by (induction r st es rule: clean_elems.induct) (auto split: list.splits)

lemma clean_elems_rooted:
  "''..'' \<notin> set st \<Longrightarrow> ''..'' \<notin> set (clean_elems True st es)"
  by (induction True st es rule: clean_elems.induct) (auto split: list.splits)

lemma clean_elems_good: "list_all (\<lambda>e. \<not> dots e) es \<Longrightarrow> clean_elems r st es = rev es @ st"
  by (induction r st es rule: clean_elems.induct) (auto simp: dots_def)

lemma Split_append_last:
  "Split c (p @ c # q) = Split c p @ Split c q"
  by (induction c p rule: Split.induct) (auto simp: neq_Nil_conv split: list.splits)

lemma set_clean_elems: "set (clean_elems r st es) \<subseteq> insert ''..'' (set st \<union> set es)"
proof (induction r st es rule: clean_elems.induct)
  case (2 rooted stack e es)
  then show ?case by (cases stack) (auto split: if_splits)
qed auto

lemma Split_Clean_append:
  assumes "CHR ''/'' \<notin> set x" "\<not> dots x" "d \<noteq> []"
  shows "\<exists>es. list_all (\<lambda>e. CHR ''/'' \<notin> set e) es \<and>
           Clean (d @ ''/'' @ x) = (if HasPrefix d ''/'' then ''/'' else []) @ Join ''/'' (es @ [x])"
proof -
  let ?r = "HasPrefix d ''/''" and ?es = "clean_elems (HasPrefix d ''/'') [] (Split (CHR ''/'') d)"
  have r: "HasPrefix (d @ ''/'' @ x) ''/'' = ?r" using assms(3) by (cases d) (auto simp: HasPrefix_iff)
  have "clean_elems ?r [] (Split (CHR ''/'') (d @ CHR ''/'' # x)) = x # ?es"
    using assms by (simp add: Split_append_last clean_elems_append Split_single dots_def)
  moreover have "\<forall>e \<in> set ?es. CHR ''/'' \<notin> set e"
    using set_clean_elems [of ?r "[]" "Split (CHR ''/'') d"] Split_no_sep [of _ "CHR ''/''" d] by auto
  ultimately show ?thesis using r
    by (intro exI [of _ "rev ?es"]) (auto simp: Clean_def Let_def list_all_iff)
qed

lemma Split_Join_snoc:
  assumes "CHR ''/'' \<notin> set x" "list_all (\<lambda>e. CHR ''/'' \<notin> set e) es"
  shows "Split (CHR ''/'') (Join ''/'' (es @ [x])) = es @ [x]"
proof (rule Split_Join)
  show "CHR ''/'' \<notin> set p" if "p \<in> set (es @ [x])" for p
    using that assms unfolding list_all_iff by auto
qed simp

lemma Join_last_inj:
  assumes "CHR ''/'' \<notin> set x" "CHR ''/'' \<notin> set y"
    "list_all (\<lambda>e. CHR ''/'' \<notin> set e) es" "list_all (\<lambda>e. CHR ''/'' \<notin> set e) fs"
    "Join ''/'' (es @ [x]) = Join ''/'' (fs @ [y])"
  shows "x = y"
proof -
  have "es @ [x] = fs @ [y]"
    using arg_cong [OF assms(5), of "Split (CHR ''/'')"]
    unfolding Split_Join_snoc [OF assms(1,3)] Split_Join_snoc [OF assms(2,4)] .
  then show ?thesis by simp
qed

text \<open>Joining a directory with two different file names gives two different paths.\<close>

lemma path_Join_inj:
  assumes "CHR ''/'' \<notin> set x" "CHR ''/'' \<notin> set y" "\<not> dots x" "\<not> dots y"
    and eq: "path_Join [d, x] = path_Join [d, y]"
  shows "x = y"
proof (cases "d = []")
  case True
  have "Clean z = z" if "CHR ''/'' \<notin> set z" "\<not> dots z" for z
  proof -
    have "\<not> HasPrefix z ''/''" using that(1) by (auto simp: HasPrefix_iff)
    then show ?thesis using that by (simp add: Clean_def Split_single dots_def)
  qed
  then show ?thesis using assms True by (auto simp: path_Join_def dots_def)
next
  case False
  have "path_Join [d, z] = Clean (d @ ''/'' @ z)" if "\<not> dots z" for z
    using that False by (auto simp: path_Join_def dots_def)
  then have "Clean (d @ ''/'' @ x) = Clean (d @ ''/'' @ y)" using assms by simp
  moreover obtain es where "list_all (\<lambda>e. CHR ''/'' \<notin> set e) es"
      "Clean (d @ ''/'' @ x) = (if HasPrefix d ''/'' then ''/'' else []) @ Join ''/'' (es @ [x])"
    using Split_Clean_append [OF assms(1,3) False] by blast
  moreover obtain fs where "list_all (\<lambda>e. CHR ''/'' \<notin> set e) fs"
      "Clean (d @ ''/'' @ y) = (if HasPrefix d ''/'' then ''/'' else []) @ Join ''/'' (fs @ [y])"
    using Split_Clean_append [OF assms(2,4) False] by blast
  ultimately show ?thesis
    using Join_last_inj [OF assms(1,2), of es fs] by (simp only: append_same_eq same_append_eq)
qed

end
