(* ===== verification/Partition.thy ===== *)
theory Partition
  imports Envelope Go_Paths
begin

text \<open>
  Bounded multipart exports, \<open>src/internal/export/partition.go\<close>: rows in a stable order are
  packed greedily into envelopes of at most \<open>maxBytes\<close> bytes; every part of a genuinely
  multipart set carries its index and the total. The clock \<open>time.Now\<close>, which is read only
  when the metadata has no export time, is a function of the call's arguments, so two calls may
  read different instants.
\<close>

section \<open>Operations\<close>

record EnvelopePartition =
  ep_Index :: nat
  ep_Total :: nat
  ep_ItemCount :: nat
  ep_Checksum :: string
  ep_Envelope :: string

type_synonym clock = "item list \<Rightarrow> Metadata \<Rightarrow> time"

definition stableItems :: "item list \<Rightarrow> export_error + item list" where
  "stableItems items =
     (if items_ok items then Inr (sort_key item_text items) else Inl ''marshal item sort key'')"

definition marshal_at :: "clock \<Rightarrow> item list \<Rightarrow> Metadata \<Rightarrow> export_error + string" where
  "marshal_at clk items meta = MarshalEnvelope (clk items meta) items meta"

definition single_too_big :: export_error where
  "single_too_big = ''single item export envelope exceeds maxExportBytes''"

text \<open>The packing loop: the open group, the closed groups, the rows still to place.\<close>

fun partition_loop ::
  "clock \<Rightarrow> Metadata \<Rightarrow> int \<Rightarrow> item list \<Rightarrow> item list list \<Rightarrow> item list \<Rightarrow> export_error + item list list" where
  "partition_loop clk mm maxBytes cur groups [] = Inr (if cur \<noteq> [] then groups @ [cur] else groups)"
| "partition_loop clk mm maxBytes cur groups (it # rest) =
     (case marshal_at clk (cur @ [it]) mm of
        Inl e \<Rightarrow> Inl e
      | Inr payload \<Rightarrow>
          if int (length payload) \<le> maxBytes then partition_loop clk mm maxBytes (cur @ [it]) groups rest
          else if cur = [] then Inl single_too_big
          else (case marshal_at clk [it] mm of
              Inl e \<Rightarrow> Inl e
            | Inr single \<Rightarrow>
                if maxBytes < int (length single) then Inl single_too_big
                else partition_loop clk mm maxBytes [it] (groups @ [cur]) rest))"

definition measure_meta :: "Metadata \<Rightarrow> nat \<Rightarrow> Metadata" where
  "measure_meta meta n = meta\<lparr>PartIndex := int n, PartTotal := int n\<rparr>"

definition partitionItemGroups ::
  "clock \<Rightarrow> item list \<Rightarrow> Metadata \<Rightarrow> int \<Rightarrow> export_error + item list list" where
  "partitionItemGroups clk sitems meta maxBytes =
     (case marshal_at clk sitems meta of
        Inl e \<Rightarrow> Inl e
      | Inr full \<Rightarrow>
          if maxBytes \<le> 0 \<or> int (length full) \<le> maxBytes then Inr [sitems]
          else if sitems = [] then Inr [[]]
          else partition_loop clk (measure_meta meta (length sitems)) maxBytes [] [] sitems)"

definition part_meta :: "Metadata \<Rightarrow> nat \<Rightarrow> nat \<Rightarrow> Metadata" where
  "part_meta meta tot i =
     (if 1 < tot then meta\<lparr>PartIndex := int (i + 1), PartTotal := int tot\<rparr> else meta)"

fun emit_parts ::
  "clock \<Rightarrow> Metadata \<Rightarrow> nat \<Rightarrow> nat \<Rightarrow> item list list \<Rightarrow> export_error + EnvelopePartition list" where
  "emit_parts clk meta tot i [] = Inr []"
| "emit_parts clk meta tot i (g # groups) =
     (case marshal_at clk g (part_meta meta tot i) of
        Inl e \<Rightarrow> Inl e
      | Inr payload \<Rightarrow>
          (case emit_parts clk meta tot (Suc i) groups of
             Inl e \<Rightarrow> Inl e
           | Inr parts \<Rightarrow>
               Inr (\<lparr>ep_Index = i + 1, ep_Total = tot, ep_ItemCount = length g,
                     ep_Checksum = em_Checksum (EnvelopeMetaFromPayload payload),
                     ep_Envelope = payload\<rparr> # parts)))"

definition PartitionEnvelopes ::
  "clock \<Rightarrow> item list \<Rightarrow> Metadata \<Rightarrow> int \<Rightarrow> export_error + EnvelopePartition list" where
  "PartitionEnvelopes clk items meta maxBytes =
     (case stableItems items of
        Inl e \<Rightarrow> Inl e
      | Inr sitems \<Rightarrow>
          (case partitionItemGroups clk sitems meta maxBytes of
             Inl e \<Rightarrow> Inl e
           | Inr groups \<Rightarrow> emit_parts clk meta (length groups) 0 groups))"

definition PartitionsChecksum :: "EnvelopePartition list \<Rightarrow> string" where
  "PartitionsChecksum parts =
     EncodeToString (Sum256 (concat (map (\<lambda>p. ep_Checksum p @ [CHR 0x0A]) parts)))"

definition part_suffix :: "nat \<Rightarrow> nat \<Rightarrow> string" where
  "part_suffix index tot = ''.part-'' @ pad_nat 4 index @ ''-of-'' @ pad_nat 4 tot"

definition PartitionObjectPath :: "string \<Rightarrow> nat \<Rightarrow> nat \<Rightarrow> string" where
  "PartitionObjectPath base index tot =
     (if tot \<le> 1 then base
      else (case path_Split base of (d, file) \<Rightarrow>
        (case LastIndexByte file (CHR ''.'') of
           Some (Suc i) \<Rightarrow>
             path_Join [d, take (Suc i) file @ part_suffix index tot @ drop (Suc i) file]
         | _ \<Rightarrow> path_Join [d, file @ part_suffix index tot])))"

section \<open>Sizes\<close>

definition fields_len :: "(string \<times> string) list \<Rightarrow> nat" where
  "fields_len kts = sum_list (map (\<lambda>kt. length (member_text kt) + 1) kts)"

lemma length_Join: "ps \<noteq> [] \<Longrightarrow> Suc (length (Join '','' ps)) = sum_list (map (\<lambda>p. length p + 1) ps)"
proof (induction ps)
  case (Cons p ps)
  then show ?case by (cases ps) (auto simp: Join_Cons)
qed simp

lemma length_json_fields: "kts \<noteq> [] \<Longrightarrow> length (json_fields kts) = fields_len kts + 1"
  using length_Join [of "map member_text kts"]
  by (simp add: json_fields_members fields_len_def comp_def)

lemma fields_len_append [simp]: "fields_len (xs @ ys) = fields_len xs + fields_len ys"
  by (simp add: fields_len_def)

lemma fields_len_Cons [simp]: "fields_len (x # xs) = length (member_text x) + 1 + fields_len xs"
  by (simp add: fields_len_def)

lemma length_show_int_mono: "0 \<le> i \<Longrightarrow> i \<le> j \<Longrightarrow> length (show_int i) \<le> length (show_int j)"
  using length_show_nat_mono [of "nat i" "nat j"] by (simp add: show_int_def)

lemma fields_len_omit_mono:
  "0 \<le> i \<Longrightarrow> i \<le> j \<Longrightarrow> fields_len (omitempty (i = 0) k (show_int i)) \<le> fields_len (omitempty (j = 0) k (show_int j))"
  using length_show_int_mono [of i j] by (auto simp: omitempty_def fields_len_def member_text_def)

definition env_meta :: "Metadata \<Rightarrow> ExportMetadata" where
  "env_meta meta = \<lparr>meta_Generation = Generation meta, meta_Cluster = Cluster meta,
     meta_ExportedAt = ExportedAt meta, meta_PartIndex = PartIndex meta, meta_PartTotal = PartTotal meta\<rparr>"

text \<open>With an export time the clock is not read: the envelope depends on rows and metadata only.\<close>

definition env_bytes :: "item list \<Rightarrow> Metadata \<Rightarrow> string" where
  "env_bytes items meta = envelope_text (export_env zero_time items (env_meta meta))"

lemma export_env_clock:
  "\<not> IsZero (meta_ExportedAt meta) \<Longrightarrow> export_env now items meta = export_env now' items meta"
  by (simp add: export_env_def)

lemma marshal_at_eq:
  assumes "\<not> IsZero (ExportedAt meta)"
  shows "marshal_at clk items meta =
    (if items_ok items then Inr (env_bytes items meta) else Inl ''marshal export items'')"
  using export_env_clock [of "env_meta meta" "clk items meta" items zero_time] assms
  by (auto simp: marshal_at_def MarshalEnvelope_def MarshalExportEnvelope_eq env_bytes_def env_meta_def)

lemma length_envelope_text: "length (envelope_text env) = fields_len (envelope_fields env) + 1"
  unfolding envelope_text_def by (rule length_json_fields) (simp add: envelope_fields_def)

text \<open>Raising the part marker never shortens an envelope.\<close>

lemma env_bytes_mono:
  assumes "0 \<le> i" "i \<le> m" "0 \<le> t" "t \<le> n"
  shows "length (env_bytes items (meta\<lparr>PartIndex := i, PartTotal := t\<rparr>))
       \<le> length (env_bytes items (meta\<lparr>PartIndex := m, PartTotal := n\<rparr>))"
  using fields_len_omit_mono [OF assms(1,2), of "''partIndex''"]
    fields_len_omit_mono [OF assms(3,4), of "''partTotal''"]
  by (simp add: env_bytes_def length_envelope_text envelope_fields_def env_meta_def export_env_def Let_def)

lemma length_items_text:
  "items \<noteq> [] \<Longrightarrow> length (items_text (Some items)) = 1 + sum_list (map (\<lambda>it. length (item_text it) + 1) items)"
  using length_Join [of "map item_text items"] by (simp add: items_text_def json_array_def comp_def)

lemma sum_list_canonicalItems: "sum_list (map f (canonicalItems items)) = sum_list (map (f :: item \<Rightarrow> nat) items)"
proof -
  have "sum_mset (mset (map f (canonicalItems items))) = sum_mset (mset (map f items))"
    by (simp add: canonicalItems_def)
  then show ?thesis by (simp only: sum_mset_sum_list)
qed

lemma length_items_canonical:
  "length (items_text (Some (canonicalItems items))) = length (items_text (Some items))"
proof (cases "items = []")
  case False
  then have "canonicalItems items \<noteq> []" by (metis length_canonicalItems length_0_conv)
  then show ?thesis using False by (simp add: length_items_text sum_list_canonicalItems)
qed (simp add: canonicalItems_def)

lemma escape_ascii_hex: "is_hex c \<Longrightarrow> escape_ascii c = [c]"
proof -
  have "list_all (\<lambda>c. escape_ascii c = [c]) ''0123456789abcdef''" by code_simp
  then show "is_hex c \<Longrightarrow> escape_ascii c = [c]" by (simp only: is_hex_def list_all_iff)
qed

lemma escape_hex: "list_all is_hex h \<Longrightarrow> escape h = h"
  by (induction h) (simp_all add: escape_ascii_hex is_hex_ascii)

lemma length_json_hash: "length (json_string (exportContentHash s)) = 66"
proof -
  have "escape (exportContentHash s) = exportContentHash s"
    by (rule escape_hex) (auto simp: exportContentHash_eq list_all_iff dest: ContentHash_hex)
  then show ?thesis by (simp add: json_string_def exportContentHash_eq)
qed

lemma env_bytes_last_mono: "length (env_bytes [it] meta) \<le> length (env_bytes (cur @ [it]) meta)"
proof -
  have "length (items_text (Some [it])) \<le> length (items_text (Some (cur @ [it])))"
    by (simp add: length_items_text)
  moreover have "length (show_int 1) \<le> length (show_int (int (length (cur @ [it]))))"
    by (rule length_show_int_mono) simp_all
  ultimately show ?thesis
    by (simp add: env_bytes_def length_envelope_text envelope_fields_def env_meta_def export_env_def Let_def
        member_text_def length_items_canonical length_json_hash)
qed

section \<open>The packing loop\<close>

definition fits :: "Metadata \<Rightarrow> int \<Rightarrow> item list \<Rightarrow> bool" where
  "fits mm maxBytes g \<longleftrightarrow> int (length (env_bytes g mm)) \<le> maxBytes"

lemma items_ok_append [simp]: "items_ok (xs @ ys) \<longleftrightarrow> items_ok xs \<and> items_ok ys"
  by (simp add: items_ok_def)

lemma items_ok_Cons: "items_ok (x # xs) \<longleftrightarrow> items_ok [x] \<and> items_ok xs"
  by (simp add: items_ok_def)

lemma partition_loop_step:
  assumes "\<not> IsZero (ExportedAt mm)"
  shows "partition_loop clk mm maxBytes cur groups (it # rest) =
     (if \<not> items_ok (cur @ [it]) then Inl ''marshal export items''
      else if fits mm maxBytes (cur @ [it]) then partition_loop clk mm maxBytes (cur @ [it]) groups rest
      else if cur = [] \<or> \<not> fits mm maxBytes [it] then Inl single_too_big
      else partition_loop clk mm maxBytes [it] (groups @ [cur]) rest)"
  unfolding partition_loop.simps(2) marshal_at_eq [OF assms] fits_def not_le [symmetric]
  by (cases "items_ok [it]"; cases "int (length (env_bytes (cur @ [it]) mm)) \<le> maxBytes";
      cases "int (length (env_bytes [it] mm)) \<le> maxBytes"; cases "items_ok cur"; cases "cur = []")
     (simp_all only: if_True if_False sum.case items_ok_append simp_thms not_True_eq_False not_False_eq_True)

declare partition_loop.simps(2) [simp del]

definition packed :: "Metadata \<Rightarrow> int \<Rightarrow> item list list \<Rightarrow> bool" where
  "packed mm maxBytes groups = list_all (\<lambda>g. g \<noteq> [] \<and> fits mm maxBytes g) groups"

lemma packed_Nil: "packed mm maxBytes []"
  by (simp add: packed_def)

lemma packed_snoc: "packed mm maxBytes (gs @ [g]) \<longleftrightarrow> packed mm maxBytes gs \<and> g \<noteq> [] \<and> fits mm maxBytes g"
  by (auto simp: packed_def)

lemma partition_loop_sound:
  assumes "partition_loop clk mm maxBytes cur groups rest = Inr out" "\<not> IsZero (ExportedAt mm)"
    and "cur = [] \<or> fits mm maxBytes cur" "packed mm maxBytes groups"
  shows "concat out = concat groups @ cur @ rest" "packed mm maxBytes out"
  using assms
proof (induction rest arbitrary: cur groups)
  case Nil
  { case 1 then show ?case by (auto split: if_splits) }
  { case 2 then show ?case by (auto simp: packed_snoc split: if_splits) }
next
  case (Cons it rest)
  have step: "partition_loop clk mm maxBytes (cur @ [it]) groups rest = Inr out"
    if "partition_loop clk mm maxBytes cur groups (it # rest) = Inr out" "fits mm maxBytes (cur @ [it])"
      "\<not> IsZero (ExportedAt mm)" for cur groups
    using that(1,2) unfolding partition_loop_step [OF that(3)] by (simp split: if_splits)
  have flush: "partition_loop clk mm maxBytes [it] (groups @ [cur]) rest = Inr out" "cur \<noteq> []" "fits mm maxBytes [it]"
    if "partition_loop clk mm maxBytes cur groups (it # rest) = Inr out" "\<not> fits mm maxBytes (cur @ [it])"
      "\<not> IsZero (ExportedAt mm)" for cur groups
    using that(1,2) unfolding partition_loop_step [OF that(3)] by (simp_all split: if_splits)
  { case 1
    show ?case
    proof (cases "fits mm maxBytes (cur @ [it])")
      case True
      then show ?thesis using Cons(1) [OF step [OF 1(1)]] 1 by simp
    next
      case False
      then show ?thesis using Cons(1) [OF flush(1) [OF 1(1)]] flush [OF 1(1)] 1 by (simp add: packed_snoc)
    qed }
  { case 2
    show ?case
    proof (cases "fits mm maxBytes (cur @ [it])")
      case True
      then show ?thesis using Cons(2) [OF step [OF 2(1)]] 2 by simp
    next
      case False
      then show ?thesis using Cons(2) [OF flush(1) [OF 2(1)]] flush [OF 2(1)] 2 by (simp add: packed_snoc)
    qed }
qed

lemma partition_loop_succeeds_iff:
  assumes "\<not> IsZero (ExportedAt mm)" "items_ok cur" "items_ok rest"
  shows "(\<exists>out. partition_loop clk mm maxBytes cur groups rest = Inr out)
     \<longleftrightarrow> (\<forall>it \<in> set rest. fits mm maxBytes [it])"
  using assms
proof (induction rest arbitrary: cur groups)
  case (Cons it rest)
  have ok: "items_ok [it]" "items_ok rest" "items_ok (cur @ [it])"
    using Cons.prems(2,3) items_ok_Cons [of it rest] by auto
  have "fits mm maxBytes [it]" if "fits mm maxBytes (cur @ [it])"
    using that env_bytes_last_mono [of it mm cur] by (simp add: fits_def)
  then show ?case
    using Cons.IH [OF Cons.prems(1) ok(3,2)] Cons.IH [OF Cons.prems(1) ok(1,2)] ok(3)
    by (auto simp: partition_loop_step [OF Cons.prems(1)])
qed simp

section \<open>Groups and parts\<close>

definition mk_part :: "Metadata \<Rightarrow> nat \<Rightarrow> nat \<Rightarrow> item list \<Rightarrow> EnvelopePartition" where
  "mk_part meta tot i g =
     (let payload = env_bytes g (part_meta meta tot i)
      in \<lparr>ep_Index = i + 1, ep_Total = tot, ep_ItemCount = length g,
          ep_Checksum = em_Checksum (EnvelopeMetaFromPayload payload), ep_Envelope = payload\<rparr>)"

lemma ExportedAt_part_meta [simp]: "ExportedAt (part_meta meta tot i) = ExportedAt meta"
  by (simp add: part_meta_def)

lemma emit_parts_eq:
  assumes "\<not> IsZero (ExportedAt meta)" "items_ok (concat gs)"
  shows "emit_parts clk meta tot i gs = Inr (map (\<lambda>(j, g). mk_part meta tot j g) (enumerate i gs))"
  using assms(2)
  by (induction gs arbitrary: i) (simp_all add: marshal_at_eq assms(1) mk_part_def Let_def)

lemma length_concat_ge: "packed mm maxBytes gs \<Longrightarrow> length gs \<le> length (concat gs)"
proof (induction gs)
  case (Cons g gs)
  then show ?case by (cases g) (auto simp: packed_def)
qed simp

lemma partitionItemGroups_loop:
  assumes "\<not> IsZero (ExportedAt meta)" "items_ok s" "s \<noteq> []" "0 < maxBytes"
  shows "partitionItemGroups clk s meta maxBytes =
     (if fits meta maxBytes s then Inr [s]
      else partition_loop clk (measure_meta meta (length s)) maxBytes [] [] s)"
  using assms by (simp add: partitionItemGroups_def marshal_at_eq fits_def)

lemma partitionItemGroups_concat:
  assumes "partitionItemGroups clk s meta maxBytes = Inr gs" "\<not> IsZero (ExportedAt meta)" "items_ok s"
    "s \<noteq> []" "0 < maxBytes"
  shows "concat gs = s"
proof (cases "fits meta maxBytes s")
  case True
  then show ?thesis using assms(1) unfolding partitionItemGroups_loop [OF assms(2-5)] by auto
next
  case False
  then have l: "partition_loop clk (measure_meta meta (length s)) maxBytes [] [] s = Inr gs"
    using assms(1) unfolding partitionItemGroups_loop [OF assms(2-5)] by simp
  have "\<not> IsZero (ExportedAt (measure_meta meta (length s)))" using assms(2) by (simp add: measure_meta_def)
  from partition_loop_sound(1) [OF l this] packed_Nil show ?thesis by simp
qed

lemma fits_part:
  assumes "fits (measure_meta meta n) maxBytes g" "i < tot" "tot \<le> n" "PartIndex meta = 0" "PartTotal meta = 0"
  shows "fits (part_meta meta tot i) maxBytes g"
proof -
  have m: "meta = meta\<lparr>PartIndex := 0, PartTotal := 0\<rparr>" using assms(4,5) by simp
  have "length (env_bytes g (part_meta meta tot i)) \<le> length (env_bytes g (measure_meta meta n))"
  proof (cases "1 < tot")
    case True
    then show ?thesis using assms(2,3) env_bytes_mono [of "int (i + 1)" "int n" "int tot" "int n" g meta]
      by (simp add: part_meta_def measure_meta_def)
  next
    case False
    then show ?thesis using env_bytes_mono [of 0 "int n" 0 "int n" g meta] m
      by (simp add: part_meta_def measure_meta_def)
  qed
  then show ?thesis using assms(1) by (simp add: fits_def)
qed

lemma partitionItemGroups_sound:
  assumes "partitionItemGroups clk s meta maxBytes = Inr gs" "\<not> IsZero (ExportedAt meta)" "items_ok s"
    "s \<noteq> []" "0 < maxBytes" "PartIndex meta = 0" "PartTotal meta = 0"
  shows "concat gs = s" "[] \<notin> set gs"
    "\<And>i. i < length gs \<Longrightarrow> fits (part_meta meta (length gs) i) maxBytes (gs ! i)"
proof -
  have "concat gs = s \<and> [] \<notin> set gs \<and> (\<forall>i < length gs. fits (part_meta meta (length gs) i) maxBytes (gs ! i))"
  proof (cases "fits meta maxBytes s")
    case True
    then have "gs = [s]" using assms(1) partitionItemGroups_loop [OF assms(2-5)] by simp
    then show ?thesis using True assms(4) by (simp add: part_meta_def)
  next
    case False
    let ?mm = "measure_meta meta (length s)"
    have z: "\<not> IsZero (ExportedAt ?mm)" using assms(2) by (simp add: measure_meta_def)
    have l: "partition_loop clk ?mm maxBytes [] [] s = Inr gs"
      using assms(1) False partitionItemGroups_loop [OF assms(2-5)] by simp
    have c: "concat gs = s" and p: "packed ?mm maxBytes gs"
      using partition_loop_sound [OF l z] packed_Nil by simp_all
    have "length gs \<le> length s" using length_concat_ge [OF p] c by simp
    then have "fits (part_meta meta (length gs) i) maxBytes (gs ! i)" if "i < length gs" for i
      using p that by (intro fits_part [OF _ that _ assms(6,7)]) (auto simp: packed_def list_all_length)
    moreover have "[] \<notin> set gs" using p by (auto simp: packed_def list_all_iff)
    ultimately show ?thesis using c by blast
  qed
  then show "concat gs = s" "[] \<notin> set gs"
    "\<And>i. i < length gs \<Longrightarrow> fits (part_meta meta (length gs) i) maxBytes (gs ! i)" by auto
qed

lemma PartitionEnvelopes_parts:
  assumes "PartitionEnvelopes clk items meta maxBytes = Inr parts" "\<not> IsZero (ExportedAt meta)"
  obtains gs where "items_ok items" "partitionItemGroups clk (sort_key item_text items) meta maxBytes = Inr gs"
    "emit_parts clk meta (length gs) 0 gs = Inr parts"
  using assms by (auto simp: PartitionEnvelopes_def stableItems_def split: if_splits sum.splits)

lemma items_ok_sort: "items_ok (sort_key f items) = items_ok items"
  by (simp add: items_ok_def list_all_iff)

text \<open>What a successful export with a positive cap looks like, for the properties below.\<close>

lemma partition_facts:
  assumes "PartitionEnvelopes clk items meta maxBytes = Inr parts" "\<not> IsZero (ExportedAt meta)"
    "items \<noteq> []" "0 < maxBytes" "PartIndex meta = 0" "PartTotal meta = 0"
  obtains gs where "concat gs = sort_key item_text items" "[] \<notin> set gs" "items_ok items"
    "\<And>i. i < length gs \<Longrightarrow> fits (part_meta meta (length gs) i) maxBytes (gs ! i)"
    "length parts = length gs" "\<And>i. i < length gs \<Longrightarrow> parts ! i = mk_part meta (length gs) i (gs ! i)"
proof -
  obtain gs where gs: "items_ok items" "partitionItemGroups clk (sort_key item_text items) meta maxBytes = Inr gs"
      "emit_parts clk meta (length gs) 0 gs = Inr parts"
    using PartitionEnvelopes_parts [OF assms(1,2)] by blast
  have s: "items_ok (sort_key item_text items)" "sort_key item_text items \<noteq> []"
    using gs(1) assms(3) by (simp_all add: items_ok_sort) (metis length_sort length_0_conv)
  note sound = partitionItemGroups_sound [OF gs(2) assms(2) s assms(4-6)]
  have "parts = map (\<lambda>(j, g). mk_part meta (length gs) j g) (enumerate 0 gs)"
    using gs(3) emit_parts_eq [OF assms(2), of gs clk "length gs" 0] sound(1) s(1) by simp
  then have "length parts = length gs" "\<And>i. i < length gs \<Longrightarrow> parts ! i = mk_part meta (length gs) i (gs ! i)"
    by (simp_all add: nth_enumerate_eq)
  then show thesis using that [OF sound(1,2) gs(1) sound(3)] by blast
qed

lemma items_ok_Nil [simp]: "items_ok []"
  by (simp add: items_ok_def)

lemma items_ok_concat: "items_ok (concat gs) \<longleftrightarrow> list_all items_ok gs"
  by (induction gs) simp_all

lemma group_ok: "concat gs = s \<Longrightarrow> items_ok s \<Longrightarrow> i < length gs \<Longrightarrow> items_ok (gs ! i)"
  using items_ok_concat [of gs] by (simp add: list_all_length)

lemma env_bytes_marshal:
  "items_ok items \<Longrightarrow> \<not> IsZero (ExportedAt meta) \<Longrightarrow> MarshalEnvelope now items meta = Inr (env_bytes items meta)"
  using marshal_at_eq [of meta "\<lambda>_ _. now" items] by (simp add: marshal_at_def)

lemma PartitionEnvelopes_succeeds_iff:
  assumes "items_ok items" "\<not> IsZero (ExportedAt meta)" "items \<noteq> []" "0 < maxBytes"
  shows "(\<exists>parts. PartitionEnvelopes clk items meta maxBytes = Inr parts) \<longleftrightarrow>
     fits meta maxBytes (sort_key item_text items)
     \<or> (\<forall>it \<in> set items. fits (measure_meta meta (length items)) maxBytes [it])"
proof -
  let ?s = "sort_key item_text items"
  have s: "items_ok ?s" "?s \<noteq> []"
    using assms(1,3) by (simp_all add: items_ok_sort) (metis length_sort length_0_conv)
  have z: "\<not> IsZero (ExportedAt (measure_meta meta n))" for n using assms(2) by (simp add: measure_meta_def)
  have "(\<exists>gs. partitionItemGroups clk ?s meta maxBytes = Inr gs) \<longleftrightarrow>
     fits meta maxBytes ?s \<or> (\<forall>it \<in> set items. fits (measure_meta meta (length items)) maxBytes [it])"
    unfolding partitionItemGroups_loop [OF assms(2) s assms(4)]
    using partition_loop_succeeds_iff [OF z _ s(1), of "[]" clk "length items" maxBytes "[]"]
    by (simp add: items_ok_def)
  moreover have "(\<exists>parts. PartitionEnvelopes clk items meta maxBytes = Inr parts) \<longleftrightarrow>
      (\<exists>gs. partitionItemGroups clk ?s meta maxBytes = Inr gs)"
  proof
    assume "\<exists>gs. partitionItemGroups clk ?s meta maxBytes = Inr gs"
    then obtain gs where gs: "partitionItemGroups clk ?s meta maxBytes = Inr gs" ..
    have "concat gs = ?s" by (rule partitionItemGroups_concat [OF gs assms(2) s assms(4)])
    then show "\<exists>parts. PartitionEnvelopes clk items meta maxBytes = Inr parts"
      using gs emit_parts_eq [OF assms(2), of gs] s(1) assms(1)
      by (simp add: PartitionEnvelopes_def stableItems_def)
  qed (auto simp: PartitionEnvelopes_def stableItems_def assms(1) split: sum.splits)
  ultimately show ?thesis by simp
qed

section \<open>Properties\<close>

definition example_metadata :: Metadata where
  "example_metadata = \<lparr>Generation = 3, Cluster = ''prod'', ExportedAt = 0, PartIndex = 0, PartTotal = 0\<rparr>"

text \<open>Two rows under a cap that each of them just fits alone.\<close>

definition example_rows :: "item list" where
  "example_rows = [example_row ''u1'', example_row ''u2'']"

definition example_cap :: int where
  "example_cap = Max (set (map (\<lambda>it. int (length (env_bytes [it]
     (measure_meta example_metadata (length example_rows))))) example_rows))"

lemma example_fits:
  "\<forall>it \<in> set example_rows. fits (measure_meta example_metadata (length example_rows)) example_cap [it]"
  by (simp add: fits_def example_cap_def)

lemma exact_example_rows: "list_all exact_item example_rows"
  by (simp add: example_rows_def exact_example_row byte_def)

lemma example_metadata_ok: "\<not> IsZero (ExportedAt example_metadata)" "exact_meta (env_meta example_metadata)"
  "PartIndex example_metadata = 0" "PartTotal example_metadata = 0"
  by (simp_all add: example_metadata_def IsZero_def zero_time_def Second_def exact_meta_def env_meta_def int64_def byte_def)

lemma example_cap_pos: "0 < example_cap"
proof -
  have "0 < length (env_bytes [it] mm)" for it mm
    using envelope_text_head [of "export_env zero_time [it] (env_meta mm)"] by (auto simp: env_bytes_def)
  moreover have "fits (measure_meta example_metadata (length example_rows)) example_cap [example_row ''u1'']"
    using example_fits by (simp add: example_rows_def)
  ultimately show ?thesis unfolding fits_def by (metis less_le_trans of_nat_0_less_iff)
qed

lemma example_partitions: "\<exists>parts. PartitionEnvelopes (\<lambda>_ _. 0) example_rows example_metadata example_cap = Inr parts"
proof -
  have "example_rows \<noteq> []" by (simp add: example_rows_def)
  from PartitionEnvelopes_succeeds_iff [OF items_ok_exact [OF exact_example_rows] example_metadata_ok(1) this example_cap_pos]
  show ?thesis using example_fits by blast
qed

text \<open>C6. Every persisted part respects the cap, and the parts are complete: a successful partition of
  rows under a positive cap consists of non-empty groups that together are the rows in stable order,
  each part is the envelope of its group, numbered from 1 with the same total, and no part's payload
  is longer than \<open>maxBytes\<close>.\<close>

theorem partition_bounded_complete:
  assumes "PartitionEnvelopes clk items meta maxBytes = Inr parts" "\<not> IsZero (ExportedAt meta)"
    "items \<noteq> []" "0 < maxBytes" "PartIndex meta = 0" "PartTotal meta = 0"
  shows "\<exists>groups. concat groups = sort_key item_text items \<and> [] \<notin> set groups
     \<and> length groups = length parts
     \<and> (\<forall>i < length parts. ep_Index (parts ! i) = i + 1 \<and> ep_Total (parts ! i) = length parts
          \<and> ep_ItemCount (parts ! i) = length (groups ! i)
          \<and> MarshalEnvelope now (groups ! i) (part_meta meta (length parts) i) = Inr (ep_Envelope (parts ! i))
          \<and> int (length (ep_Envelope (parts ! i))) \<le> maxBytes)"
proof -
  obtain gs where gs: "concat gs = sort_key item_text items" "[] \<notin> set gs" "items_ok items"
    "\<And>i. i < length gs \<Longrightarrow> fits (part_meta meta (length gs) i) maxBytes (gs ! i)"
    "length parts = length gs" "\<And>i. i < length gs \<Longrightarrow> parts ! i = mk_part meta (length gs) i (gs ! i)"
    using partition_facts [OF assms] by blast
  have "ep_Index (parts ! i) = i + 1 \<and> ep_Total (parts ! i) = length parts
      \<and> ep_ItemCount (parts ! i) = length (gs ! i)
      \<and> MarshalEnvelope now (gs ! i) (part_meta meta (length parts) i) = Inr (ep_Envelope (parts ! i))
      \<and> int (length (ep_Envelope (parts ! i))) \<le> maxBytes" if "i < length parts" for i
  proof -
    note l = gs(5)
    have i: "parts ! i = mk_part meta (length parts) i (gs ! i)" using gs(6) that l by simp
    have "items_ok (gs ! i)" using group_ok [OF gs(1)] gs(3) that l by (simp add: items_ok_sort)
    then show ?thesis using gs(4) [of i] env_bytes_marshal [of "gs ! i" "part_meta meta (length parts) i"] that l assms(2)
      unfolding i by (simp add: mk_part_def Let_def fits_def)
  qed
  then show ?thesis using gs(1,2,5) by (intro exI [of _ gs]) simp
qed

theorem partition_bounded_complete_witness:
  "\<exists>parts. PartitionEnvelopes (\<lambda>_ _. 0) example_rows example_metadata example_cap = Inr parts
     \<and> (\<forall>i < length parts. int (length (ep_Envelope (parts ! i))) \<le> example_cap)"
proof -
  obtain parts where p: "PartitionEnvelopes (\<lambda>_ _. 0) example_rows example_metadata example_cap = Inr parts"
    using example_partitions ..
  have "example_rows \<noteq> []" by (simp add: example_rows_def)
  from partition_bounded_complete [OF p example_metadata_ok(1) this example_cap_pos example_metadata_ok(3,4)]
  show ?thesis using p by blast
qed

text \<open>C7. Partitioning fails only for a row that cannot fit: with marshallable rows and a positive cap
  it succeeds exactly when the whole document fits, or every row fits in an envelope of its own that
  reserves room for a part marker as wide as the number of rows.\<close>

theorem partition_succeeds_iff:
  assumes "items_ok items" "\<not> IsZero (ExportedAt meta)" "items \<noteq> []" "0 < maxBytes"
  shows "(\<exists>parts. PartitionEnvelopes clk items meta maxBytes = Inr parts) \<longleftrightarrow>
     fits meta maxBytes (sort_key item_text items)
     \<or> (\<forall>it \<in> set items. fits (measure_meta meta (length items)) maxBytes [it])"
  by (rule PartitionEnvelopes_succeeds_iff [OF assms])

theorem partition_succeeds_iff_witness:
  "\<exists>parts. PartitionEnvelopes (\<lambda>_ _. 0) example_rows example_metadata example_cap = Inr parts"
proof -
  have "example_rows \<noteq> []" by (simp add: example_rows_def)
  from partition_succeeds_iff [OF items_ok_exact [OF exact_example_rows] example_metadata_ok(1) this example_cap_pos]
  show ?thesis using example_fits by blast
qed

text \<open>What a consumer reads from one part.\<close>

definition part_decodes :: "Metadata \<Rightarrow> nat \<Rightarrow> nat \<Rightarrow> item list \<Rightarrow> EnvelopePartition \<Rightarrow> bool" where
  "part_decodes meta tot i g p \<longleftrightarrow>
     ItemsFromExportPayload (ep_Envelope p) = Inr (Some g)
     \<and> ItemsFingerprint g = Inr (ep_Checksum p)
     \<and> GenerationFromEnvelope (ep_Envelope p) = Generation meta
     \<and> em_PartTotal (EnvelopeMetaFromPayload (ep_Envelope p)) = (if tot = 1 then 0 else int tot)
     \<and> em_PartIndex (EnvelopeMetaFromPayload (ep_Envelope p)) = (if tot = 1 then 0 else int i + 1)"

lemma part_decodes_mk_part:
  assumes "list_all exact_item g" "\<not> IsZero (ExportedAt meta)" "exact_meta (env_meta meta)"
    "PartIndex meta = 0" "PartTotal meta = 0" "int64 (int (length g))" "int64 (int tot)" "i < tot"
  shows "part_decodes meta tot i (map item_by_key (canonicalItems g)) (mk_part meta tot i g)"
proof -
  have "exact_meta (env_meta (part_meta meta tot i))"
    using assms(3,7,8) by (auto simp: exact_meta_def env_meta_def part_meta_def int64_def)
  note decodes = export_decodes [OF assms(1) this assms(6), of zero_time]
  have g: "Generation (part_meta meta tot i) = Generation meta" by (simp add: part_meta_def)
  have "PartIndex (part_meta meta tot i) = (if tot = 1 then 0 else int i + 1)"
    "PartTotal (part_meta meta tot i) = (if tot = 1 then 0 else int tot)"
    using assms(4,5,8) by (auto simp: part_meta_def)
  then show ?thesis using decodes g
    by (simp add: part_decodes_def mk_part_def Let_def env_bytes_def ItemsFingerprint_by_key env_meta_def)
qed

lemma exact_groups:
  assumes "concat gs = sort_key f items" "list_all exact_item items" "i < length gs"
  shows "list_all exact_item (gs ! i)" "length (gs ! i) \<le> length items"
proof -
  have "list_all (list_all exact_item) gs" if "list_all exact_item (concat gs)"
    using that by (induction gs) simp_all
  moreover have "list_all exact_item (concat gs)" using assms(1,2) by (simp add: list_all_iff)
  ultimately show "list_all exact_item (gs ! i)" using assms(3) by (simp add: list_all_length)
  have "length (gs ! i) \<le> length (concat gs)"
    using assms(3) by (metis elem_le_sum_list length_concat length_map nth_map)
  then show "length (gs ! i) \<le> length items" using assms(1) by simp
qed

lemma length_nonempty_groups: "[] \<notin> set gs \<Longrightarrow> length gs \<le> length (concat gs)"
proof (induction gs)
  case (Cons g gs)
  then show ?case by (cases g) auto
qed simp



lemma part_suffix_inj: "a @ part_suffix i tot @ b = a @ part_suffix j tot @ b \<longleftrightarrow> i = j"
proof -
  have "pad_nat 4 i @ ''-of-'' @ pad_nat 4 tot = pad_nat 4 j @ ''-of-'' @ pad_nat 4 tot \<Longrightarrow> i = j"
    using pad_nat_inj [of 4 i j] by (metis append_same_eq)
  then show ?thesis by (auto simp: part_suffix_def)
qed

lemma part_suffix_no_slash: "CHR ''/'' \<notin> set (part_suffix i tot)"
  using pad_nat_digits [of "CHR ''/''"] by (auto simp: part_suffix_def is_digit_def less_eq_char_def)

lemma part_name_ok:
  assumes "CHR ''/'' \<notin> set fn"
  shows "CHR ''/'' \<notin> set (take k fn @ part_suffix i tot @ drop k fn)"
    "\<not> dots (take k fn @ part_suffix i tot @ drop k fn)"
proof -
  show "CHR ''/'' \<notin> set (take k fn @ part_suffix i tot @ drop k fn)"
    using assms part_suffix_no_slash [of i tot] set_take_subset [of k fn] set_drop_subset [of k fn] by auto
  have "6 \<le> length (part_suffix i tot)" by (simp add: part_suffix_def)
  then have "2 < length (take k fn @ part_suffix i tot @ drop k fn)" by simp
  moreover have "length s \<le> 2" if "dots s" for s using that by (auto simp: dots_def)
  ultimately show "\<not> dots (take k fn @ part_suffix i tot @ drop k fn)" by (metis not_le)
qed

lemma PartitionObjectPath_eq:
  assumes "1 < tot"
  shows "\<exists>d fn k. CHR ''/'' \<notin> set fn \<and>
     (\<forall>i. PartitionObjectPath base i tot = path_Join [d, take k fn @ part_suffix i tot @ drop k fn])"
proof -
  obtain d fn where df: "path_Split base = (d, fn)" by fastforce
  have ns: "CHR ''/'' \<notin> set fn"
    using df LastIndexByte_Some [of base "CHR ''/''"] LastIndexByte_None [of base "CHR ''/''"]
    by (auto simp: path_Split_def split: option.splits)
  define k where "k = (case LastIndexByte fn (CHR ''.'') of Some (Suc i) \<Rightarrow> Suc i | _ \<Rightarrow> length fn)"
  have "PartitionObjectPath base i tot = path_Join [d, take k fn @ part_suffix i tot @ drop k fn]" for i
    using assms df by (auto simp: PartitionObjectPath_def k_def split: option.split nat.split)
  then show ?thesis using ns by blast
qed

text \<open>The parts of a multipart export never overwrite each other: two different part indexes give
  two different object paths, whatever the base path is.\<close>

theorem part_paths_distinct:
  assumes "1 < tot" "i \<noteq> j"
  shows "PartitionObjectPath base i tot \<noteq> PartitionObjectPath base j tot"
proof
  assume eq: "PartitionObjectPath base i tot = PartitionObjectPath base j tot"
  obtain d fn k where f: "CHR ''/'' \<notin> set fn"
    "\<And>i. PartitionObjectPath base i tot = path_Join [d, take k fn @ part_suffix i tot @ drop k fn]"
    using PartitionObjectPath_eq [OF assms(1), of base] by blast
  have "take k fn @ part_suffix i tot @ drop k fn = take k fn @ part_suffix j tot @ drop k fn"
    by (rule path_Join_inj [OF part_name_ok(1) [OF f(1)] part_name_ok(1) [OF f(1)]
          part_name_ok(2) [OF f(1)] part_name_ok(2) [OF f(1)]]) (use eq f(2) in simp)
  then show False using part_suffix_inj assms(2) by blast
qed

theorem part_paths_distinct_witness:
  "PartitionObjectPath ''inv/a.json'' 1 2 \<noteq> PartitionObjectPath ''inv/a.json'' 2 2"
  by (rule part_paths_distinct) simp_all

end
