(* ===== verification/Scrub.thy ===== *)
theory Scrub
  imports Json
begin

text \<open>
  Redaction of sensitive values before a row enters the store,
  \<open>src/internal/collect/scrub.go\<close>. A scrubber is its set of denied keys; scrubbing walks
  maps and slices and replaces the value of every denied key, at any depth, by a fixed marker.
\<close>

section \<open>Operations\<close>

definition scrubReason :: string where "scrubReason = ''sensitive-key''"

definition defaultScrubKeys :: "string list" where
  "defaultScrubKeys = [''password'', ''passwd'', ''secret'', ''token'', ''apikey'', ''api_key'', ''privatekey'',
     ''private_key'', ''credential'', ''auth'', ''clientsecret'', ''connectionstring'', ''authorization'',
     ''proxyauthorization'', ''bearertoken'']"

definition highRiskStems :: "string list" where
  "highRiskStems = [''authorization'', ''bearer'']"

definition redactedValue :: any where
  "redactedValue = JObject [(''redacted'', JBool True), (''reason'', JString scrubReason)]"

type_synonym Scrubber = "string list"

definition normalizeScrubKey :: "string \<Rightarrow> string" where
  "normalizeScrubKey key = ToLower (TrimSpace key)"

text \<open>The key set of a scrubber; a Go map used as a set is the list of its keys.\<close>

definition NewScrubber :: "string list \<Rightarrow> Scrubber" where
  "NewScrubber extraKeys =
     remdups (map normalizeScrubKey defaultScrubKeys
       @ filter (\<lambda>k. k \<noteq> []) (map normalizeScrubKey extraKeys))"

definition isSensitiveKey :: "Scrubber \<Rightarrow> string \<Rightarrow> bool" where
  "isSensitiveKey keys key =
     (let normalized = normalizeScrubKey key in
      if normalized = [] then False
      else if normalized \<in> set keys then True
      else if \<exists>deny \<in> set keys. 2 < length deny \<and> HasSuffix normalized deny then True
      else list_ex (\<lambda>stem. HasPrefix normalized stem) highRiskStems)"

definition isCredentialCarrier :: "string \<Rightarrow> any \<Rightarrow> bool" where
  "isCredentialCarrier key val = (case val of
     JObject m \<Rightarrow>
       (let k = normalizeScrubKey key in
        if k = ''valuefrom'' then map_of m ''secretKeyRef'' \<noteq> None
        else if k = ''secretkeyref'' \<or> k = ''secretref'' then True
        else if k = ''tls'' then map_of m ''key'' \<noteq> None
        else False)
   | _ \<Rightarrow> False)"

definition shouldRedactKey :: "Scrubber \<Rightarrow> string \<Rightarrow> any \<Rightarrow> bool" where
  "shouldRedactKey keys key val \<longleftrightarrow> isSensitiveKey keys key \<or> isCredentialCarrier key val"

text \<open>\<open>Scrub\<close> with \<open>scrubMap\<close> inlined at its only call.\<close>

fun Scrub :: "Scrubber \<Rightarrow> any \<Rightarrow> any" where
  "Scrub keys (JObject m) =
     JObject (map (\<lambda>(key, val). (key, if shouldRedactKey keys key val then redactedValue else Scrub keys val)) m)"
| "Scrub keys (JArray vs) = JArray (map (Scrub keys) vs)"
| "Scrub keys v = v"

definition scrubMap :: "Scrubber \<Rightarrow> (string, any) gomap \<Rightarrow> (string, any) gomap" where
  "scrubMap keys m =
     map (\<lambda>(key, val). (key, if shouldRedactKey keys key val then redactedValue else Scrub keys val)) m"

definition ScrubAttributes :: "Scrubber \<Rightarrow> (string, any) gomap option \<Rightarrow> (string, any) gomap option" where
  "ScrubAttributes keys attrs = map_option (map (\<lambda>(name, val). (name, Scrub keys val))) attrs"

section \<open>Cleanliness\<close>

text \<open>Every member whose key is denied, at any depth, holds the marker.\<close>

fun scrubbed :: "Scrubber \<Rightarrow> any \<Rightarrow> bool" where
  "scrubbed keys (JObject m) =
     (\<forall>kv \<in> set m. if isSensitiveKey keys (fst kv) then snd kv = redactedValue
        else snd kv = redactedValue \<or> \<not> isCredentialCarrier (fst kv) (snd kv) \<and> scrubbed keys (snd kv))"
| "scrubbed keys (JArray vs) = (\<forall>v \<in> set vs. scrubbed keys v)"
| "scrubbed keys v = True"

lemma isCredentialCarrier_Scrub: "isCredentialCarrier key (Scrub keys v) = isCredentialCarrier key v"
proof (cases v)
  case (JObject m)
  have "map_of (map (\<lambda>(k, v). (k, f k v)) m) x = None \<longleftrightarrow> map_of m x = None" for f :: "string \<Rightarrow> any \<Rightarrow> any" and x
    by (induction m) auto
  then show ?thesis using JObject by (simp add: isCredentialCarrier_def Let_def)
qed (simp_all add: isCredentialCarrier_def)

lemma scrubbed_Scrub: "scrubbed keys (Scrub keys v)"
proof (induction keys v rule: Scrub.induct)
  case (1 keys m)
  have "(if isSensitiveKey keys k then v' = redactedValue
      else v' = redactedValue \<or> \<not> isCredentialCarrier k v' \<and> scrubbed keys v')"
    if "(k, v) \<in> set m" "v' = (if shouldRedactKey keys k v then redactedValue else Scrub keys v)" for k v v'
    using 1 [OF that(1) refl] that(2) by (auto simp: shouldRedactKey_def isCredentialCarrier_Scrub)
  then show ?case by fastforce
qed auto

lemma Scrub_object: "Scrub keys (JObject m) = JObject (scrubMap keys m)"
  by (simp add: scrubMap_def)

lemma scrubMap_keys: "map fst (scrubMap keys m) = map fst m"
  by (simp add: scrubMap_def case_prod_unfold comp_def)

lemma Scrub_fixed: "scrubbed keys v \<Longrightarrow> Scrub keys redactedValue = redactedValue \<Longrightarrow> Scrub keys v = v"
proof (induction keys v rule: Scrub.induct)
  case (1 keys m)
  have "(if shouldRedactKey keys k v then redactedValue else Scrub keys v) = v" if "(k, v) \<in> set m" for k v
  proof -
    have "if isSensitiveKey keys k then v = redactedValue
        else v = redactedValue \<or> \<not> isCredentialCarrier k v \<and> scrubbed keys v"
      using 1(2) that by fastforce
    then show ?thesis using 1(1) [OF that refl] 1(3) by (auto simp: shouldRedactKey_def split: if_splits)
  qed
  then have "map (\<lambda>(k, v). (k, if shouldRedactKey keys k v then redactedValue else Scrub keys v)) m = map id m"
    by (intro map_cong) auto
  then show ?case by simp
next
  case (2 keys vs)
  then show ?case by (simp cong: map_cong)
qed auto

lemma Scrub_redactedValue:
  assumes "\<not> isSensitiveKey keys ''redacted''" "\<not> isSensitiveKey keys ''reason''"
  shows "Scrub keys redactedValue = redactedValue"
  using assms by (simp add: redactedValue_def shouldRedactKey_def isCredentialCarrier_def)

lemma default_key_denied: "k \<in> set defaultScrubKeys \<Longrightarrow> k \<in> set (NewScrubber extra)"
proof -
  have "map normalizeScrubKey defaultScrubKeys = defaultScrubKeys" by code_simp
  then show "k \<in> set defaultScrubKeys \<Longrightarrow> k \<in> set (NewScrubber extra)" by (simp add: NewScrubber_def)
qed

lemma default_keys_long: "k \<in> set defaultScrubKeys \<Longrightarrow> 2 < length k"
  by (auto simp: defaultScrubKeys_def)

section \<open>Properties\<close>

text \<open>C10. No sensitive value leaves the scrubber: in the result, at every depth, the value of a denied
  key is the redaction marker and no credential carrier survives; and whatever keys an operator adds,
  a key that ends in one of the built-in names, in any case and with surrounding space, is denied.\<close>

theorem scrub_removes_secrets:
  "scrubbed (NewScrubber extra) (Scrub (NewScrubber extra) v)
   \<and> (\<forall>d \<in> set defaultScrubKeys. \<forall>p. normalizeScrubKey k = p @ d \<longrightarrow> isSensitiveKey (NewScrubber extra) k)"
proof (intro conjI ballI allI impI)
  show "scrubbed (NewScrubber extra) (Scrub (NewScrubber extra) v)" by (rule scrubbed_Scrub)
  fix d p assume d: "d \<in> set defaultScrubKeys" and n: "normalizeScrubKey k = p @ d"
  have "2 < length d" by (rule default_keys_long [OF d])
  moreover from this have "p @ d \<noteq> []" by auto
  ultimately show "isSensitiveKey (NewScrubber extra) k"
    using default_key_denied [OF d, of extra] n by (auto simp: isSensitiveKey_def Let_def HasSuffix_iff)
qed

theorem scrub_removes_secrets_witness:
  "isSensitiveKey (NewScrubber [''x'']) '' DB_Password''"
proof -
  have "normalizeScrubKey '' DB_Password'' = ''db_'' @ ''password''" by code_simp
  moreover have "''password'' \<in> set defaultScrubKeys" by (simp add: defaultScrubKeys_def)
  ultimately show ?thesis
    using scrub_removes_secrets [of "[''x'']" JNull "'' DB_Password''"] by blast
qed

text \<open>Scrubbing twice changes nothing more, as long as the marker's own two keys are not denied;
  the keys of a map are kept.\<close>

theorem scrub_idempotent:
  assumes "\<not> isSensitiveKey keys ''redacted''" "\<not> isSensitiveKey keys ''reason''"
  shows "Scrub keys (Scrub keys v) = Scrub keys v"
  by (rule Scrub_fixed [OF scrubbed_Scrub Scrub_redactedValue [OF assms]])

theorem scrub_idempotent_witness:
  "Scrub (NewScrubber []) (Scrub (NewScrubber []) (JObject [(''tls'', JObject [(''key'', JNull)])]))
   = Scrub (NewScrubber []) (JObject [(''tls'', JObject [(''key'', JNull)])])"
proof (rule scrub_idempotent)
  show "\<not> isSensitiveKey (NewScrubber []) ''redacted''" by code_simp
  show "\<not> isSensitiveKey (NewScrubber []) ''reason''" by code_simp
qed

end
