(* ===== verification/Prune.thy ===== *)
theory Prune
  imports Scrub
begin

text \<open>
  Full-resource export, \<open>src/internal/collect/prune.go\<close> and the options of
  \<open>src/api/v1alpha1/export_spec_types.go\<close>. The code deep-copies the object and then mutates
  the copy; here each mutation is a function from object to object. \<open>obj.GetGeneration()\<close> is an
  argument. Deleting a slice element sets it to nil, as the code does.
\<close>

section \<open>Options\<close>

record PruneSpec =
  ps_Defaults :: "bool option"
  ps_JSONPointers :: "string list"
  ps_JSONPaths :: "string list"
  ps_ScrubKeys :: "string list"
  ps_CEL :: "string list"

record ExportSpec =
  es_Mode :: string
  es_As :: string
  es_Include :: string
  es_DedupeIdentity :: "bool option"
  es_Prune :: "PruneSpec option"

definition ExportModeResource :: string where "ExportModeResource = ''Resource''"
definition ExportIncludeMetadataOnly :: string where "ExportIncludeMetadataOnly = ''MetadataOnly''"
definition ExportIncludeSpecOnly :: string where "ExportIncludeSpecOnly = ''SpecOnly''"
definition ExportIncludeStatusOnly :: string where "ExportIncludeStatusOnly = ''StatusOnly''"
definition ExportIncludeSpecAndStatus :: string where "ExportIncludeSpecAndStatus = ''SpecAndStatus''"
definition ExportIncludeAll :: string where "ExportIncludeAll = ''All''"
definition DefaultExportAs :: string where "DefaultExportAs = ''resource''"
definition AnnotationCollectedGeneration :: string where
  "AnnotationCollectedGeneration = ''kollect.dev/collectedGeneration''"

definition ResourceExportEnabled :: "ExportSpec option \<Rightarrow> bool" where
  "ResourceExportEnabled e = (case e of None \<Rightarrow> False | Some s \<Rightarrow> es_Mode s = ExportModeResource)"

definition AttributeKey :: "ExportSpec option \<Rightarrow> string" where
  "AttributeKey e = (case e of None \<Rightarrow> DefaultExportAs
     | Some s \<Rightarrow> if es_As s = [] then DefaultExportAs else es_As s)"

definition IncludeOrDefault :: "ExportSpec option \<Rightarrow> string" where
  "IncludeOrDefault e = (case e of None \<Rightarrow> ExportIncludeSpecAndStatus
     | Some s \<Rightarrow> if es_Include s = [] then ExportIncludeSpecAndStatus else es_Include s)"

definition DedupeIdentityEnabled :: "ExportSpec option \<Rightarrow> bool" where
  "DedupeIdentityEnabled e = (case e of None \<Rightarrow> True
     | Some s \<Rightarrow> (case es_DedupeIdentity s of None \<Rightarrow> True | Some b \<Rightarrow> b))"

definition DefaultsEnabled :: "PruneSpec option \<Rightarrow> bool" where
  "DefaultsEnabled p = (case p of None \<Rightarrow> True
     | Some s \<Rightarrow> (case ps_Defaults s of None \<Rightarrow> True | Some b \<Rightarrow> b))"

section \<open>Paths\<close>

type_synonym obj = "(string, any) gomap"

definition builtinPrunePointers :: "string list" where
  "builtinPrunePointers =
     [''/metadata/managedFields'', ''/metadata/resourceVersion'', ''/metadata/generation'',
      ''/metadata/annotations/kubectl.kubernetes.io~1last-applied-configuration'',
      ''/metadata/annotations/argocd.argoproj.io~1tracking-id'']"

text \<open>\<open>strconv.Atoi\<close>: an optional sign and decimal digits, in the range of \<open>int\<close>.\<close>

definition Atoi :: "string \<Rightarrow> int option" where
  "Atoi s =
     (let neg = HasPrefix s ''-''; ds = (if neg \<or> HasPrefix s ''+'' then tl s else s);
          n = int (nat_of_digits 0 ds); i = (if neg then - n else n)
      in if ds \<noteq> [] \<and> list_all is_digit ds \<and> - (2 ^ 63) \<le> i \<and> i < 2 ^ 63 then Some i else None)"

definition array_index :: "string \<Rightarrow> nat \<Rightarrow> nat option" where
  "array_index token len = (case Atoi token of
     Some i \<Rightarrow> if i < 0 \<or> int len \<le> i then None else Some (nat i)
   | None \<Rightarrow> None)"

fun removeByTokens :: "any \<Rightarrow> string list \<Rightarrow> any" where
  "removeByTokens node [] = node"
| "removeByTokens (JObject m) [token] = JObject (AList.delete token m)"
| "removeByTokens (JObject m) (token # t # ts) =
     (case map_of m token of
        None \<Rightarrow> JObject m
      | Some v \<Rightarrow> JObject (AList.update token (removeByTokens v (t # ts)) m))"
| "removeByTokens (JArray vs) [token] =
     (case array_index token (length vs) of None \<Rightarrow> JArray vs | Some i \<Rightarrow> JArray (vs[i := JNull]))"
| "removeByTokens (JArray vs) (token # t # ts) =
     (case array_index token (length vs) of
        None \<Rightarrow> JArray vs
      | Some i \<Rightarrow> JArray (vs[i := removeByTokens (vs ! i) (t # ts)]))"
| "removeByTokens v (token # ts) = v"

definition unescapeJSONPointerToken :: "string \<Rightarrow> string" where
  "unescapeJSONPointerToken token = ReplaceAll (ReplaceAll token ''~1'' ''/'') ''~0'' ''~''"

definition pointer_tokens :: "string \<Rightarrow> string list" where
  "pointer_tokens pointer =
     (let p = TrimSpace pointer in
      if p = [] \<or> p = ''/'' \<or> \<not> HasPrefix p ''/'' then []
      else map unescapeJSONPointerToken (Split (CHR ''/'') (tl p)))"

text \<open>The code returns early on a bad pointer; removing along no tokens is the same.\<close>

definition removeJSONPointer :: "any \<Rightarrow> string \<Rightarrow> any" where
  "removeJSONPointer root pointer = removeByTokens root (pointer_tokens pointer)"

text \<open>The scanner of \<open>jsonPathTokens\<close> on what is left of the path; \<open>None\<close> is \<open>ok = false\<close>.\<close>

function path_tokens :: "string \<Rightarrow> string list option" where
  "path_tokens [] = Some []"
| "path_tokens (c # r) =
     (if c = CHR ''.'' then path_tokens r
      else if c = CHR ''['' then
        (if CHR '']'' \<notin> set r then None
         else (let inner = TrimSpace (takeWhile (\<lambda>x. x \<noteq> CHR '']'') r);
                   rest = tl (dropWhile (\<lambda>x. x \<noteq> CHR '']'') r)
               in if inner = ''*'' \<or> HasPrefix inner ''?'' then None
                  else map_option ((#) (Trim inner [CHR 0x22, CHR 0x27])) (path_tokens rest)))
      else
        (let stop = (\<lambda>x. x = CHR ''.'' \<or> x = CHR ''['');
             seg = TrimSpace (takeWhile (\<lambda>x. \<not> stop x) (c # r));
             rest = dropWhile (\<lambda>x. \<not> stop x) (c # r)
         in if seg = ''*'' then None
            else map_option (if seg = [] then id else (#) seg) (path_tokens rest)))"
  by pat_completeness auto
termination
proof (relation "measure length")
  fix c :: char and r inner rest
  assume "rest = tl (dropWhile (\<lambda>x. x \<noteq> CHR '']'') r)"
  then show "(rest, c # r) \<in> measure length"
    using length_dropWhile_le [of "\<lambda>x. x \<noteq> CHR '']''" r] by auto
next
  fix c :: char and r stop seg rest
  assume "c \<noteq> CHR ''.''" "c \<noteq> CHR ''[''" "stop = (\<lambda>x. x = CHR ''.'' \<or> x = CHR ''['')"
    "rest = dropWhile (\<lambda>x. \<not> stop x) (c # r)"
  then show "(rest, c # r) \<in> measure length"
    using length_dropWhile_le [of "\<lambda>x. \<not> stop x" r] by auto
qed auto

definition jsonPathTokens :: "string \<Rightarrow> string list option" where
  "jsonPathTokens path = path_tokens (TrimPrefix (TrimSpace path) ''$'')"

definition removeJSONPath :: "any \<Rightarrow> string \<Rightarrow> any" where
  "removeJSONPath root path = (case jsonPathTokens path of
     None \<Rightarrow> root
   | Some tokens \<Rightarrow> if tokens = [] then root else removeByTokens root tokens)"

section \<open>The pruned object\<close>

definition keep_sections :: "obj \<Rightarrow> string list \<Rightarrow> obj" where
  "keep_sections root ks =
     concat (map (\<lambda>k. case map_of root k of None \<Rightarrow> [] | Some v \<Rightarrow> [(k, v)]) ks)"

definition selectIncludeSections :: "obj \<Rightarrow> string \<Rightarrow> obj" where
  "selectIncludeSections root include =
     (if include = ExportIncludeAll then root
      else keep_sections root ([''apiVersion'', ''kind''] @
        (if include = ExportIncludeMetadataOnly then [''metadata'']
         else if include = ExportIncludeSpecOnly then [''spec'']
         else if include = ExportIncludeStatusOnly then [''status'']
         else [''spec'', ''status''])))"

definition dropEnvelopeIdentity :: "obj \<Rightarrow> obj" where
  "dropEnvelopeIdentity root = (case map_of root ''metadata'' of
     Some (JObject meta) \<Rightarrow>
       AList.update ''metadata'' (JObject (fold AList.delete [''name'', ''namespace'', ''uid''] meta)) root
   | _ \<Rightarrow> root)"

definition stampCollectedGeneration :: "int \<Rightarrow> obj \<Rightarrow> obj" where
  "stampCollectedGeneration gen root = (case map_of root ''metadata'' of
     Some (JObject meta) \<Rightarrow>
       (let annotations = (case map_of meta ''annotations'' of Some (JObject a) \<Rightarrow> a | _ \<Rightarrow> [])
        in AList.update ''metadata'' (JObject (AList.update ''annotations''
             (JObject (AList.update AnnotationCollectedGeneration (JString (show_int gen)) annotations)) meta)) root)
   | _ \<Rightarrow> root)"

definition as_object :: "any \<Rightarrow> obj \<Rightarrow> obj" where
  "as_object v old = (case v of JObject m \<Rightarrow> m | _ \<Rightarrow> old)"

definition prune_paths :: "PruneSpec option \<Rightarrow> any \<Rightarrow> any" where
  "prune_paths prune root =
     (let r1 = (if DefaultsEnabled prune then fold (\<lambda>ptr r. removeJSONPointer r ptr) builtinPrunePointers root else root)
      in case prune of
           None \<Rightarrow> r1
         | Some p \<Rightarrow> fold (\<lambda>jp r. removeJSONPath r jp) (ps_JSONPaths p)
             (fold (\<lambda>ptr r. removeJSONPointer r ptr) (ps_JSONPointers p) r1))"

definition included_object :: "obj \<Rightarrow> ExportSpec \<Rightarrow> obj" where
  "included_object object export =
     (let root = selectIncludeSections object (IncludeOrDefault (Some export))
      in if DedupeIdentityEnabled (Some export) then dropEnvelopeIdentity root else root)"

text \<open>\<open>PruneResource\<close> on a non-nil object; \<open>None\<close> for the scrubber is a nil scrubber.\<close>

definition PruneResource :: "int \<Rightarrow> obj \<Rightarrow> ExportSpec \<Rightarrow> Scrubber option \<Rightarrow> obj" where
  "PruneResource gen object export scrubber =
     (let root1 = included_object object export;
          root2 = as_object (prune_paths (es_Prune export) (JObject root1)) root1;
          root3 = (case scrubber of None \<Rightarrow> root2 | Some s \<Rightarrow> as_object (Scrub s (JObject root2)) root2)
      in stampCollectedGeneration gen root3)"

section \<open>Lookup along a path\<close>

fun lookup_path :: "any \<Rightarrow> string list \<Rightarrow> any option" where
  "lookup_path node [] = Some node"
| "lookup_path (JObject m) (t # ts) = (case map_of m t of None \<Rightarrow> None | Some v \<Rightarrow> lookup_path v ts)"
| "lookup_path (JArray vs) (t # ts) =
     (case array_index t (length vs) of None \<Rightarrow> None | Some i \<Rightarrow> lookup_path (vs ! i) ts)"
| "lookup_path v (t # ts) = None"

lemma array_index_Some: "array_index t n = Some i \<Longrightarrow> i < n"
  by (auto simp: array_index_def split: option.splits if_splits)

lemma removeByTokens_object: "\<exists>m'. removeByTokens (JObject m) ts = JObject m'"
  by (cases "(JObject m, ts)" rule: removeByTokens.cases) (auto split: option.splits)

text \<open>The addressed value is gone, or nil where it was a slice element.\<close>

lemma lookup_removed:
  "ts \<noteq> [] \<Longrightarrow> lookup_path (removeByTokens node ts) ts \<in> {None, Some JNull}"
proof (induction node ts rule: removeByTokens.induct)
  case (3 m token t ts)
  then show ?case by (cases "map_of m token") auto
next
  case (4 vs token)
  then show ?case by (cases "array_index token (length vs)") (auto dest: array_index_Some)
next
  case (5 vs token t ts)
  then show ?case by (cases "array_index token (length vs)") (auto dest: array_index_Some)
qed auto

text \<open>Removing never makes a path lead to a value where it led to none.\<close>

lemma lookup_None_update:
  assumes "lookup_path (JArray vs) q = None" "\<And>r. lookup_path (vs ! i) r = None \<Longrightarrow> lookup_path v r = None"
  shows "lookup_path (JArray (vs[i := v])) q = None"
proof (cases q)
  case (Cons t ts)
  show ?thesis
  proof (cases "array_index t (length vs)")
    case (Some j)
    then have "j < length vs" "lookup_path (vs ! j) ts = None"
      using assms(1) Cons array_index_Some by auto
    then show ?thesis using Some Cons assms(2) by (cases "i = j") simp_all
  qed (use Cons in simp)
qed (use assms in simp)

lemma lookup_JNull: "lookup_path node r = None \<Longrightarrow> lookup_path JNull r = None"
  by (cases r) simp_all

lemma lookup_None_removed:
  "lookup_path node q = None \<Longrightarrow> lookup_path (removeByTokens node ts) q = None"
proof (induction node ts arbitrary: q rule: removeByTokens.induct)
  case (2 m token)
  then show ?case by (cases q) (auto split: option.splits)
next
  case (3 m token t ts)
  then show ?case by (cases q) (auto split: option.splits)
next
  case (4 vs token)
  then show ?case
    using lookup_None_update [OF _ lookup_JNull] by (cases "array_index token (length vs)") simp_all
next
  case (5 vs token t ts)
  show ?case
  proof (cases "array_index token (length vs)")
    case (Some i)
    then show ?thesis using lookup_None_update [OF 5(2) 5(1) [OF Some]] by simp
  qed (use 5 in simp)
qed auto

text \<open>Only the section the first token names is touched.\<close>

lemma removeByTokens_frame:
  "k \<noteq> t \<Longrightarrow> removeByTokens (JObject m) (t # ts) = JObject m' \<Longrightarrow> map_of m' k = map_of m k"
  by (cases ts) (auto split: option.splits)

section \<open>What the passes keep\<close>

lemma fold_removed_absent:
  "lookup_path root q = None \<Longrightarrow> lookup_path (fold (\<lambda>ptr r. removeJSONPointer r ptr) ptrs root) q = None"
  by (induction ptrs arbitrary: root) (simp_all add: removeJSONPointer_def lookup_None_removed)

lemma fold_paths_absent:
  "lookup_path root q = None \<Longrightarrow> lookup_path (fold (\<lambda>jp r. removeJSONPath r jp) jps root) q = None"
proof (induction jps arbitrary: root)
  case (Cons jp jps)
  have "lookup_path (removeJSONPath root jp) q = None"
    using Cons.prems by (auto simp: removeJSONPath_def lookup_None_removed split: option.split)
  then show ?case using Cons.IH by simp
qed simp

lemma fold_removes_each:
  "ptr \<in> set ptrs \<Longrightarrow> (\<And>r. lookup_path (removeJSONPointer r ptr) q = None) \<Longrightarrow>
   lookup_path (fold (\<lambda>ptr r. removeJSONPointer r ptr) ptrs root) q = None"
  by (induction ptrs arbitrary: root) (auto simp: fold_removed_absent)

lemma Scrub_absent:
  "lookup_path v q = None \<Longrightarrow> ''redacted'' \<notin> set q \<Longrightarrow> ''reason'' \<notin> set q \<Longrightarrow> lookup_path (Scrub keys v) q = None"
proof (induction v q rule: lookup_path.induct)
  case (2 m t ts)
  have red: "lookup_path redactedValue ts = None" if "ts \<noteq> []"
    using that 2(3,4) by (cases ts) (auto simp: redactedValue_def)
  have "map_of (map (\<lambda>(k, v). (k, f k v)) m) t = map_option (f t) (map_of m t)" for f :: "string \<Rightarrow> any \<Rightarrow> any"
    by (induction m) auto
  then show ?case using 2 red by (cases "map_of m t"; cases "ts = []") auto
next
  case (3 vs t ts)
  then show ?case by (cases "array_index t (length vs)") (auto dest: array_index_Some)
qed auto

lemma lookup_removed_key:
  "ts \<noteq> [] \<Longrightarrow> Atoi (last ts) = None \<Longrightarrow> lookup_path (removeByTokens node ts) ts = None"
proof (induction node ts rule: removeByTokens.induct)
  case (3 m token t ts)
  then show ?case by (cases "map_of m token") auto
next
  case (4 vs token)
  then show ?case by (simp add: array_index_def)
next
  case (5 vs token t ts)
  then show ?case by (cases "array_index token (length vs)") (auto dest: array_index_Some)
qed auto

lemma stamp_absent_meta:
  "k \<noteq> ''annotations'' \<Longrightarrow> lookup_path (JObject root) [''metadata'', k] = None \<Longrightarrow>
   lookup_path (JObject (stampCollectedGeneration gen root)) [''metadata'', k] = None"
  by (auto simp: stampCollectedGeneration_def Let_def split: option.splits any.splits)

lemma stamp_absent_annotation:
  "k \<noteq> AnnotationCollectedGeneration \<Longrightarrow> lookup_path (JObject root) [''metadata'', ''annotations'', k] = None \<Longrightarrow>
   lookup_path (JObject (stampCollectedGeneration gen root)) [''metadata'', ''annotations'', k] = None"
  by (auto simp: stampCollectedGeneration_def Let_def split: option.splits any.splits)

text \<open>The path passes and the scrubber map objects to objects.\<close>

definition is_object :: "any \<Rightarrow> bool" where
  "is_object v \<longleftrightarrow> (\<exists>m. v = JObject m)"

lemma is_object_removeByTokens: "is_object v \<Longrightarrow> is_object (removeByTokens v ts)"
  using removeByTokens_object by (auto simp: is_object_def)

lemma is_object_pointers: "is_object v \<Longrightarrow> is_object (fold (\<lambda>ptr r. removeJSONPointer r ptr) ptrs v)"
  by (induction ptrs arbitrary: v) (simp_all add: removeJSONPointer_def is_object_removeByTokens)

lemma is_object_paths: "is_object v \<Longrightarrow> is_object (fold (\<lambda>jp r. removeJSONPath r jp) jps v)"
proof (induction jps arbitrary: v)
  case (Cons jp jps)
  have "is_object (removeJSONPath v jp)"
    using Cons.prems by (auto simp: removeJSONPath_def is_object_removeByTokens split: option.split)
  then show ?case using Cons.IH by simp
qed simp

lemma is_object_prune_paths: "is_object v \<Longrightarrow> is_object (prune_paths p v)"
  by (simp add: prune_paths_def Let_def is_object_pointers is_object_paths split: option.split)

lemma as_object_id: "is_object v \<Longrightarrow> JObject (as_object v old) = v"
  by (auto simp: is_object_def as_object_def)

text \<open>The object before the stamp.\<close>

definition pruned_value :: "obj \<Rightarrow> ExportSpec \<Rightarrow> Scrubber option \<Rightarrow> any" where
  "pruned_value object export scrubber =
     (let v = prune_paths (es_Prune export) (JObject (included_object object export))
      in case scrubber of None \<Rightarrow> v | Some s \<Rightarrow> Scrub s v)"

lemma PruneResource_eq:
  obtains root where "pruned_value object export scrubber = JObject root"
    "PruneResource gen object export scrubber = stampCollectedGeneration gen root"
proof -
  let ?r = "included_object object export"
  have "is_object (prune_paths (es_Prune export) (JObject ?r))"
    by (rule is_object_prune_paths) (simp add: is_object_def)
  then obtain m where m: "prune_paths (es_Prune export) (JObject ?r) = JObject m"
    unfolding is_object_def by blast
  show thesis
  proof (rule that)
    show "pruned_value object export scrubber = JObject (case scrubber of None \<Rightarrow> m | Some s \<Rightarrow> scrubMap s m)"
      using m by (simp add: pruned_value_def Let_def scrubMap_def split: option.split)
    show "PruneResource gen object export scrubber
        = stampCollectedGeneration gen (case scrubber of None \<Rightarrow> m | Some s \<Rightarrow> scrubMap s m)"
      using m by (simp add: PruneResource_def Let_def as_object_def scrubMap_def split: option.split)
  qed
qed

lemma builtin_tokens:
  "map pointer_tokens builtinPrunePointers =
     [[''metadata'', ''managedFields''], [''metadata'', ''resourceVersion''], [''metadata'', ''generation''],
      [''metadata'', ''annotations'', ''kubectl.kubernetes.io/last-applied-configuration''],
      [''metadata'', ''annotations'', ''argocd.argoproj.io/tracking-id'']]"
  by code_simp

lemma Atoi_letter: "\<not> is_digit c \<Longrightarrow> c \<noteq> CHR ''-'' \<Longrightarrow> c \<noteq> CHR ''+'' \<Longrightarrow> Atoi (c # s) = None"
  by (auto simp: Atoi_def Let_def HasPrefix_iff)

lemma builtin_last: "list_all (\<lambda>q. q \<noteq> [] \<and> Atoi (last q) = None) (map pointer_tokens builtinPrunePointers)"
  unfolding builtin_tokens by (simp add: Atoi_letter is_digit_def less_eq_char_def)

section \<open>Properties\<close>

lemma prune_paths_absent:
  assumes "DefaultsEnabled p" "ptr \<in> set builtinPrunePointers"
  shows "lookup_path (prune_paths p root) (pointer_tokens ptr) = None"
proof -
  have "lookup_path (removeJSONPointer r ptr) (pointer_tokens ptr) = None" for r
    using assms(2) builtin_last by (simp add: removeJSONPointer_def list_all_iff lookup_removed_key)
  then have "lookup_path (fold (\<lambda>ptr r. removeJSONPointer r ptr) builtinPrunePointers root) (pointer_tokens ptr) = None"
    by (rule fold_removes_each [OF assms(2)])
  then show ?thesis using assms(1)
    by (simp add: prune_paths_def Let_def fold_removed_absent fold_paths_absent split: option.split)
qed

text \<open>C11. With the default pruning on, none of the built-in noise fields is in the exported copy,
  whatever the object holds, whatever sections are included and whatever is scrubbed or stamped.\<close>

theorem prune_builtin_noise_absent:
  assumes "DefaultsEnabled (es_Prune export)" "ptr \<in> set builtinPrunePointers"
  shows "lookup_path (JObject (PruneResource gen object export scrubber)) (pointer_tokens ptr) = None"
proof -
  have tok: "pointer_tokens ptr \<in> set (map pointer_tokens builtinPrunePointers)" using assms(2) by simp
  have "list_all (\<lambda>q. ''redacted'' \<notin> set q \<and> ''reason'' \<notin> set q) (map pointer_tokens builtinPrunePointers)"
    unfolding builtin_tokens by simp
  then have "''redacted'' \<notin> set (pointer_tokens ptr)" "''reason'' \<notin> set (pointer_tokens ptr)"
    using assms(2) by (simp_all add: list_all_iff)
  then have v: "lookup_path (pruned_value object export scrubber) (pointer_tokens ptr) = None"
    using prune_paths_absent [OF assms]
    by (simp add: pruned_value_def Let_def Scrub_absent split: option.split)
  obtain root where r: "pruned_value object export scrubber = JObject root"
    "PruneResource gen object export scrubber = stampCollectedGeneration gen root" by (rule PruneResource_eq)
  from tok consider k where "pointer_tokens ptr = [''metadata'', k]" "k \<noteq> ''annotations''"
    | k where "pointer_tokens ptr = [''metadata'', ''annotations'', k]" "k \<noteq> AnnotationCollectedGeneration"
    unfolding builtin_tokens by (simp only: list.set insert_iff empty_iff) (elim disjE; simp add: AnnotationCollectedGeneration_def)
  then show ?thesis
  proof cases
    case 1
    show ?thesis unfolding r(2) 1(1) by (rule stamp_absent_meta [OF 1(2)]) (use v r(1) 1(1) in metis)
  next
    case 2
    show ?thesis unfolding r(2) 2(1) by (rule stamp_absent_annotation [OF 2(2)]) (use v r(1) 2(1) in metis)
  qed
qed

definition example_export :: ExportSpec where
  "example_export = \<lparr>es_Mode = ''Resource'', es_As = [], es_Include = ''All'', es_DedupeIdentity = None, es_Prune = None\<rparr>"

definition example_object :: obj where
  "example_object = [(''kind'', JString ''Deployment''),
     (''metadata'', JObject [(''name'', JString ''web''), (''managedFields'', JArray [])]), (''spec'', JObject [])]"

theorem prune_builtin_noise_absent_witness:
  "lookup_path (JObject (PruneResource 4 example_object example_export (Some (NewScrubber []))))
     (pointer_tokens ''/metadata/managedFields'') = None"
  by (rule prune_builtin_noise_absent)
     (simp_all add: DefaultsEnabled_def example_export_def builtinPrunePointers_def)

lemma lookup_metadata_Scrub:
  "lookup_path (JObject m) [''metadata''] = Some (JObject a) \<Longrightarrow> \<exists>b. lookup_path (Scrub s (JObject m)) [''metadata''] = Some (JObject b)"
proof -
  assume *: "lookup_path (JObject m) [''metadata''] = Some (JObject a)"
  have "map_of (map (\<lambda>(k, v). (k, f k v)) m) t = map_option (f t) (map_of m t)" for f :: "string \<Rightarrow> any \<Rightarrow> any" and t
    by (induction m) auto
  then show ?thesis using * by (auto simp: redactedValue_def split: option.splits)
qed

lemma stamp_present:
  "lookup_path (JObject root) [''metadata''] = Some (JObject a) \<Longrightarrow>
   lookup_path (JObject (stampCollectedGeneration gen root)) [''metadata'', ''annotations'', AnnotationCollectedGeneration]
     = Some (JString (show_int gen))"
  by (auto simp: stampCollectedGeneration_def Let_def split: option.splits)

text \<open>The stamp survives: when a metadata object is left after include selection and pruning, the
  exported copy carries the source object's generation in its annotation, whatever the scrub rules are.\<close>

theorem prune_stamp_survives:
  assumes "lookup_path (prune_paths (es_Prune export) (JObject (included_object object export))) [''metadata'']
             = Some (JObject meta)"
  shows "lookup_path (JObject (PruneResource gen object export scrubber))
           [''metadata'', ''annotations'', AnnotationCollectedGeneration] = Some (JString (show_int gen))"
proof -
  let ?v = "prune_paths (es_Prune export) (JObject (included_object object export))"
  obtain root where r: "pruned_value object export scrubber = JObject root"
    "PruneResource gen object export scrubber = stampCollectedGeneration gen root" by (rule PruneResource_eq)
  have "is_object ?v" by (rule is_object_prune_paths) (simp add: is_object_def)
  then obtain m where m: "?v = JObject m" unfolding is_object_def by blast
  have "\<exists>b. lookup_path (JObject root) [''metadata''] = Some (JObject b)"
  proof (cases scrubber)
    case None
    then show ?thesis using assms r(1) m by (simp add: pruned_value_def)
  next
    case (Some s)
    then have "JObject root = Scrub s (JObject m)" using r(1) m by (simp add: pruned_value_def)
    then show ?thesis using lookup_metadata_Scrub assms m by metis
  qed
  then show ?thesis unfolding r(2) using stamp_present by blast
qed

theorem prune_stamp_survives_witness:
  "lookup_path (JObject (PruneResource 4 example_object example_export (Some (NewScrubber [''metadata'']))))
     [''metadata'', ''annotations'', AnnotationCollectedGeneration] = Some (JString ''4'')"
proof -
  have "fold (\<lambda>ptr r. removeJSONPointer r ptr) builtinPrunePointers root
      = fold (\<lambda>q r. removeByTokens r q) (map pointer_tokens builtinPrunePointers) root" for root
    by (simp add: fold_map comp_def removeJSONPointer_def)
  then have "lookup_path (prune_paths (es_Prune example_export) (JObject (included_object example_object example_export)))
      [''metadata''] = Some (JObject [])"
    unfolding builtin_tokens
    by (simp add: prune_paths_def DefaultsEnabled_def example_export_def included_object_def IncludeOrDefault_def
        DedupeIdentityEnabled_def selectIncludeSections_def ExportIncludeAll_def dropEnvelopeIdentity_def example_object_def)
  from prune_stamp_survives [OF this, of 4 "Some (NewScrubber [''metadata''])"]
  moreover have "show_int 4 = ''4''" by (simp add: show_int_def show_nat.simps digit_char_def char_of_eq_iff)
  ultimately show ?thesis by (simp only:)
qed

text \<open>A JSON pointer removes what it addresses and nothing beside it: afterwards the path leads to
  no value, or to nil where it addressed a slice element; paths that led nowhere still do, and the
  sections the first token does not name are unchanged.\<close>

theorem remove_pointer_exact:
  assumes "pointer_tokens p = t # ts"
  shows "lookup_path (removeJSONPointer root p) (t # ts) \<in> {None, Some JNull}
     \<and> (\<forall>q. lookup_path root q = None \<longrightarrow> lookup_path (removeJSONPointer root p) q = None)
     \<and> (\<forall>m k. root = JObject m \<and> k \<noteq> t \<longrightarrow> lookup_path (removeJSONPointer root p) [k] = lookup_path root [k])"
proof (intro conjI allI impI)
  show "lookup_path (removeJSONPointer root p) (t # ts) \<in> {None, Some JNull}"
    unfolding removeJSONPointer_def assms by (rule lookup_removed) simp
  show "lookup_path root q = None \<Longrightarrow> lookup_path (removeJSONPointer root p) q = None" for q
    by (simp add: removeJSONPointer_def lookup_None_removed)
  fix m k assume *: "root = JObject m \<and> k \<noteq> t"
  obtain m' where "removeByTokens (JObject m) (t # ts) = JObject m'" using removeByTokens_object by blast
  then show "lookup_path (removeJSONPointer root p) [k] = lookup_path root [k]"
    using removeByTokens_frame [of k t m ts m'] * by (simp add: removeJSONPointer_def assms)
qed

theorem remove_pointer_exact_witness:
  "lookup_path (removeJSONPointer (JObject example_object) ''/metadata/name'') [''spec''] = Some (JObject [])
   \<and> lookup_path (removeJSONPointer (JObject example_object) ''/metadata/name'') [''metadata'', ''name''] \<in> {None, Some JNull}"
proof -
  have t: "pointer_tokens ''/metadata/name'' = [''metadata'', ''name'']" by code_simp
  have "lookup_path (JObject example_object) [''spec''] = Some (JObject [])" by (simp add: example_object_def)
  then show ?thesis using remove_pointer_exact [OF t, of "JObject example_object"] by simp
qed

end
