(* ===== verification/Api.thy ===== *)
theory Api
  imports Prune
begin

text \<open>
  The resource types of \<open>src/api/v1alpha1\<close> that the collection side reads, as records with the
  fields the code uses, and the Kubernetes values they refer to. Label selectors are data here;
  what a selector matches is decided by \<open>metav1.LabelSelectorAsSelector\<close> and
  \<open>labels.Everything\<close>, the kind-to-resource guess by \<open>meta.UnsafeGuessKindToResource\<close>,
  group and resource are printed by \<open>schema.GroupResource.String\<close>, nested fields are read by \<open>unstructured.NestedFieldCopy\<close> and \<open>NestedFieldNoCopy\<close>, which return the same
  value (\<open>None\<close> is not found): these belong to apimachinery and are the fields of the parameter \<open>apimachinery\<close>. A \<open>labels.Selector\<close> is the function from labels to bool it stands
  for. A CEL environment is a function from expressions to what compiling (and then building a
  program) gives, and a program a function from the object to a result or an error.
\<close>

section \<open>Kubernetes values\<close>

type_synonym labels = "(string, string) gomap"

record LabelSelectorRequirement =
  lsr_Key :: string
  lsr_Operator :: string
  lsr_Values :: "string list"

record LabelSelector =
  ls_MatchLabels :: labels
  ls_MatchExpressions :: "LabelSelectorRequirement list"

type_synonym Selector = "labels \<Rightarrow> bool"

record GroupVersionKind =
  gvk_Group :: string
  gvk_Version :: string
  gvk_Kind :: string

record GroupVersionResource =
  gvr_Group :: string
  gvr_Version :: string
  gvr_Resource :: string

record apimachinery =
  LabelSelectorAsSelector :: "LabelSelector \<Rightarrow> string + Selector"
  Everything :: Selector
  UnsafeGuessKindToResource :: "GroupVersionKind \<Rightarrow> GroupVersionResource"
  GroupResource_String :: "string \<Rightarrow> string \<Rightarrow> string"
  NestedField :: "obj \<Rightarrow> string list \<Rightarrow> string + any option"

text \<open>
  An \<open>unstructured.Unstructured\<close>: its content and what the accessors the code calls return.
\<close>

record unstructured =
  u_Object :: obj
  GetNamespace :: string
  GetName :: string
  GetUID :: string
  GetAPIVersion :: string
  GetKind :: string
  GetResourceVersion :: string
  GetGeneration :: int
  GetLabels :: labels

text \<open>
  The values of CEL: booleans, null, and every other value with its Go value and what converting
  it to a bool gives.
\<close>

datatype cel_val = Cel_Bool bool | Cel_Null | Cel_Val any "bool option"

type_synonym cel_program = "obj \<Rightarrow> string + cel_val"
type_synonym cel_env = "string \<Rightarrow> string + (string + cel_program)"

section \<open>Constants\<close>

definition LabelWatch :: string where "LabelWatch = ''kollect.dev/watch''"
definition AnnotationNamespaceWatch :: string where "AnnotationNamespaceWatch = ''kollect.dev/namespace-watch''"
definition WatchValueEnabled :: string where "WatchValueEnabled = ''enabled''"
definition WatchValueDisabled :: string where "WatchValueDisabled = ''disabled''"
definition WatchModeAll :: string where "WatchModeAll = ''All''"
definition WatchModeOptIn :: string where "WatchModeOptIn = ''OptIn''"
definition SinkFamilySnapshot :: string where "SinkFamilySnapshot = ''snapshot''"
definition SinkFamilyDatabase :: string where "SinkFamilyDatabase = ''database''"
definition SinkFamilyEvent :: string where "SinkFamilyEvent = ''event''"

lemmas api_consts = LabelWatch_def AnnotationNamespaceWatch_def WatchValueEnabled_def
  WatchValueDisabled_def WatchModeAll_def WatchModeOptIn_def SinkFamilySnapshot_def
  SinkFamilyDatabase_def SinkFamilyEvent_def

section \<open>Collection filters\<close>

record ResourceRule =
  rule_GVK :: GroupVersionKind
  rule_NamespaceSelector :: "LabelSelector option"
  rule_MatchLabels :: labels
  rule_MatchExpressions :: "LabelSelectorRequirement list"
  rule_MatchPolicy :: string

record CollectionFilterSpec =
  IncludedNamespaces :: "string list"
  ExcludedNamespaces :: "string list"
  NamespaceExcludeSelector :: "LabelSelector option"
  ResourceRules :: "ResourceRule list"

record CollectionFilterStatus =
  MatchedNamespaces :: "string list"
  st_EffectiveNamespaces :: "string list"
  ActiveResourceRules :: nat

record ScopeCeilingSpec =
  AllowedGVKs :: "GroupVersionKind list"
  sc_AllowedNamespaces :: "string list"
  sc_DeniedNamespaces :: "string list"
  MinExportInterval :: "int option"

section \<open>Profiles and targets\<close>

record AttributeSpec =
  attr_Name :: string
  attr_Path :: string
  attr_Type :: string
  attr_Optional :: bool

record MetricSpec =
  metric_Name :: string
  metric_Path :: string
  metric_Labels :: "string list"

record KollectProfileSpec =
  TargetGVK :: GroupVersionKind
  Attributes :: "AttributeSpec list"
  prof_Export :: "ExportSpec option"
  prof_Metrics :: "MetricSpec list"

record KollectProfile =
  prof_Namespace :: string
  prof_Name :: string
  prof_Generation :: int
  prof_Spec :: KollectProfileSpec

record KollectTargetSpec =
  ProfileRef :: string
  t_NamespaceSelector :: "LabelSelector option"
  t_Filter :: CollectionFilterSpec
  t_LabelSelector :: "LabelSelector option"
  t_Names :: "string list"
  t_Suspend :: bool
  WatchMode :: string

record KollectTarget =
  t_Namespace :: string
  t_Name :: string
  t_Generation :: int
  t_Spec :: KollectTargetSpec

record NamespacedObjectReference =
  ref_Name :: string
  ref_Namespace :: string

definition EffectiveNamespace :: "NamespacedObjectReference \<Rightarrow> string \<Rightarrow> string" where
  "EffectiveNamespace r defaultNamespace =
     (if TrimSpace (ref_Namespace r) \<noteq> [] then ref_Namespace r else defaultNamespace)"

definition ref_IsZero :: "NamespacedObjectReference \<Rightarrow> bool" where
  "ref_IsZero r \<longleftrightarrow> TrimSpace (ref_Name r) = [] \<and> TrimSpace (ref_Namespace r) = []"

record KollectClusterTargetSpec =
  ct_ProfileRef :: NamespacedObjectReference
  ct_NamespaceSelector :: "LabelSelector option"
  ct_Filter :: CollectionFilterSpec
  ct_Suspend :: bool

section \<open>Scopes\<close>

record KollectScopeSpec =
  ks_Ceiling :: ScopeCeilingSpec
  ks_SnapshotSinkRefs :: "string list"
  ks_DatabaseSinkRefs :: "string list"
  ks_EventSinkRefs :: "string list"

record KollectScope =
  ks_Name :: string
  ks_Spec :: KollectScopeSpec

record KollectClusterScopeSpec =
  kcs_Ceiling :: ScopeCeilingSpec
  kcs_SnapshotSinkRefs :: "string list"
  kcs_DatabaseSinkRefs :: "string list"
  kcs_EventSinkRefs :: "string list"
  AllowedStaticRefNamespaces :: "string list"

record KollectClusterScope =
  kcs_Name :: string
  kcs_Spec :: KollectClusterScopeSpec

section \<open>Inventories and their sink references\<close>

record InventorySinkRef =
  isr_Name :: string
  isr_Namespace :: string
  isr_ExportMinInterval :: "int option"
  isr_MaxExportBytes :: "int option"

type_synonym InventorySinkRefList = "InventorySinkRef list"

definition Names :: "InventorySinkRefList \<Rightarrow> string list" where
  "Names l = map isr_Name (filter (\<lambda>ref. isr_Name ref \<noteq> []) l)"

definition NewSinkRefList :: "string list \<Rightarrow> InventorySinkRefList" where
  "NewSinkRefList names = map (\<lambda>name. \<lparr>isr_Name = name, isr_Namespace = [],
     isr_ExportMinInterval = None, isr_MaxExportBytes = None\<rparr>) names"

record KollectInventorySpec =
  inv_SnapshotSinkRefs :: InventorySinkRefList
  inv_DatabaseSinkRefs :: InventorySinkRefList
  inv_EventSinkRefs :: InventorySinkRefList
  inv_ExportMinInterval :: "int option"
  inv_MaxExportBytes :: "int option"
  inv_Suspend :: bool

record KollectClusterInventorySpec =
  cinv_ProfileRef :: "NamespacedObjectReference option"
  cinv_TargetRefs :: "string list"
  cinv_TargetSelector :: "LabelSelector option"
  cinv_NamespaceSelector :: "LabelSelector option"
  cinv_Namespaces :: "string list"
  cinv_SnapshotSinkRefs :: InventorySinkRefList
  cinv_DatabaseSinkRefs :: InventorySinkRefList
  cinv_EventSinkRefs :: InventorySinkRefList
  cinv_SinkNamespace :: string
  cinv_ExportMinInterval :: "int option"
  cinv_Dedupe :: string
  cinv_Suspend :: bool

record InventorySinkBinding =
  isb_Name :: string
  isb_Family :: string
  isb_Ref :: InventorySinkRef

definition append_bindings :: "string \<Rightarrow> InventorySinkRefList \<Rightarrow> InventorySinkBinding list" where
  "append_bindings family refs =
     map (\<lambda>ref. \<lparr>isb_Name = isr_Name ref, isb_Family = family, isb_Ref = ref\<rparr>) refs"

definition collectSinkBindings ::
  "InventorySinkRefList \<Rightarrow> InventorySinkRefList \<Rightarrow> InventorySinkRefList \<Rightarrow> InventorySinkBinding list" where
  "collectSinkBindings snapshot database event =
     append_bindings SinkFamilySnapshot snapshot @ append_bindings SinkFamilyDatabase database
       @ append_bindings SinkFamilyEvent event"

definition CollectInventorySinkBindings :: "KollectInventorySpec \<Rightarrow> InventorySinkBinding list" where
  "CollectInventorySinkBindings spec =
     collectSinkBindings (inv_SnapshotSinkRefs spec) (inv_DatabaseSinkRefs spec) (inv_EventSinkRefs spec)"

definition CollectClusterInventorySinkBindings :: "KollectClusterInventorySpec \<Rightarrow> InventorySinkBinding list" where
  "CollectClusterInventorySinkBindings spec =
     collectSinkBindings (cinv_SnapshotSinkRefs spec) (cinv_DatabaseSinkRefs spec) (cinv_EventSinkRefs spec)"

definition TotalInventorySinkRefCount :: "KollectInventorySpec option \<Rightarrow> nat" where
  "TotalInventorySinkRefCount s = (case s of None \<Rightarrow> 0 | Some spec \<Rightarrow>
     length (inv_SnapshotSinkRefs spec) + length (inv_DatabaseSinkRefs spec) + length (inv_EventSinkRefs spec))"

definition TotalClusterInventorySinkRefCount :: "KollectClusterInventorySpec option \<Rightarrow> nat" where
  "TotalClusterInventorySinkRefCount s = (case s of None \<Rightarrow> 0 | Some spec \<Rightarrow>
     length (cinv_SnapshotSinkRefs spec) + length (cinv_DatabaseSinkRefs spec) + length (cinv_EventSinkRefs spec))"

definition AllInventorySinkRefLists :: "KollectInventorySpec option \<Rightarrow> InventorySinkRefList list" where
  "AllInventorySinkRefLists s = (case s of None \<Rightarrow> [] | Some spec \<Rightarrow>
     [inv_SnapshotSinkRefs spec, inv_DatabaseSinkRefs spec, inv_EventSinkRefs spec])"

definition AllClusterInventorySinkRefLists :: "KollectClusterInventorySpec option \<Rightarrow> InventorySinkRefList list" where
  "AllClusterInventorySinkRefLists s = (case s of None \<Rightarrow> [] | Some spec \<Rightarrow>
     [cinv_SnapshotSinkRefs spec, cinv_DatabaseSinkRefs spec, cinv_EventSinkRefs spec])"

definition ClusterInventoryUsesClusterSinks :: "KollectClusterInventorySpec option \<Rightarrow> bool" where
  "ClusterInventoryUsesClusterSinks s \<longleftrightarrow> s \<noteq> None \<and> 0 < TotalClusterInventorySinkRefCount s"

lemma length_collect_bindings:
  "length (CollectInventorySinkBindings spec) = TotalInventorySinkRefCount (Some spec)"
  "length (CollectClusterInventorySinkBindings cspec) = TotalClusterInventorySinkRefCount (Some cspec)"
  by (simp_all add: CollectInventorySinkBindings_def CollectClusterInventorySinkBindings_def
      collectSinkBindings_def append_bindings_def TotalInventorySinkRefCount_def
      TotalClusterInventorySinkRefCount_def)

lemma binding_name: "b \<in> set (collectSinkBindings s d e) \<Longrightarrow> isb_Name b = isr_Name (isb_Ref b)"
  by (auto simp: collectSinkBindings_def append_bindings_def)

end
