(* ===== verification/Collection_Filter.thy ===== *)
theory Collection_Filter
  imports Api
begin

text \<open>
  Collection filters, \<open>src/internal/collect/collection_filter.go\<close>, \<open>filter.go\<close> and
  \<open>namespace_scope.go\<close>: which namespaces a target means and may use, which objects its resource
  rules select, and the watch labels. Ranging over a Go map is ranging over its association list;
  every result built that way is sorted afterwards.
\<close>

section \<open>Types\<close>

record NamespaceMeta =
  nm_Labels :: labels
  nm_Annotations :: "(string, string) gomap"

record NamespaceDefaults =
  def_Included :: "string list"
  def_Excluded :: "string list"

record ScopeCeiling =
  AllowedNamespaces :: "string list"
  DeniedNamespaces :: "string list"

record CompiledResourceRule =
  cr_Rule :: ResourceRule
  cr_GVR :: GroupVersionResource
  cr_NamespaceSel :: "Selector option"
  cr_ResourceSel :: "Selector option"
  cr_MatchPolicyProg :: "cel_program option"

datatype rule_error =
    Rule_GVK_Required nat
  | Rule_NamespaceSelector nat string
  | Rule_Labels nat string
  | Rule_MatchPolicy nat string

section \<open>String lists\<close>

definition containsString :: "string list \<Rightarrow> string \<Rightarrow> bool" where
  "containsString values want = list_ex (\<lambda>v. v = want) values"

text \<open>The loop both helpers share: non-empty strings not seen before, in order.\<close>

fun fresh_strings :: "string list \<Rightarrow> string list \<Rightarrow> string list" where
  "fresh_strings seen [] = []"
| "fresh_strings seen (v # vs) =
     (if v = [] \<or> v \<in> set seen then fresh_strings seen vs else v # fresh_strings (v # seen) vs)"

definition unionStrings :: "string list \<Rightarrow> string list \<Rightarrow> string list" where
  "unionStrings a b = (if a = [] then b else if b = [] then a else fresh_strings [] (a @ b))"

text \<open>
  The exchange sort of \<open>sortedUniqueStrings\<close>: for one position \<open>i\<close>, \<open>exchange_pass\<close> runs the inner
  loop with \<open>out[i]\<close> first and the elements after it, swapping whenever a smaller one is met.
\<close>

fun exchange_pass :: "'a::linorder \<Rightarrow> 'a list \<Rightarrow> 'a \<times> 'a list" where
  "exchange_pass x [] = (x, [])"
| "exchange_pass x (y # ys) =
     (if y < x then (case exchange_pass y ys of (m, r) \<Rightarrow> (m, x # r))
      else (case exchange_pass x ys of (m, r) \<Rightarrow> (m, y # r)))"

lemma length_exchange_pass: "length (snd (exchange_pass x ys)) = length ys"
  by (induction x ys rule: exchange_pass.induct) (auto split: prod.splits)

function exchange_sort :: "'a::linorder list \<Rightarrow> 'a list" where
  "exchange_sort [] = []"
| "exchange_sort (x # ys) = fst (exchange_pass x ys) # exchange_sort (snd (exchange_pass x ys))"
  by pat_completeness auto
termination by (relation "measure length") (auto simp: length_exchange_pass)

definition sortedUniqueStrings :: "string list \<Rightarrow> string list" where
  "sortedUniqueStrings values = (if values = [] then [] else exchange_sort (fresh_strings [] values))"

section \<open>Namespaces\<close>

definition namespaceMatchesSelector :: "apimachinery \<Rightarrow> LabelSelector option \<Rightarrow> labels \<Rightarrow> bool" where
  "namespaceMatchesSelector am selector nsLabels = (case selector of
     None \<Rightarrow> True
   | Some s \<Rightarrow> (case LabelSelectorAsSelector am s of Inl err \<Rightarrow> False | Inr sel \<Rightarrow> sel nsLabels))"

definition intent_matches ::
  "apimachinery \<Rightarrow> CollectionFilterSpec \<Rightarrow> LabelSelector option \<Rightarrow> NamespaceDefaults \<Rightarrow> string \<Rightarrow> NamespaceMeta \<Rightarrow> bool" where
  "intent_matches am flt namespaceSelector defaults nsName meta =
     (let included = (if IncludedNamespaces flt = [] then def_Included defaults else IncludedNamespaces flt);
          excluded = unionStrings (ExcludedNamespaces flt) (def_Excluded defaults);
          excludeSel = NamespaceExcludeSelector flt
      in \<not> (included \<noteq> [] \<and> \<not> containsString included nsName)
         \<and> namespaceMatchesSelector am namespaceSelector (nm_Labels meta)
         \<and> \<not> containsString excluded nsName
         \<and> \<not> (excludeSel \<noteq> None \<and> namespaceMatchesSelector am excludeSel (nm_Labels meta)))"

definition MatchIntentNamespaces ::
  "apimachinery \<Rightarrow> CollectionFilterSpec \<Rightarrow> LabelSelector option \<Rightarrow> (string, NamespaceMeta) gomap \<Rightarrow> NamespaceDefaults
   \<Rightarrow> string list" where
  "MatchIntentNamespaces am flt namespaceSelector nsMeta defaults =
     sortedUniqueStrings
       (map fst [(nsName, meta) \<leftarrow> nsMeta. intent_matches am flt namespaceSelector defaults nsName meta])"

definition EffectiveNamespaces ::
  "string list \<Rightarrow> ScopeCeiling \<Rightarrow> CollectionFilterSpec \<Rightarrow> NamespaceDefaults \<Rightarrow> string list" where
  "EffectiveNamespaces matched ceiling flt defaults =
     (let excluded = unionStrings (unionStrings (ExcludedNamespaces flt) (def_Excluded defaults))
                       (DeniedNamespaces ceiling);
          allowed = AllowedNamespaces ceiling
      in sortedUniqueStrings
           [ns \<leftarrow> matched. \<not> containsString excluded ns \<and> \<not> (allowed \<noteq> [] \<and> \<not> containsString allowed ns)])"

definition ScopeCeilingFromScope :: "KollectScope option \<Rightarrow> ScopeCeiling" where
  "ScopeCeilingFromScope scope = (case scope of
     None \<Rightarrow> \<lparr>AllowedNamespaces = [], DeniedNamespaces = []\<rparr>
   | Some s \<Rightarrow> \<lparr>AllowedNamespaces = sc_AllowedNamespaces (ks_Ceiling (ks_Spec s)),
                DeniedNamespaces = sc_DeniedNamespaces (ks_Ceiling (ks_Spec s))\<rparr>)"

definition ScopeCeilingFromClusterScope :: "KollectClusterScope option \<Rightarrow> ScopeCeiling" where
  "ScopeCeilingFromClusterScope scope = (case scope of
     None \<Rightarrow> \<lparr>AllowedNamespaces = [], DeniedNamespaces = []\<rparr>
   | Some s \<Rightarrow> \<lparr>AllowedNamespaces = sc_AllowedNamespaces (kcs_Ceiling (kcs_Spec s)),
                DeniedNamespaces = sc_DeniedNamespaces (kcs_Ceiling (kcs_Spec s))\<rparr>)"

definition ComputeFilterStatus ::
  "apimachinery \<Rightarrow> CollectionFilterSpec \<Rightarrow> LabelSelector option \<Rightarrow> (string, NamespaceMeta) gomap \<Rightarrow> ScopeCeiling
   \<Rightarrow> NamespaceDefaults \<Rightarrow> string list \<times> string list \<times> nat" where
  "ComputeFilterStatus am flt namespaceSelector nsMeta ceiling defaults =
     (let matched = MatchIntentNamespaces am flt namespaceSelector nsMeta defaults
      in (matched, EffectiveNamespaces matched ceiling flt defaults, length (ResourceRules flt)))"

definition CeilingRestrictsNamespaces :: "ScopeCeiling \<Rightarrow> bool" where
  "CeilingRestrictsNamespaces ceiling \<longleftrightarrow> AllowedNamespaces ceiling \<noteq> [] \<or> DeniedNamespaces ceiling \<noteq> []"

text \<open>A Go set is a map to the empty struct; nil for no namespaces is the empty map.\<close>

definition EffectiveNamespaceSet :: "string list \<Rightarrow> (string, unit) gomap" where
  "EffectiveNamespaceSet namespaces = fold (\<lambda>ns. AList.update ns ()) namespaces []"

section \<open>Resource rules\<close>

definition gvrFromProfile :: "apimachinery \<Rightarrow> GroupVersionKind \<Rightarrow> GroupVersionResource" where
  "gvrFromProfile am gvk = UnsafeGuessKindToResource am gvk"

definition selectorFromOptional :: "apimachinery \<Rightarrow> LabelSelector option \<Rightarrow> string + Selector" where
  "selectorFromOptional am sel = (case sel of None \<Rightarrow> Inr (Everything am) | Some s \<Rightarrow> LabelSelectorAsSelector am s)"

definition resourceLabelSelector ::
  "apimachinery \<Rightarrow> labels \<Rightarrow> LabelSelectorRequirement list \<Rightarrow> string + Selector" where
  "resourceLabelSelector am matchLabels matchExpressions =
     (if matchLabels = [] \<and> matchExpressions = [] then Inr (Everything am)
      else LabelSelectorAsSelector am \<lparr>ls_MatchLabels = matchLabels, ls_MatchExpressions = matchExpressions\<rparr>)"

definition compileMatchPolicy :: "cel_env \<Rightarrow> string \<Rightarrow> string + cel_program" where
  "compileMatchPolicy env expr =
     (let e = TrimSpace expr in
      if e = [] then Inl ''empty CEL expression''
      else (case env e of Inl issue \<Rightarrow> Inl issue | Inr built \<Rightarrow> built))"

definition evalMatchPolicy :: "cel_program \<Rightarrow> unstructured \<Rightarrow> string + bool" where
  "evalMatchPolicy prog u = (case prog (u_Object u) of
     Inl err \<Rightarrow> Inl err
   | Inr (Cel_Bool b) \<Rightarrow> Inr b
   | Inr (Cel_Val v (Some b)) \<Rightarrow> Inr b
   | Inr _ \<Rightarrow> Inl ''matchPolicy result is not bool'')"

definition compile_rule ::
  "apimachinery \<Rightarrow> cel_env \<Rightarrow> nat \<Rightarrow> ResourceRule \<Rightarrow> rule_error + CompiledResourceRule" where
  "compile_rule am env i rule =
     (if gvk_Version (rule_GVK rule) = [] \<or> gvk_Kind (rule_GVK rule) = [] then Inl (Rule_GVK_Required i)
      else case selectorFromOptional am (rule_NamespaceSelector rule) of
        Inl err \<Rightarrow> Inl (Rule_NamespaceSelector i err)
      | Inr nsSel \<Rightarrow> (case resourceLabelSelector am (rule_MatchLabels rule) (rule_MatchExpressions rule) of
          Inl err \<Rightarrow> Inl (Rule_Labels i err)
        | Inr resSel \<Rightarrow>
            (let done = (\<lambda>prog. \<lparr>cr_Rule = rule, cr_GVR = gvrFromProfile am (rule_GVK rule),
                          cr_NamespaceSel = Some nsSel, cr_ResourceSel = Some resSel,
                          cr_MatchPolicyProg = prog\<rparr>)
             in if TrimSpace (rule_MatchPolicy rule) = [] then Inr (done None)
                else (case compileMatchPolicy env (rule_MatchPolicy rule) of
                        Inl err \<Rightarrow> Inl (Rule_MatchPolicy i err)
                      | Inr prog \<Rightarrow> Inr (done (Some prog))))))"

fun compile_rules ::
  "apimachinery \<Rightarrow> cel_env \<Rightarrow> nat \<Rightarrow> ResourceRule list \<Rightarrow> rule_error + CompiledResourceRule list" where
  "compile_rules am env i [] = Inr []"
| "compile_rules am env i (rule # rules) = (case compile_rule am env i rule of
     Inl err \<Rightarrow> Inl err
   | Inr c \<Rightarrow> (case compile_rules am env (Suc i) rules of Inl err \<Rightarrow> Inl err | Inr cs \<Rightarrow> Inr (c # cs)))"

definition CompileResourceRules ::
  "apimachinery \<Rightarrow> ResourceRule list \<Rightarrow> cel_env \<Rightarrow> rule_error + CompiledResourceRule list" where
  "CompileResourceRules am rules env = compile_rules am env 0 rules"

definition resourceMatchesLegacy ::
  "apimachinery \<Rightarrow> unstructured \<Rightarrow> KollectTarget \<Rightarrow> KollectProfile \<Rightarrow> GroupVersionResource \<Rightarrow> bool" where
  "resourceMatchesLegacy am u target profile gvr \<longleftrightarrow>
     gvrFromProfile am (TargetGVK (prof_Spec profile)) = gvr
     \<and> (t_Names (t_Spec target) = [] \<or> list_ex (\<lambda>n. n = GetName u) (t_Names (t_Spec target)))
     \<and> (case t_LabelSelector (t_Spec target) of
          None \<Rightarrow> True
        | Some s \<Rightarrow> (case LabelSelectorAsSelector am s of Inl err \<Rightarrow> False | Inr sel \<Rightarrow> sel (GetLabels u)))"

definition NamespaceDefault :: string where "NamespaceDefault = ''default''"

definition rule_matches :: "unstructured \<Rightarrow> GroupVersionResource \<Rightarrow> labels \<Rightarrow> CompiledResourceRule \<Rightarrow> bool" where
  "rule_matches u gvr nsLabels rule \<longleftrightarrow>
     cr_GVR rule = gvr
     \<and> (case cr_NamespaceSel rule of None \<Rightarrow> True | Some sel \<Rightarrow> sel nsLabels)
     \<and> (case cr_ResourceSel rule of None \<Rightarrow> True | Some sel \<Rightarrow> sel (GetLabels u))
     \<and> (case cr_MatchPolicyProg rule of None \<Rightarrow> True | Some prog \<Rightarrow> evalMatchPolicy prog u = Inr True)"

definition meta_for :: "(string, NamespaceMeta) gomap \<Rightarrow> string \<Rightarrow> NamespaceMeta" where
  "meta_for nsMeta ns = map_get_or \<lparr>nm_Labels = [], nm_Annotations = []\<rparr> nsMeta ns"

definition ResourceMatchesRules ::
  "apimachinery \<Rightarrow> unstructured \<Rightarrow> GroupVersionResource \<Rightarrow> KollectTarget \<Rightarrow> KollectProfile
   \<Rightarrow> CompiledResourceRule list \<Rightarrow> (string, NamespaceMeta) gomap \<Rightarrow> bool" where
  "ResourceMatchesRules am u gvr target profile rules nsMeta =
     (if rules = [] then resourceMatchesLegacy am u target profile gvr
      else (let ns = (if GetNamespace u = [] then NamespaceDefault else GetNamespace u);
                meta = meta_for nsMeta ns
            in list_ex (rule_matches u gvr (nm_Labels meta)) rules))"

section \<open>Watch labels\<close>

definition ShouldCollect :: "labels \<Rightarrow> NamespaceMeta \<Rightarrow> KollectTarget \<Rightarrow> bool" where
  "ShouldCollect resourceLabels ns target =
     (let watchMode = (if WatchMode (t_Spec target) = [] then WatchModeAll else WatchMode (t_Spec target));
          res = map_get_or [] resourceLabels LabelWatch;
          nsl = map_get_or [] (nm_Labels ns) LabelWatch;
          nsa = map_get_or [] (nm_Annotations ns) AnnotationNamespaceWatch;
          nsDisabled = (nsl = WatchValueDisabled \<or> nsa = WatchValueDisabled);
          nsEnabled = (nsl = WatchValueEnabled \<or> nsa = WatchValueEnabled)
      in if res = WatchValueDisabled then False
         else if res = WatchValueEnabled then True
         else if nsDisabled then False
         else if watchMode = WatchModeOptIn then nsEnabled
         else True)"

section \<open>The string lists are sets\<close>

lemma containsString_iff [simp]: "containsString values want \<longleftrightarrow> want \<in> set values"
  by (auto simp: containsString_def list_ex_iff)

lemma set_fresh_strings: "set (fresh_strings seen vs) = set vs - {[]} - set seen"
  by (induction seen vs rule: fresh_strings.induct) auto

lemma distinct_fresh_strings: "distinct (fresh_strings seen vs)"
  by (induction seen vs rule: fresh_strings.induct) (auto simp: set_fresh_strings)

lemma in_unionStrings: "x \<noteq> [] \<Longrightarrow> x \<in> set (unionStrings a b) \<longleftrightarrow> x \<in> set a \<or> x \<in> set b"
  by (auto simp: unionStrings_def set_fresh_strings)

lemma exchange_pass_Cons:
  "exchange_pass x (y # ys) =
     (if y < x then (fst (exchange_pass y ys), x # snd (exchange_pass y ys))
      else (fst (exchange_pass x ys), y # snd (exchange_pass x ys)))"
  by (simp split: prod.split)

lemma set_exchange_pass: "insert (fst (exchange_pass x ys)) (set (snd (exchange_pass x ys))) = insert x (set ys)"
proof (induction ys arbitrary: x)
  case (Cons y ys)
  show ?case
  proof (cases "y < x")
    case True
    then show ?thesis unfolding exchange_pass_Cons
      using Cons.IH [of y] by (simp only: if_True fst_conv snd_conv list.set) (simp only: insert_commute)
  next
    case False
    then show ?thesis unfolding exchange_pass_Cons
      by (simp only: if_False fst_conv snd_conv list.set) (simp only: insert_commute [of _ y] Cons.IH [of x])
  qed
qed simp

lemma distinct_exchange_pass:
  "distinct (x # ys) \<Longrightarrow> distinct (fst (exchange_pass x ys) # snd (exchange_pass x ys))"
proof -
  let ?zs = "fst (exchange_pass x ys) # snd (exchange_pass x ys)"
  assume "distinct (x # ys)"
  then have "card (set (x # ys)) = length (x # ys)" by (rule distinct_card)
  moreover have "set ?zs = set (x # ys)" using set_exchange_pass [of x ys] by simp
  moreover have "length ?zs = length (x # ys)" by (simp add: length_exchange_pass)
  ultimately show "distinct ?zs" by (intro card_distinct) (simp only:)
qed

lemma exchange_pass_le: "fst (exchange_pass x ys) \<le> x"
proof (induction ys arbitrary: x)
  case (Cons y ys)
  show ?case unfolding exchange_pass_Cons
    using order.trans [OF Cons.IH [of y], of x] Cons.IH [of x] by simp
qed simp

lemma exchange_pass_min: "z \<in> set (snd (exchange_pass x ys)) \<Longrightarrow> fst (exchange_pass x ys) \<le> z"
proof (induction ys arbitrary: x)
  case (Cons y ys)
  show ?case
  proof (cases "y < x")
    case True
    with Cons.prems have "z = x \<or> z \<in> set (snd (exchange_pass y ys))"
      unfolding exchange_pass_Cons by simp
    then have "fst (exchange_pass y ys) \<le> z"
      using Cons.IH [of y] True order.trans [OF exchange_pass_le [of y ys]] less_imp_le by blast
    with True show ?thesis unfolding exchange_pass_Cons by simp
  next
    case False
    with Cons.prems have "z = y \<or> z \<in> set (snd (exchange_pass x ys))"
      unfolding exchange_pass_Cons by simp
    then have "fst (exchange_pass x ys) \<le> z"
      using Cons.IH [of x] False order.trans [OF exchange_pass_le [of x ys]] leI by blast
    with False show ?thesis unfolding exchange_pass_Cons by simp
  qed
qed simp

lemma set_exchange_sort: "set (exchange_sort xs) = set xs"
proof (induction xs rule: exchange_sort.induct)
  case (2 x ys)
  then show ?case using set_exchange_pass [of x ys] by simp
qed simp

lemma distinct_exchange_sort: "distinct xs \<Longrightarrow> distinct (exchange_sort xs)"
proof (induction xs rule: exchange_sort.induct)
  case (2 x ys)
  then show ?case using distinct_exchange_pass [of x ys] by (simp add: set_exchange_sort)
qed simp

lemma sorted_exchange_sort: "sorted (exchange_sort xs)"
  by (induction xs rule: exchange_sort.induct) (auto simp: set_exchange_sort exchange_pass_min)

lemma sortedUniqueStrings_eq: "sortedUniqueStrings xs = sorted_list_of_set (set xs - {[]})"
proof -
  have "set (exchange_sort (fresh_strings [] xs)) = set (sorted_list_of_set (set xs - {[]}))"
    by (simp add: set_exchange_sort set_fresh_strings)
  then have eq: "exchange_sort (fresh_strings [] xs) = sorted_list_of_set (set xs - {[]})"
    by (rule sorted_distinct_set_unique [OF sorted_exchange_sort
          distinct_exchange_sort [OF distinct_fresh_strings] sorted_sorted_list_of_set
          distinct_sorted_list_of_set])
  have "sortedUniqueStrings xs = exchange_sort (fresh_strings [] xs)"
    by (simp add: sortedUniqueStrings_def)
  then show ?thesis unfolding eq .
qed

lemma set_sortedUniqueStrings [simp]: "set (sortedUniqueStrings xs) = set xs - {[]}"
  by (simp add: sortedUniqueStrings_eq)

text \<open>The exchange sort with its duplicate check returns the strictly increasing list of the
  non-empty strings given, whatever their order and multiplicity, and the same list for any two
  inputs with the same elements.\<close>

theorem sorted_unique_is_sorted_set:
  "sortedUniqueStrings xs = sorted_list_of_set (set xs - {[]})
   \<and> sorted (sortedUniqueStrings xs) \<and> distinct (sortedUniqueStrings xs)"
  by (simp add: sortedUniqueStrings_eq)

section \<open>Namespace intent and ceiling\<close>

lemma set_MatchIntentNamespaces:
  "wf_map nsMeta \<Longrightarrow> set (MatchIntentNamespaces am flt sel nsMeta defaults) =
     {ns. ns \<noteq> [] \<and> (\<exists>meta. map_of nsMeta ns = Some meta \<and> intent_matches am flt sel defaults ns meta)}"
  by (force simp: MatchIntentNamespaces_def wf_map_in_set_iff)

lemma set_EffectiveNamespaces:
  "set (EffectiveNamespaces matched ceiling flt defaults) =
     {ns \<in> set matched. ns \<noteq> []
        \<and> ns \<notin> set (ExcludedNamespaces flt) \<and> ns \<notin> set (def_Excluded defaults)
        \<and> ns \<notin> set (DeniedNamespaces ceiling)
        \<and> (AllowedNamespaces ceiling = [] \<or> ns \<in> set (AllowedNamespaces ceiling))}"
  by (auto simp: EffectiveNamespaces_def Let_def in_unionStrings)

lemma EffectiveNamespaces_cong:
  "set m = set m' \<Longrightarrow> EffectiveNamespaces m c f d = EffectiveNamespaces m' c f d"
  by (simp add: EffectiveNamespaces_def Let_def sortedUniqueStrings_eq set_filter)

lemma set_EffectiveNamespaceSet: "map_of (EffectiveNamespaceSet xs) ns = Some () \<longleftrightarrow> ns \<in> set xs"
proof -
  have "map_of (fold (\<lambda>ns. AList.update ns ()) xs m) ns = Some () \<longleftrightarrow> ns \<in> set xs \<or> map_of m ns = Some ()" for m
    by (induction xs arbitrary: m) auto
  then show ?thesis by (simp add: EffectiveNamespaceSet_def)
qed

text \<open>C12. The namespaces a target collects from are exactly the known, non-empty ones its intent
  names (included list or its default, selector, exclude list and its default, exclude selector)
  that the scope neither denies nor leaves out of a non-empty allow list; the reported list is
  sorted without duplicates and inside the matched one.\<close>

theorem effective_namespaces_exact:
  assumes "wf_map nsMeta"
    and "ComputeFilterStatus am flt sel nsMeta ceiling defaults = (matched, effective, n)"
  shows "set effective =
      {ns. ns \<noteq> []
         \<and> (let inc = (if IncludedNamespaces flt = [] then def_Included defaults else IncludedNamespaces flt)
            in inc = [] \<or> ns \<in> set inc)
         \<and> (\<exists>meta. map_of nsMeta ns = Some meta \<and> namespaceMatchesSelector am sel (nm_Labels meta)
              \<and> (NamespaceExcludeSelector flt = None
                 \<or> \<not> namespaceMatchesSelector am (NamespaceExcludeSelector flt) (nm_Labels meta)))
         \<and> ns \<notin> set (ExcludedNamespaces flt) \<union> set (def_Excluded defaults) \<union> set (DeniedNamespaces ceiling)
         \<and> (AllowedNamespaces ceiling = [] \<or> ns \<in> set (AllowedNamespaces ceiling))}
    \<and> set effective \<subseteq> set matched \<and> sorted effective \<and> distinct effective"
proof -
  have m: "matched = MatchIntentNamespaces am flt sel nsMeta defaults"
    and e: "effective = EffectiveNamespaces matched ceiling flt defaults"
    using assms(2) by (auto simp: ComputeFilterStatus_def Let_def)
  have "sorted effective \<and> distinct effective"
    by (simp add: e EffectiveNamespaces_def Let_def sortedUniqueStrings_eq)
  then show ?thesis
    unfolding e set_EffectiveNamespaces unfolding m set_MatchIntentNamespaces [OF assms(1)]
    by (auto simp: intent_matches_def Let_def in_unionStrings)
qed

section \<open>Rules are a union\<close>

lemma compile_rules_Inl:
  "compile_rules am env i rules = Inl err \<longleftrightarrow>
     (\<exists>j < length rules. compile_rule am env (i + j) (rules ! j) = Inl err
        \<and> (\<forall>k < j. \<exists>c. compile_rule am env (i + k) (rules ! k) = Inr c))"
proof (induction rules arbitrary: i)
  case (Cons r rs)
  show ?case
  proof (cases "compile_rule am env i r")
    case (Inl e)
    then show ?thesis by (auto simp: Ex_less_Suc2 All_less_Suc2 gr0_conv_Suc)
  next
    case (Inr c)
    then have "compile_rules am env i (r # rs) = Inl err \<longleftrightarrow> compile_rules am env (Suc i) rs = Inl err"
      by (simp split: sum.split)
    with Inr show ?thesis using Cons.IH [of "Suc i"] by (simp add: Ex_less_Suc2 All_less_Suc2)
  qed
qed simp

text \<open>What one rule of the specification selects.\<close>

definition rule_selects ::
  "apimachinery \<Rightarrow> cel_env \<Rightarrow> unstructured \<Rightarrow> GroupVersionResource \<Rightarrow> labels \<Rightarrow> ResourceRule \<Rightarrow> bool" where
  "rule_selects am env u gvr nsLabels rule \<longleftrightarrow>
     gvrFromProfile am (rule_GVK rule) = gvr
     \<and> (\<exists>s. selectorFromOptional am (rule_NamespaceSelector rule) = Inr s \<and> s nsLabels)
     \<and> (\<exists>s. resourceLabelSelector am (rule_MatchLabels rule) (rule_MatchExpressions rule) = Inr s \<and> s (GetLabels u))
     \<and> (TrimSpace (rule_MatchPolicy rule) = []
        \<or> (\<exists>p. compileMatchPolicy env (rule_MatchPolicy rule) = Inr p \<and> evalMatchPolicy p u = Inr True))"

lemma rule_matches_compiled:
  "compile_rule am env i rule = Inr c \<Longrightarrow> rule_matches u gvr nsLabels c \<longleftrightarrow> rule_selects am env u gvr nsLabels rule"
  by (auto simp: compile_rule_def rule_matches_def rule_selects_def Let_def split: if_splits sum.splits)

lemma compiled_list_ex:
  assumes "compile_rules am env i rules = Inr cs"
    and "\<And>j rule c. compile_rule am env j rule = Inr c \<Longrightarrow> P c \<longleftrightarrow> Q rule"
  shows "list_ex P cs \<longleftrightarrow> list_ex Q rules"
  using assms(1) by (induction rules arbitrary: i cs) (auto simp: assms(2) split: sum.splits)

text \<open>A target with resource rules selects an object exactly when one of its rules does: the
  rule's kind, its namespace selector on the labels of the object's namespace, its label selector
  on the object's labels and, if it has one, a policy that evaluates to true without an error.\<close>

theorem rules_are_union:
  assumes "CompileResourceRules am rules env = Inr cs" and "rules \<noteq> []"
  shows "ResourceMatchesRules am u gvr target profile cs nsMeta \<longleftrightarrow>
    (\<exists>rule \<in> set rules. rule_selects am env u gvr
       (nm_Labels (meta_for nsMeta (if GetNamespace u = [] then NamespaceDefault else GetNamespace u))) rule)"
proof -
  have "cs \<noteq> []"
    using assms by (cases rules) (auto simp: CompileResourceRules_def split: sum.splits)
  then show ?thesis
    using compiled_list_ex [OF assms(1) [unfolded CompileResourceRules_def] rule_matches_compiled]
    by (simp add: ResourceMatchesRules_def Let_def list_ex_iff)
qed

fun example_nested :: "any \<Rightarrow> string list \<Rightarrow> string + any option" where
  "example_nested v [] = Inr (Some v)"
| "example_nested (JObject m) (f # fs) = (case map_of m f of None \<Rightarrow> Inr None | Some v \<Rightarrow> example_nested v fs)"
| "example_nested v (f # fs) = Inl ''not a map''"

definition example_machinery :: apimachinery where
  "example_machinery = \<lparr>
     LabelSelectorAsSelector = (\<lambda>s. if ls_MatchExpressions s = []
        then Inr (\<lambda>l. list_all (\<lambda>(k, v). map_of l k = Some v) (ls_MatchLabels s)) else Inl ''bad operator''),
     Everything = (\<lambda>_. True),
     UnsafeGuessKindToResource = (\<lambda>gvk. \<lparr>gvr_Group = gvk_Group gvk, gvr_Version = gvk_Version gvk,
        gvr_Resource = ToLower (gvk_Kind gvk) @ ''s''\<rparr>),
     GroupResource_String = (\<lambda>g r. if g = [] then r else r @ ''.'' @ g),
     NestedField = (\<lambda>m fields. example_nested (JObject m) fields)\<rparr>"

definition example_cel :: cel_env where
  "example_cel e = (if e = ''true'' then Inr (Inr (\<lambda>_. Inr (Cel_Bool True)))
     else if e = ''object.x'' then Inr (Inr (\<lambda>_. Inl ''no such key: x'')) else Inl ''syntax error'')"

definition example_rule :: "string \<Rightarrow> string \<Rightarrow> ResourceRule" where
  "example_rule kind policy = \<lparr>rule_GVK = \<lparr>gvk_Group = ''apps'', gvk_Version = ''v1'', gvk_Kind = kind\<rparr>,
     rule_NamespaceSelector = None, rule_MatchLabels = [(''tier'', ''web'')], rule_MatchExpressions = [],
     rule_MatchPolicy = policy\<rparr>"

definition example_object :: "string \<Rightarrow> string \<Rightarrow> unstructured" where
  "example_object ns name = \<lparr>u_Object = [(''kind'', JString ''Deployment'')], GetNamespace = ns, GetName = name,
     GetUID = ''uid-'' @ name, GetAPIVersion = ''apps/v1'', GetKind = ''Deployment'', GetResourceVersion = ''7'',
     GetGeneration = 1, GetLabels = [(''tier'', ''web'')]\<rparr>"

definition example_filter :: "ResourceRule list \<Rightarrow> CollectionFilterSpec" where
  "example_filter rules = \<lparr>IncludedNamespaces = [], ExcludedNamespaces = [''kube-system''],
     NamespaceExcludeSelector = None, ResourceRules = rules\<rparr>"

definition example_target :: "ResourceRule list \<Rightarrow> KollectTarget" where
  "example_target rules = \<lparr>t_Namespace = ''team'', t_Name = ''web'', t_Generation = 1, t_Spec = \<lparr>ProfileRef = ''p'',
     t_NamespaceSelector = None, t_Filter = example_filter rules, t_LabelSelector = None, t_Names = [],
     t_Suspend = False, WatchMode = []\<rparr>\<rparr>"

definition example_profile :: "AttributeSpec list \<Rightarrow> KollectProfile" where
  "example_profile attrs = \<lparr>prof_Namespace = ''team'', prof_Name = ''p'', prof_Generation = 1, prof_Spec = \<lparr>
     TargetGVK = \<lparr>gvk_Group = ''apps'', gvk_Version = ''v1'', gvk_Kind = ''Deployment''\<rparr>,
     Attributes = attrs, prof_Export = None, prof_Metrics = []\<rparr>\<rparr>"

definition example_namespaces :: "(string, NamespaceMeta) gomap" where
  "example_namespaces = [(''shop'', \<lparr>nm_Labels = [(''team'', ''a'')], nm_Annotations = []\<rparr>),
     (''kube-system'', \<lparr>nm_Labels = [], nm_Annotations = []\<rparr>),
     (''legacy'', \<lparr>nm_Labels = [], nm_Annotations = []\<rparr>)]"

definition example_gvr :: GroupVersionResource where
  "example_gvr = \<lparr>gvr_Group = ''apps'', gvr_Version = ''v1'', gvr_Resource = ''deployments''\<rparr>"

lemma TrimSpace_example: "TrimSpace ''true'' = ''true''" "TrimSpace ''object.x'' = ''object.x''"
  "ToLower ''Deployment'' = ''deployment''"
  by code_simp+

theorem rules_are_union_witness:
  "ResourceMatchesRules example_machinery (example_object ''shop'' ''cart'') example_gvr
     (example_target []) (example_profile [])
     (projr (CompileResourceRules example_machinery
        [example_rule ''Deployment'' ''object.x'', example_rule ''Deployment'' ''true''] example_cel))
     example_namespaces"
proof -
  have "\<exists>cs. CompileResourceRules example_machinery
      [example_rule ''Deployment'' ''object.x'', example_rule ''Deployment'' ''true''] example_cel = Inr cs"
    by (simp add: CompileResourceRules_def compile_rule_def example_rule_def selectorFromOptional_def
        resourceLabelSelector_def example_machinery_def compileMatchPolicy_def TrimSpace_example
        example_cel_def Let_def)
  then obtain cs where cs: "CompileResourceRules example_machinery
      [example_rule ''Deployment'' ''object.x'', example_rule ''Deployment'' ''true''] example_cel = Inr cs" ..
  have "rule_selects example_machinery example_cel (example_object ''shop'' ''cart'') example_gvr l
      (example_rule ''Deployment'' ''true'')" for l
    by (simp add: rule_selects_def example_rule_def gvrFromProfile_def selectorFromOptional_def
        resourceLabelSelector_def example_machinery_def compileMatchPolicy_def TrimSpace_example
        example_cel_def Let_def example_object_def example_gvr_def evalMatchPolicy_def)
  then show ?thesis unfolding cs sum.sel using rules_are_union [OF cs] by simp
qed

text \<open>Compiling resource rules fails exactly with the error of the first rule that cannot be
  compiled, and the error carries that rule's index.\<close>

theorem compile_reports_first_bad_rule:
  "CompileResourceRules am rules env = Inl err \<longleftrightarrow>
     (\<exists>j < length rules. compile_rule am env j (rules ! j) = Inl err
        \<and> (\<forall>k < j. \<exists>c. compile_rule am env k (rules ! k) = Inr c))"
  by (simp add: CompileResourceRules_def compile_rules_Inl)

theorem compile_reports_first_bad_rule_witness:
  "CompileResourceRules example_machinery [example_rule ''Deployment'' ''true'', example_rule [] ''true'']
     example_cel = Inl (Rule_GVK_Required 1)"
  unfolding compile_reports_first_bad_rule
  by (simp add: Ex_less_Suc2 compile_rule_def example_rule_def selectorFromOptional_def
      resourceLabelSelector_def example_machinery_def compileMatchPolicy_def TrimSpace_example
      example_cel_def Let_def)

theorem effective_namespaces_exact_witness:
  "set (fst (snd (ComputeFilterStatus example_machinery (example_filter []) None example_namespaces
     \<lparr>AllowedNamespaces = [''shop'', ''kube-system''], DeniedNamespaces = []\<rparr>
     \<lparr>def_Included = [], def_Excluded = []\<rparr>))) = {''shop''}"
proof -
  obtain m e n where r: "ComputeFilterStatus example_machinery (example_filter []) None example_namespaces
     \<lparr>AllowedNamespaces = [''shop'', ''kube-system''], DeniedNamespaces = []\<rparr>
     \<lparr>def_Included = [], def_Excluded = []\<rparr> = (m, e, n)" by (rule prod_cases3)
  have "wf_map example_namespaces" by (simp add: example_namespaces_def)
  then show ?thesis
    using effective_namespaces_exact [OF _ r] unfolding r
    by (auto simp: example_namespaces_def example_filter_def namespaceMatchesSelector_def Let_def split: if_splits)
qed

end
