(* ===== verification/Target_Fingerprint.thy ===== *)
theory Target_Fingerprint
  imports Collection_Filter Digest
begin

text \<open>
  The fingerprint of a target's collection state, \<open>targetStateFingerprint\<close> of
  \<open>src/internal/collect/engine.go\<close>: a SHA-256 digest of the namespaces, the generations and the
  JSON of the resource rules and of the profile spec. The encoders follow the JSON tags of the
  structs of \<open>src/api/v1alpha1\<close>; an empty slice stands for a nil one, and none of these structs can
  fail to encode.
\<close>

section \<open>JSON of the specs\<close>

definition opt_string :: "string \<Rightarrow> string \<Rightarrow> (string \<times> string) list" where
  "opt_string name s = (if s = [] then [] else [(name, json_string s)])"

definition opt_strings :: "string \<Rightarrow> string list \<Rightarrow> (string \<times> string) list" where
  "opt_strings name xs = (if xs = [] then [] else [(name, json_array (map json_string xs))])"

definition opt_map :: "string \<Rightarrow> labels \<Rightarrow> (string \<times> string) list" where
  "opt_map name m = (if m = [] then [] else [(name, json_text (JObject (map (\<lambda>(k, v). (k, JString v)) m)))])"

definition opt_list :: "string \<Rightarrow> ('a \<Rightarrow> string) \<Rightarrow> 'a list \<Rightarrow> (string \<times> string) list" where
  "opt_list name enc xs = (if xs = [] then [] else [(name, json_array (map enc xs))])"

definition opt_ptr :: "string \<Rightarrow> ('a \<Rightarrow> string) \<Rightarrow> 'a option \<Rightarrow> (string \<times> string) list" where
  "opt_ptr name enc p = (case p of None \<Rightarrow> [] | Some x \<Rightarrow> [(name, enc x)])"

definition json_bool :: "bool \<Rightarrow> string" where
  "json_bool b = json_text (JBool b)"

definition gvk_json :: "GroupVersionKind \<Rightarrow> string" where
  "gvk_json g = json_fields (opt_string ''group'' (gvk_Group g)
     @ [(''version'', json_string (gvk_Version g)), (''kind'', json_string (gvk_Kind g))])"

definition requirement_json :: "LabelSelectorRequirement \<Rightarrow> string" where
  "requirement_json r = json_fields ([(''key'', json_string (lsr_Key r)), (''operator'', json_string (lsr_Operator r))]
     @ opt_strings ''values'' (lsr_Values r))"

definition selector_json :: "LabelSelector \<Rightarrow> string" where
  "selector_json s = json_fields (opt_map ''matchLabels'' (ls_MatchLabels s)
     @ opt_list ''matchExpressions'' requirement_json (ls_MatchExpressions s))"

definition rule_json :: "ResourceRule \<Rightarrow> string" where
  "rule_json r = json_fields ([(''gvk'', gvk_json (rule_GVK r))]
     @ opt_ptr ''namespaceSelector'' selector_json (rule_NamespaceSelector r)
     @ opt_map ''matchLabels'' (rule_MatchLabels r)
     @ opt_list ''matchExpressions'' requirement_json (rule_MatchExpressions r)
     @ opt_string ''matchPolicy'' (rule_MatchPolicy r))"

definition rules_json :: "ResourceRule list \<Rightarrow> string" where
  "rules_json rules = (if rules = [] then ''null'' else json_array (map rule_json rules))"

definition attribute_json :: "AttributeSpec \<Rightarrow> string" where
  "attribute_json a = json_fields ([(''name'', json_string (attr_Name a)), (''path'', json_string (attr_Path a))]
     @ opt_string ''type'' (attr_Type a) @ (if attr_Optional a then [(''optional'', json_bool True)] else []))"

definition metric_json :: "MetricSpec \<Rightarrow> string" where
  "metric_json m = json_fields ([(''name'', json_string (metric_Name m)), (''path'', json_string (metric_Path m))]
     @ opt_strings ''labels'' (metric_Labels m))"

definition prune_json :: "PruneSpec \<Rightarrow> string" where
  "prune_json p = json_fields (opt_ptr ''defaults'' json_bool (ps_Defaults p)
     @ opt_strings ''jsonPointers'' (ps_JSONPointers p) @ opt_strings ''jsonPaths'' (ps_JSONPaths p)
     @ opt_strings ''scrubKeys'' (ps_ScrubKeys p) @ opt_strings ''cel'' (ps_CEL p))"

definition export_json :: "ExportSpec \<Rightarrow> string" where
  "export_json e = json_fields (opt_string ''mode'' (es_Mode e) @ opt_string ''as'' (es_As e)
     @ opt_string ''include'' (es_Include e) @ opt_ptr ''dedupeIdentity'' json_bool (es_DedupeIdentity e)
     @ opt_ptr ''prune'' prune_json (es_Prune e))"

definition profile_json :: "KollectProfileSpec \<Rightarrow> string" where
  "profile_json s = json_fields ([(''targetGVK'', gvk_json (TargetGVK s))]
     @ opt_list ''attributes'' attribute_json (Attributes s) @ opt_ptr ''export'' export_json (prof_Export s)
     @ opt_list ''metrics'' metric_json (prof_Metrics s))"

section \<open>The fingerprint\<close>

definition fingerprint_text :: "KollectTarget \<Rightarrow> KollectProfile \<Rightarrow> string list \<Rightarrow> string" where
  "fingerprint_text target profile effective =
     concat (map (\<lambda>ns. ns @ [CHR 0x00]) (sortedUniqueStrings effective))
     @ ''|targetGen='' @ show_int (t_Generation target) @ ''|profileGen='' @ show_int (prof_Generation profile) @ ''|''
     @ rules_json (ResourceRules (t_Filter (t_Spec target))) @ profile_json (prof_Spec profile)"

definition targetStateFingerprint :: "KollectTarget \<Rightarrow> KollectProfile \<Rightarrow> string list \<Rightarrow> string" where
  "targetStateFingerprint target profile effective =
     EncodeToString (Sum256 (fingerprint_text target profile effective))"

section \<open>What an unchanged fingerprint means\<close>

lemma show_int_no_bar: "CHR ''|'' \<notin> set (show_int i)"
proof -
  have "\<not> is_digit (CHR ''|'')" by (simp add: is_digit_def)
  then show ?thesis using show_nat_digits by (auto simp: show_int_def)
qed

lemma show_int_inj: "show_int i = show_int j \<longleftrightarrow> i = j"
proof -
  have "\<not> is_digit (CHR ''-'')" by (simp add: is_digit_def)
  then have "show_nat n \<noteq> CHR ''-'' # s" for n s using show_nat_digits [of "CHR ''-''" n] by (metis list.set_intros(1))
  then show ?thesis by (auto simp: show_int_def show_nat_inj dest: sym)
qed

definition plain_name :: "string \<Rightarrow> bool" where
  "plain_name s \<longleftrightarrow> s \<noteq> [] \<and> CHR 0x00 \<notin> set s \<and> CHR ''|'' \<notin> set s"

lemma names_cut:
  "list_all plain_name xs \<Longrightarrow> list_all plain_name ys \<Longrightarrow>
   concat (map (\<lambda>ns. ns @ [CHR 0x00]) xs) @ CHR ''|'' # a = concat (map (\<lambda>ns. ns @ [CHR 0x00]) ys) @ CHR ''|'' # b
   \<Longrightarrow> xs = ys \<and> a = b"
proof (induction xs arbitrary: ys)
  case Nil
  then show ?case by (cases ys) (auto simp: plain_name_def Cons_eq_append_conv)
next
  case (Cons x xs)
  show ?case
  proof (cases ys)
    case Nil
    then show ?thesis using Cons.prems by (auto simp: plain_name_def append_eq_Cons_conv)
  next
    case (Cons y ys')
    have "x = y \<and> concat (map (\<lambda>ns. ns @ [CHR 0x00]) xs) @ CHR ''|'' # a
        = concat (map (\<lambda>ns. ns @ [CHR 0x00]) ys') @ CHR ''|'' # b"
      using Cons.prems Cons cut_unique [of "CHR 0x00" x y] by (simp add: plain_name_def)
    then show ?thesis using Cons.IH [of ys'] Cons.prems Cons by simp
  qed
qed

text \<open>If a target registers again with the fingerprint it had, its namespaces, both
  generations and the JSON of its rules and profile are unchanged, unless the two texts collide
  under SHA-256: skipping the backfill then loses nothing.\<close>

theorem same_fingerprint_same_state:
  assumes "targetStateFingerprint t p ns = targetStateFingerprint t' p' ns'"
    and "fingerprint_text t p ns \<noteq> fingerprint_text t' p' ns' \<longrightarrow>
      ContentHash (fingerprint_text t p ns) \<noteq> ContentHash (fingerprint_text t' p' ns')"
    and "list_all plain_name ns" and "list_all plain_name ns'"
  shows "set ns = set ns' \<and> t_Generation t = t_Generation t' \<and> prof_Generation p = prof_Generation p'
    \<and> rules_json (ResourceRules (t_Filter (t_Spec t))) @ profile_json (prof_Spec p)
      = rules_json (ResourceRules (t_Filter (t_Spec t'))) @ profile_json (prof_Spec p')"
proof -
  have eq: "fingerprint_text t p ns = fingerprint_text t' p' ns'"
    using assms(1,2) unfolding targetStateFingerprint_def ContentHash_def by blast
  have plain: "list_all plain_name (sortedUniqueStrings ns)" "list_all plain_name (sortedUniqueStrings ns')"
    using assms(3,4) by (simp_all add: list_all_iff)
  let ?rest = "\<lambda>t p. ''targetGen='' @ show_int (t_Generation t) @ ''|profileGen='' @ show_int (prof_Generation p) @ ''|''
     @ rules_json (ResourceRules (t_Filter (t_Spec t))) @ profile_json (prof_Spec p)"
  have "sortedUniqueStrings ns = sortedUniqueStrings ns' \<and> ?rest t p = ?rest t' p'"
    using names_cut [OF plain, of "?rest t p" "?rest t' p'"] eq by (simp add: fingerprint_text_def)
  then have s: "set (sortedUniqueStrings ns) = set (sortedUniqueStrings ns')" and r: "?rest t p = ?rest t' p'" by auto
  have "[] \<notin> set ns" "[] \<notin> set ns'" using assms(3,4) by (auto simp: list_all_iff plain_name_def)
  then have "set ns = set ns'" using s by simp
  then show ?thesis using r by (simp add: cut_unique show_int_no_bar show_int_inj)
qed

theorem same_fingerprint_same_state_witness:
  "set [''shop'', ''legacy''] = set [''legacy'', ''shop'', ''legacy'']"
proof -
  have "sortedUniqueStrings [''shop'', ''legacy''] = sortedUniqueStrings [''legacy'', ''shop'', ''legacy'']"
    by (simp add: sortedUniqueStrings_eq insert_commute)
  then have "fingerprint_text (example_target []) (example_profile []) [''shop'', ''legacy'']
      = fingerprint_text (example_target []) (example_profile []) [''legacy'', ''shop'', ''legacy'']"
    by (simp only: fingerprint_text_def)
  moreover have "list_all plain_name [''shop'', ''legacy'']" "list_all plain_name [''legacy'', ''shop'', ''legacy'']"
    by (simp_all add: plain_name_def)
  ultimately show ?thesis
    using same_fingerprint_same_state [of "example_target []" "example_profile []" "[''shop'', ''legacy'']"
        "example_target []" "example_profile []" "[''legacy'', ''shop'', ''legacy'']"]
    by (simp only: targetStateFingerprint_def simp_thms)
qed

end
