(* ===== verification/Extractor.thy ===== *)
theory Extractor
  imports Collection_Filter Json_Decode
begin

text \<open>
  Attribute extraction, \<open>src/internal/collect/extractor.go\<close>, \<open>validate.go\<close> and
  \<open>helmdecode.go\<close>. CEL environments and client-go JSONPath queries are parameters: compiling an
  expression depends on the expression alone, and evaluating returns a value or a message of the
  library. \<open>compress/gzip\<close> is a parameter as well. Errors are values that carry what the code puts
  into its messages.
\<close>

section \<open>Types\<close>

type_synonym jsonpath = "string \<Rightarrow> string + (obj \<Rightarrow> string + any list list)"

text \<open>What the extractor calls: the CEL environment, JSONPath, gzip and apimachinery.\<close>

record Extractor =
  celEnv :: cel_env
  jp_Parse :: jsonpath
  gunzip :: "string \<Rightarrow> string + string"
  machinery :: apimachinery

datatype extract_error =
    Empty_Path
  | Parse_JSONPath string
  | Eval_JSONPath string
  | Empty_CEL
  | Compile_CEL string
  | Build_CEL string
  | Eval_CEL string
  | Helm_Empty_Field
  | Helm_Not_Exportable string
  | Helm_No_Data
  | Helm_Read_Data string
  | Helm_Data_Type
  | Helm_No_Release
  | Helm_Base64
  | Helm_Release_Type
  | Helm_Gzip string
  | Helm_Malformed
  | Helm_Accessor string
  | Helm_Prefix
  | CEL_Prefix
  | Attribute_Error string extract_error

definition celPrefix :: string where "celPrefix = ''cel:''"
definition HelmReleasePathPrefix :: string where "HelmReleasePathPrefix = ''helm:release.''"

section \<open>Error classes\<close>

definition celEvalErrorClasses :: "(string \<times> string) list" where
  "celEvalErrorClasses =
     [(''no such key'', ''no such key''),
      (''no such attribute'', ''no such attribute''),
      (''no such overload'', ''no matching overload (type mismatch)''),
      (''type conversion error'', ''type conversion error''),
      (''timestamp'', ''invalid timestamp''),
      (''duration'', ''invalid duration''),
      (''division by zero'', ''division by zero''),
      (''modulus by zero'', ''modulus by zero''),
      (''out of bounds'', ''index out of bounds''),
      (''out of range'', ''index out of bounds''),
      (''unsupported index type'', ''unsupported index type''),
      (''regexp'', ''invalid regular expression''),
      (''overflow'', ''numeric overflow'')]"

definition jsonPathEvalErrorClasses :: "(string \<times> string) list" where
  "jsonPathEvalErrorClasses =
     [(''cannot be filtered'', ''filter applied to a non-list value''),
      (''incompatible types for comparison'', ''incompatible types for comparison''),
      (''out of bounds'', ''array index out of bounds''),
      (''is not array or slice'', ''index applied to a non-list value'')]"

definition unclassified :: string where
  "unclassified = ''unclassified (details withheld; they may contain resource data)''"

definition classifyEvalError :: "string \<Rightarrow> (string \<times> string) list \<Rightarrow> string" where
  "classifyEvalError msg classes =
     (case find (\<lambda>c. Contains msg (fst c)) classes of Some c \<Rightarrow> snd c | None \<Rightarrow> unclassified)"

definition classifyCELEvalError :: "string \<Rightarrow> string" where
  "classifyCELEvalError err = ''evaluation error: '' @ classifyEvalError err celEvalErrorClasses"

definition classifyJSONPathEvalError :: "string \<Rightarrow> string" where
  "classifyJSONPathEvalError err = ''evaluation error: '' @ classifyEvalError err jsonPathEvalErrorClasses"

definition isJSONPathNotFound :: "string \<Rightarrow> bool" where
  "isJSONPathNotFound err = Contains err ''is not found''"

section \<open>Helm release secrets\<close>

definition b64_value :: "char \<Rightarrow> nat option" where
  "b64_value c = (let n = of_char c :: nat in
     if 65 \<le> n \<and> n \<le> 90 then Some (n - 65)
     else if 97 \<le> n \<and> n \<le> 122 then Some (n - 71)
     else if 48 \<le> n \<and> n \<le> 57 then Some (n + 4)
     else if c = CHR ''+'' then Some 62
     else if c = CHR ''/'' then Some 63
     else None)"

text \<open>
  \<open>base64.StdEncoding.DecodeString\<close>: line breaks are skipped, padding is required and ends the
  text, trailing bits are ignored.
\<close>

fun b64_quanta :: "string \<Rightarrow> string option" where
  "b64_quanta [] = Some []"
| "b64_quanta (a # b # c # d # r) =
     (case (b64_value a, b64_value b) of
        (Some x, Some y) \<Rightarrow>
          (if c = CHR ''='' then
             (if d = CHR ''='' \<and> r = [] then Some [char_of (x * 4 + y div 16)] else None)
           else (case b64_value c of
              None \<Rightarrow> None
            | Some z \<Rightarrow>
                (if d = CHR ''='' then
                   (if r = [] then Some [char_of (x * 4 + y div 16), char_of (y mod 16 * 16 + z div 4)] else None)
                 else (case (b64_value d, b64_quanta r) of
                    (Some w, Some s) \<Rightarrow>
                      Some (char_of (x * 4 + y div 16) # char_of (y mod 16 * 16 + z div 4)
                              # char_of (z mod 4 * 64 + w) # s)
                  | _ \<Rightarrow> None))))
      | _ \<Rightarrow> None)"
| "b64_quanta _ = None"

definition DecodeString :: "string \<Rightarrow> string option" where
  "DecodeString s = b64_quanta (filter (\<lambda>c. c \<noteq> CHR 0x0A \<and> c \<noteq> CHR 0x0D) s)"

definition magicGzip :: string where "magicGzip = [CHR 0x1F, CHR 0x8B, CHR 0x08]"

definition helmReleaseFieldAliases :: "(string, string) gomap" where
  "helmReleaseFieldAliases =
     [(''releaseName'', ''name''), (''chartName'', ''chart.metadata.name''),
      (''chartVersion'', ''chart.metadata.version''), (''appVersion'', ''chart.metadata.appVersion''),
      (''revision'', ''version''), (''status'', ''info.status''), (''lastDeployed'', ''info.last_deployed''),
      (''namespace'', ''namespace''), (''config'', ''config'')]"

definition helmReleaseDeniedPaths :: "string list" where
  "helmReleaseDeniedPaths =
     [''manifest'', ''hooks'', ''chart.templates'', ''chart.files'', ''chart.values'', ''chart.raw'']"

definition secretReleaseData :: "apimachinery \<Rightarrow> obj \<Rightarrow> extract_error + string" where
  "secretReleaseData am object = (case NestedField am object [''data''] of
     Inl err \<Rightarrow> Inl (Helm_Read_Data err)
   | Inr None \<Rightarrow> Inl Helm_No_Data
   | Inr (Some JNull) \<Rightarrow> Inl Helm_No_Data
   | Inr (Some (JObject data)) \<Rightarrow> (case map_of data ''release'' of
       None \<Rightarrow> Inl Helm_No_Release
     | Some (JString v) \<Rightarrow> (case DecodeString v of None \<Rightarrow> Inl Helm_Base64 | Some d \<Rightarrow> Inr d)
     | Some _ \<Rightarrow> Inl Helm_Release_Type)
   | Inr (Some _) \<Rightarrow> Inl Helm_Data_Type)"

text \<open>\<open>json.Unmarshal\<close> into a nil map: \<open>null\<close> leaves it nil, which reads as the empty map.\<close>

definition unmarshal_release :: "string \<Rightarrow> obj option" where
  "unmarshal_release s = (case json_parse s of
     None \<Rightarrow> None
   | Some v \<Rightarrow> (case decode_map v None of
       (m, True) \<Rightarrow> Some (case m of None \<Rightarrow> [] | Some x \<Rightarrow> x)
     | (_, False) \<Rightarrow> None))"

definition decodeHelmReleasePayload :: "(string \<Rightarrow> string + string) \<Rightarrow> string \<Rightarrow> extract_error + obj" where
  "decodeHelmReleasePayload unzip payload =
     (let decoded = (case DecodeString payload of None \<Rightarrow> payload | Some d \<Rightarrow> d);
          plain = (if 3 < length decoded \<and> take 3 decoded = magicGzip then unzip decoded else Inr decoded)
      in case plain of
           Inl err \<Rightarrow> Inl (Helm_Gzip err)
         | Inr text \<Rightarrow> (case unmarshal_release text of None \<Rightarrow> Inl Helm_Malformed | Some m \<Rightarrow> Inr m))"

definition DecodeHelmReleaseSecret :: "Extractor \<Rightarrow> unstructured \<Rightarrow> extract_error + obj" where
  "DecodeHelmReleaseSecret e u = (case secretReleaseData (machinery e) (u_Object u) of
     Inl err \<Rightarrow> Inl err
   | Inr encoded \<Rightarrow> decodeHelmReleasePayload (gunzip e) encoded)"

definition resolveHelmReleaseField :: "string \<Rightarrow> string" where
  "resolveHelmReleaseField fld = map_get_or fld helmReleaseFieldAliases fld"

definition validateHelmReleaseField :: "string \<Rightarrow> extract_error option" where
  "validateHelmReleaseField fld =
     (if fld = [] then Some Helm_Empty_Field
      else if fld \<in> set helmReleaseDeniedPaths
        \<or> list_ex (\<lambda>denied. HasPrefix fld (denied @ ''.'')) helmReleaseDeniedPaths
      then Some (Helm_Not_Exportable fld)
      else None)"

definition nestedFieldFromRelease :: "apimachinery \<Rightarrow> obj \<Rightarrow> string \<Rightarrow> extract_error + any option" where
  "nestedFieldFromRelease am release path =
     (if path = [] then Inl Empty_Path
      else (case NestedField am release (Split (CHR ''.'') path) of
              Inl err \<Rightarrow> Inl (Helm_Accessor path)
            | Inr v \<Rightarrow> Inr v))"

definition extractHelmReleaseField :: "Extractor \<Rightarrow> unstructured \<Rightarrow> string \<Rightarrow> extract_error + any" where
  "extractHelmReleaseField e u path =
     (let fld = TrimPrefix (TrimSpace path) HelmReleasePathPrefix;
          resolved = resolveHelmReleaseField fld
      in if fld = [] then Inl Helm_Empty_Field
         else case validateHelmReleaseField resolved of
           Some err \<Rightarrow> Inl err
         | None \<Rightarrow> (case DecodeHelmReleaseSecret e u of
             Inl err \<Rightarrow> Inl err
           | Inr release \<Rightarrow> (case nestedFieldFromRelease (machinery e) release resolved of
               Inl err \<Rightarrow> Inl err
             | Inr None \<Rightarrow> Inr JNull
             | Inr (Some v) \<Rightarrow> Inr v)))"

definition HelmReleasePathRequiresSecretOptIn :: "string \<Rightarrow> bool" where
  "HelmReleasePathRequiresSecretOptIn path =
     (let p = TrimSpace path; fld = resolveHelmReleaseField (TrimPrefix p HelmReleasePathPrefix)
      in HasPrefix p HelmReleasePathPrefix \<and> (fld = ''config'' \<or> HasPrefix fld ''config.''))"

definition ValidateHelmReleaseAttributePath :: "string \<Rightarrow> extract_error option" where
  "ValidateHelmReleaseAttributePath path =
     (let p = TrimSpace path; fld = TrimPrefix p HelmReleasePathPrefix
      in if \<not> HasPrefix p HelmReleasePathPrefix then Some Helm_Prefix
         else if fld = [] then Some Helm_Empty_Field
         else validateHelmReleaseField (resolveHelmReleaseField fld))"

section \<open>Extraction\<close>

definition normalizeJSONPath :: "string \<Rightarrow> string" where
  "normalizeJSONPath path = (if HasPrefix path ''$.'' then ''{'' @ tl path @ ''}'' else path)"

definition evalJSONPath :: "jsonpath \<Rightarrow> obj \<Rightarrow> string \<Rightarrow> extract_error + any" where
  "evalJSONPath jp object path = (case jp path of
     Inl err \<Rightarrow> Inl (Parse_JSONPath err)
   | Inr query \<Rightarrow> (case query object of
       Inl err \<Rightarrow> if isJSONPathNotFound err then Inr JNull
                  else Inl (Eval_JSONPath (classifyJSONPathEvalError err))
     | Inr [] \<Rightarrow> Inr JNull
     | Inr ([] # rs) \<Rightarrow> Inr JNull
     | Inr ([v] # rs) \<Rightarrow> Inr v
     | Inr (vs # rs) \<Rightarrow> Inr (JArray vs)))"

definition celValueToGo :: "cel_val \<Rightarrow> any" where
  "celValueToGo v = (case v of Cel_Null \<Rightarrow> JNull | Cel_Bool b \<Rightarrow> JBool b | Cel_Val x b \<Rightarrow> x)"

definition evalCEL :: "cel_env \<Rightarrow> obj \<Rightarrow> string \<Rightarrow> extract_error + any" where
  "evalCEL env object expr =
     (let x = TrimSpace expr in
      if x = [] then Inl Empty_CEL
      else case env x of
        Inl issue \<Rightarrow> Inl (Compile_CEL issue)
      | Inr (Inl err) \<Rightarrow> Inl (Build_CEL err)
      | Inr (Inr prg) \<Rightarrow> (case prg object of
          Inl err \<Rightarrow> Inl (Eval_CEL (classifyCELEvalError err))
        | Inr out \<Rightarrow> Inr (celValueToGo out)))"

definition extractOne :: "Extractor \<Rightarrow> unstructured \<Rightarrow> string \<Rightarrow> extract_error + any" where
  "extractOne e u path =
     (let p = TrimSpace path in
      if p = [] then Inl Empty_Path
      else if HasPrefix p celPrefix then evalCEL (celEnv e) (u_Object u) (TrimPrefix p celPrefix)
      else if HasPrefix p HelmReleasePathPrefix then extractHelmReleaseField e u p
      else evalJSONPath (jp_Parse e) (u_Object u) (normalizeJSONPath p))"

fun extract_loop ::
  "Extractor \<Rightarrow> unstructured \<Rightarrow> (string, any) gomap \<Rightarrow> AttributeSpec list \<Rightarrow> extract_error + (string, any) gomap" where
  "extract_loop e u results [] = Inr results"
| "extract_loop e u results (attr # attrs) = (case extractOne e u (attr_Path attr) of
     Inl err \<Rightarrow> if attr_Optional attr then extract_loop e u results attrs
                else Inl (Attribute_Error (attr_Name attr) err)
   | Inr val \<Rightarrow> if val = JNull \<and> attr_Optional attr then extract_loop e u results attrs
                else extract_loop e u (AList.update (attr_Name attr) val results) attrs)"

definition Extract :: "Extractor \<Rightarrow> unstructured \<Rightarrow> AttributeSpec list \<Rightarrow> extract_error + (string, any) gomap" where
  "Extract e u attrs = extract_loop e u [] attrs"

section \<open>Validation\<close>

definition HasJSONPathFilter :: "string \<Rightarrow> bool" where
  "HasJSONPathFilter path = Contains path ''[?(''"

definition ValidateAttributePath :: "Extractor \<Rightarrow> string \<Rightarrow> extract_error option" where
  "ValidateAttributePath e path =
     (let p = TrimSpace path in
      if p = [] then Some Empty_Path
      else if \<not> HasPrefix p celPrefix \<and> (HasPrefix p ''object.'' \<or> HasPrefix p ''object['') then Some CEL_Prefix
      else if HasPrefix p celPrefix then
        (case celEnv e (TrimSpace (TrimPrefix p celPrefix)) of
           Inl issue \<Rightarrow> Some (Compile_CEL issue)
         | Inr (Inl err) \<Rightarrow> Some (Build_CEL err)
         | Inr (Inr prg) \<Rightarrow> None)
      else if HasPrefix p HelmReleasePathPrefix then ValidateHelmReleaseAttributePath p
      else (case jp_Parse e (normalizeJSONPath p) of Inl err \<Rightarrow> Some (Parse_JSONPath err) | Inr q \<Rightarrow> None))"

text \<open>\<open>NewExtractor\<close> fails only with \<open>cel.NewEnv\<close>, whose result is the argument.\<close>

definition ValidateMatchPolicyExpression :: "string + cel_env \<Rightarrow> string \<Rightarrow> string option" where
  "ValidateMatchPolicyExpression env expr = (case env of
     Inl err \<Rightarrow> Some err
   | Inr celenv \<Rightarrow> (case compileMatchPolicy celenv expr of Inl err \<Rightarrow> Some err | Inr prog \<Rightarrow> None))"

section \<open>Errors carry no resource data\<close>

text \<open>
  The errors that extracting a path can end in, computed from the path and its compilation alone.
\<close>

definition error_classes :: "(string \<times> string) list \<Rightarrow> string list" where
  "error_classes classes = map (\<lambda>c. ''evaluation error: '' @ c) (unclassified # map snd classes)"

definition path_errors :: "Extractor \<Rightarrow> string \<Rightarrow> extract_error list" where
  "path_errors e path =
     (let p = TrimSpace path; x = TrimSpace (TrimPrefix p celPrefix) in
      if p = [] then [Empty_Path]
      else if HasPrefix p celPrefix then
        (if x = [] then [Empty_CEL]
         else case celEnv e x of
             Inl issue \<Rightarrow> [Compile_CEL issue]
           | Inr (Inl err) \<Rightarrow> [Build_CEL err]
           | Inr (Inr prg) \<Rightarrow> map Eval_CEL (error_classes celEvalErrorClasses))
      else (case jp_Parse e (normalizeJSONPath p) of
              Inl err \<Rightarrow> [Parse_JSONPath err]
            | Inr query \<Rightarrow> map Eval_JSONPath (error_classes jsonPathEvalErrorClasses)))"

definition possible_errors :: "Extractor \<Rightarrow> AttributeSpec list \<Rightarrow> extract_error list" where
  "possible_errors e attrs =
     concat (map (\<lambda>a. if attr_Optional a then [] else map (Attribute_Error (attr_Name a)) (path_errors e (attr_Path a)))
       attrs)"

abbreviation helm_path :: "string \<Rightarrow> bool" where
  "helm_path path \<equiv> HasPrefix (TrimSpace path) HelmReleasePathPrefix"

lemma classifyEvalError_class: "classifyEvalError msg classes \<in> insert unclassified (snd ` set classes)"
  by (induction classes) (auto simp: classifyEvalError_def)

lemma classified:
  "classifyCELEvalError err \<in> set (error_classes celEvalErrorClasses)"
  "classifyJSONPathEvalError err \<in> set (error_classes jsonPathEvalErrorClasses)"
  using classifyEvalError_class [of err celEvalErrorClasses] classifyEvalError_class [of err jsonPathEvalErrorClasses]
  by (auto simp: classifyCELEvalError_def classifyJSONPathEvalError_def error_classes_def)

lemma evalJSONPath_Inl:
  "evalJSONPath jp object path = Inl err \<Longrightarrow>
     (\<exists>m. jp path = Inl m \<and> err = Parse_JSONPath m)
     \<or> (\<exists>q m. jp path = Inr q \<and> err = Eval_JSONPath (classifyJSONPathEvalError m))"
  by (auto simp: evalJSONPath_def split: sum.splits list.splits if_splits)

lemma evalCEL_Inl:
  "evalCEL env object expr = Inl err \<Longrightarrow>
     (TrimSpace expr = [] \<and> err = Empty_CEL)
     \<or> (TrimSpace expr \<noteq> [] \<and>
        ((\<exists>m. env (TrimSpace expr) = Inl m \<and> err = Compile_CEL m)
         \<or> (\<exists>m. env (TrimSpace expr) = Inr (Inl m) \<and> err = Build_CEL m)
         \<or> (\<exists>q m. env (TrimSpace expr) = Inr (Inr q) \<and> err = Eval_CEL (classifyCELEvalError m))))"
  by (auto simp: evalCEL_def Let_def split: sum.splits if_splits)

lemma extractOne_error:
  assumes "extractOne e u path = Inl err" and "\<not> helm_path path"
  shows "err \<in> set (path_errors e path)"
proof -
  consider "TrimSpace path = []" "err = Empty_Path"
    | "TrimSpace path \<noteq> []" "HasPrefix (TrimSpace path) celPrefix"
        "evalCEL (celEnv e) (u_Object u) (TrimPrefix (TrimSpace path) celPrefix) = Inl err"
    | "TrimSpace path \<noteq> []" "\<not> HasPrefix (TrimSpace path) celPrefix"
        "evalJSONPath (jp_Parse e) (u_Object u) (normalizeJSONPath (TrimSpace path)) = Inl err"
    using assms by (auto simp: extractOne_def Let_def split: if_splits)
  then show ?thesis
  proof cases
    case 2
    then show ?thesis using evalCEL_Inl [OF 2(3)] classified(1) by (auto simp: path_errors_def Let_def)
  next
    case 3
    then show ?thesis using evalJSONPath_Inl [OF 3(3)] classified(2) by (auto simp: path_errors_def Let_def)
  qed (simp add: path_errors_def)
qed

lemma extract_loop_error:
  "extract_loop e u results attrs = Inl err \<Longrightarrow>
     \<exists>a \<in> set attrs. \<not> attr_Optional a \<and> (\<exists>err'. extractOne e u (attr_Path a) = Inl err'
       \<and> err = Attribute_Error (attr_Name a) err')"
  by (induction attrs arbitrary: results) (auto split: sum.splits if_splits)


section \<open>What a successful extraction holds\<close>

definition attr_value :: "Extractor \<Rightarrow> unstructured \<Rightarrow> AttributeSpec \<Rightarrow> any option" where
  "attr_value e u a = (case extractOne e u (attr_Path a) of
     Inl err \<Rightarrow> None
   | Inr v \<Rightarrow> if v = JNull \<and> attr_Optional a then None else Some v)"

lemma extract_loop_succeeds:
  "(\<exists>m. extract_loop e u results attrs = Inr m) \<longleftrightarrow>
     (\<forall>a \<in> set attrs. attr_Optional a \<or> (\<exists>v. extractOne e u (attr_Path a) = Inr v))"
  by (induction attrs arbitrary: results) (auto split: sum.splits)

lemma extract_loop_value:
  "extract_loop e u results attrs = Inr m \<Longrightarrow> distinct (map attr_Name attrs) \<Longrightarrow>
     map_of m n = (case find (\<lambda>a. attr_Name a = n) attrs of
                     None \<Rightarrow> map_of results n
                   | Some a \<Rightarrow> (case attr_value e u a of None \<Rightarrow> map_of results n | Some v \<Rightarrow> Some v))"
proof (induction attrs arbitrary: results)
  case (Cons a attrs)
  have nf: "find (\<lambda>b. attr_Name b = attr_Name a) attrs = None"
    using Cons.prems(2) by (simp add: find_None_iff image_iff) metis
  show ?case
  proof (cases "attr_value e u a")
    case None
    then have "extract_loop e u results attrs = Inr m"
      using Cons.prems(1) by (auto simp: attr_value_def split: sum.splits if_splits)
    with Cons.IH [of results] Cons.prems(2) None nf show ?thesis by auto
  next
    case (Some v)
    then have "extract_loop e u (AList.update (attr_Name a) v results) attrs = Inr m"
      using Cons.prems(1) by (auto simp: attr_value_def split: sum.splits if_splits)
    with Cons.IH [of "AList.update (attr_Name a) v results"] Cons.prems(2) Some nf
    show ?thesis by (cases "attr_Name a = n") (auto split: option.split)
  qed
qed simp

text \<open>Extraction succeeds exactly when every attribute that is not optional evaluates; the
  result then holds, under each attribute's name, exactly its value, and no entry for an optional
  attribute without one.\<close>

theorem extract_exact:
  assumes "distinct (map attr_Name attrs)"
  shows "if \<forall>a \<in> set attrs. attr_Optional a \<or> (\<exists>v. extractOne e u (attr_Path a) = Inr v)
    then \<exists>m. Extract e u attrs = Inr m \<and> (\<forall>n. map_of m n = (case find (\<lambda>a. attr_Name a = n) attrs of
               None \<Rightarrow> None | Some a \<Rightarrow> attr_value e u a))
    else \<exists>err. Extract e u attrs = Inl err"
proof (cases "\<exists>m. extract_loop e u [] attrs = Inr m")
  case True
  then obtain m where m: "extract_loop e u [] attrs = Inr m" ..
  have "map_of m n = (case find (\<lambda>a. attr_Name a = n) attrs of None \<Rightarrow> None | Some a \<Rightarrow> attr_value e u a)" for n
    unfolding extract_loop_value [OF m assms] by (simp split: option.split)
  moreover have "\<forall>a \<in> set attrs. attr_Optional a \<or> (\<exists>v. extractOne e u (attr_Path a) = Inr v)"
    using True unfolding extract_loop_succeeds .
  ultimately show ?thesis using m by (simp add: Extract_def)
next
  case False
  then have "\<exists>err. extract_loop e u [] attrs = Inl err" by (cases "extract_loop e u [] attrs") auto
  then show ?thesis using False unfolding extract_loop_succeeds Extract_def by presburger
qed

section \<open>Validated paths\<close>

text \<open>Errors that depend on the path alone; a validated path must never end in one.\<close>

fun static_error :: "extract_error \<Rightarrow> bool" where
  "static_error Empty_Path = True"
| "static_error (Parse_JSONPath m) = True"
| "static_error Empty_CEL = True"
| "static_error (Compile_CEL m) = True"
| "static_error (Build_CEL m) = True"
| "static_error Helm_Empty_Field = True"
| "static_error (Helm_Not_Exportable f) = True"
| "static_error err = False"

lemma helm_decode_not_static: "DecodeHelmReleaseSecret e u = Inl err \<Longrightarrow> \<not> static_error err"
  by (auto simp: DecodeHelmReleaseSecret_def secretReleaseData_def decodeHelmReleasePayload_def Let_def
      split: sum.splits option.splits any.splits if_splits)

lemma validateHelm_None: "validateHelmReleaseField fld = None \<Longrightarrow> fld \<noteq> []"
  by (auto simp: validateHelmReleaseField_def)

lemma helm_extract_not_static:
  assumes "validateHelmReleaseField (resolveHelmReleaseField (TrimPrefix (TrimSpace path) HelmReleasePathPrefix)) = None"
    and "TrimPrefix (TrimSpace path) HelmReleasePathPrefix \<noteq> []"
    and "extractHelmReleaseField e u path = Inl err"
  shows "\<not> static_error err"
  using assms helm_decode_not_static validateHelm_None [OF assms(1)]
  by (auto simp: extractHelmReleaseField_def nestedFieldFromRelease_def Let_def split: sum.splits option.splits)

text \<open>C15. A path the webhook accepts never fails at collection time for a reason that was visible
  in the path: no empty path, no parse or compile error, no forbidden Helm field. The hypothesis is
  that CEL rejects the empty expression.\<close>

theorem validated_path_compiles:
  assumes "ValidateAttributePath e path = None" and "extractOne e u path = Inl err"
    and "\<exists>issue. celEnv e [] = Inl issue"
  shows "\<not> static_error err"
proof -
  let ?p = "TrimSpace path"
  have p: "?p \<noteq> []" using assms(1) by (auto simp: ValidateAttributePath_def)
  consider (cel) "HasPrefix ?p celPrefix" | (helm) "\<not> HasPrefix ?p celPrefix" "helm_path path"
    | (jp) "\<not> HasPrefix ?p celPrefix" "\<not> helm_path path" by blast
  then show ?thesis
  proof cases
    case cel
    then have "evalCEL (celEnv e) (u_Object u) (TrimPrefix ?p celPrefix) = Inl err"
      using assms(2) p by (simp add: extractOne_def Let_def)
    from evalCEL_Inl [OF this] show ?thesis
      using assms(1,3) p cel by (auto simp: ValidateAttributePath_def Let_def split: sum.splits if_splits)
  next
    case helm
    then have "extractHelmReleaseField e u ?p = Inl err"
      using assms(2) p by (simp add: extractOne_def Let_def)
    moreover have "ValidateHelmReleaseAttributePath ?p = None"
      using assms(1) p helm by (auto simp: ValidateAttributePath_def Let_def split: if_splits)
    ultimately show ?thesis
      using helm_extract_not_static [of ?p e u err]
      by (auto simp: ValidateHelmReleaseAttributePath_def Let_def split: if_splits)
  next
    case jp
    then have "evalJSONPath (jp_Parse e) (u_Object u) (normalizeJSONPath ?p) = Inl err"
      using assms(2) p by (simp add: extractOne_def Let_def)
    from evalJSONPath_Inl [OF this] show ?thesis
      using assms(1) p jp by (auto simp: ValidateAttributePath_def Let_def split: sum.splits if_splits)
  qed
qed

section \<open>Helm fields that must not be exported\<close>

lemma Join_append: "ys \<noteq> [] \<Longrightarrow> zs \<noteq> [] \<Longrightarrow> Join sep (ys @ zs) = Join sep ys @ sep @ Join sep zs"
  by (induction ys rule: list_nonempty_induct) (simp_all add: Join_Cons)

lemma Split_prefix_string:
  assumes "prefix (Split c d) (Split c s)"
  shows "s = d \<or> HasPrefix s (d @ [c])"
proof -
  obtain r where r: "Split c s = Split c d @ r" using assms by (auto simp: prefix_def)
  have s: "s = Join [c] (Split c d @ r)" unfolding r [symmetric] by (rule Join_Split [symmetric])
  show ?thesis
  proof (cases "r = []")
    case True
    then show ?thesis using s by (simp add: Join_Split)
  next
    case False
    then have "s = (d @ [c]) @ Join [c] r"
      using s Join_append [OF Split_not_Nil False, of "[c]" c d] by (simp add: Join_Split)
    then show ?thesis unfolding HasPrefix_iff by blast
  qed
qed

text \<open>C16. A Helm path whose segments begin with the segments of a denied field (the raw manifest,
  hooks, templates, files, values) is refused whatever the secret holds, alias names included.\<close>

theorem helm_denied_subtrees_blocked:
  assumes "denied \<in> set helmReleaseDeniedPaths"
    and "prefix (Split (CHR ''.'') denied) (Split (CHR ''.'') (resolveHelmReleaseField fld))"
    and "fld \<noteq> []" and "TrimSpace path = HelmReleasePathPrefix @ fld"
  shows "extractHelmReleaseField e u path = Inl (Helm_Not_Exportable (resolveHelmReleaseField fld))"
proof -
  let ?r = "resolveHelmReleaseField fld"
  have "Split (CHR ''.'') denied \<noteq> [[]]" using assms(1) by (auto simp: helmReleaseDeniedPaths_def)
  then have "?r \<noteq> []" using assms(2) by (auto simp: prefix_def Cons_eq_append_conv append_eq_Cons_conv)
  moreover have "?r = denied \<or> HasPrefix ?r (denied @ ''.'')" using Split_prefix_string [OF assms(2)] by simp
  ultimately have "validateHelmReleaseField ?r = Some (Helm_Not_Exportable ?r)"
    using assms(1) by (auto simp: validateHelmReleaseField_def list_ex_iff)
  then show ?thesis using assms(3) by (simp add: extractHelmReleaseField_def assms(4) Let_def)
qed

text \<open>
  The check looks at a field and its descendants only: asking for the parent \<open>chart\<close> exports the
  denied \<open>chart.templates\<close> and \<open>chart.files\<close> with it.
\<close>

lemma helm_parent_of_denied_exported:
  assumes "DecodeHelmReleaseSecret e u = Inr release"
    and "NestedField (machinery e) release [''chart''] = Inr (Some v)"
  shows "extractHelmReleaseField e u ''helm:release.chart'' = Inr v"
proof -
  have t: "TrimPrefix (TrimSpace ''helm:release.chart'') HelmReleasePathPrefix = ''chart''"
    and r: "resolveHelmReleaseField ''chart'' = ''chart''"
    and n: "validateHelmReleaseField ''chart'' = None" and s: "Split (CHR ''.'') ''chart'' = [''chart'']"
    by code_simp+
  show ?thesis
    using assms by (simp add: extractHelmReleaseField_def nestedFieldFromRelease_def t r n s Let_def)
qed

section \<open>Examples\<close>

definition example_extractor :: Extractor where
  "example_extractor = \<lparr>celEnv = example_cel,
     jp_Parse = (\<lambda>path. if path = ''{.kind}''
       then Inr (\<lambda>object. case map_of object ''kind'' of None \<Rightarrow> Inl ''kind is not found'' | Some v \<Rightarrow> Inr [[v]])
       else Inl ''unrecognized character''),
     gunzip = (\<lambda>s. Inl ''gzip: invalid header''), machinery = example_machinery\<rparr>"

definition example_attr :: "string \<Rightarrow> string \<Rightarrow> bool \<Rightarrow> AttributeSpec" where
  "example_attr name path optional = \<lparr>attr_Name = name, attr_Path = path, attr_Type = [], attr_Optional = optional\<rparr>"

lemma example_one:
  "extractOne example_extractor (example_object ns name) ''cel:object.x'' = Inl (Eval_CEL ''evaluation error: no such key'')"
  "extractOne example_extractor (example_object ns name) ''$.kind'' = Inr (JString ''Deployment'')"
  by code_simp+

lemma example_paths:
  "TrimSpace ''cel:object.x'' = ''cel:object.x''" "\<not> HasPrefix ''cel:object.x'' HelmReleasePathPrefix"
  "ValidateAttributePath example_extractor ''cel:object.x'' = None"
  by code_simp+


theorem extract_exact_witness:
  "\<exists>m. Extract example_extractor (example_object ''shop'' ''cart'')
      [example_attr ''kind'' ''$.kind'' False, example_attr ''x'' ''cel:object.x'' True] = Inr m
     \<and> map_of m ''kind'' = Some (JString ''Deployment'') \<and> map_of m ''x'' = None"
proof -
  have "distinct (map attr_Name [example_attr ''kind'' ''$.kind'' False, example_attr ''x'' ''cel:object.x'' True])"
    by (simp add: example_attr_def)
  from extract_exact [OF this, of example_extractor "example_object ''shop'' ''cart''"]
  obtain m where "Extract example_extractor (example_object ''shop'' ''cart'')
        [example_attr ''kind'' ''$.kind'' False, example_attr ''x'' ''cel:object.x'' True] = Inr m"
      and "\<forall>n. map_of m n = (case find (\<lambda>a. attr_Name a = n)
          [example_attr ''kind'' ''$.kind'' False, example_attr ''x'' ''cel:object.x'' True] of
          None \<Rightarrow> None | Some a \<Rightarrow> attr_value example_extractor (example_object ''shop'' ''cart'') a)"
    by (auto simp: example_attr_def example_one)
  then show ?thesis by (simp add: example_attr_def attr_value_def example_one)
qed

theorem validated_path_compiles_witness:
  "\<not> static_error (Eval_CEL ''evaluation error: no such key'')"
proof (rule validated_path_compiles)
  show "ValidateAttributePath example_extractor ''cel:object.x'' = None" by (rule example_paths)
  show "extractOne example_extractor (example_object ''shop'' ''cart'') ''cel:object.x''
      = Inl (Eval_CEL ''evaluation error: no such key'')" by (rule example_one)
  show "\<exists>issue. celEnv example_extractor [] = Inl issue"
    by (simp add: example_extractor_def example_cel_def)
qed

theorem helm_denied_subtrees_blocked_witness:
  "extractHelmReleaseField example_extractor (example_object ''shop'' ''cart'') ''helm:release.chart.templates.0''
     = Inl (Helm_Not_Exportable ''chart.templates.0'')"
proof -
  have r: "resolveHelmReleaseField ''chart.templates.0'' = ''chart.templates.0''" by code_simp
  have "''chart.templates'' \<in> set helmReleaseDeniedPaths" by (simp add: helmReleaseDeniedPaths_def)
  moreover have "prefix (Split (CHR ''.'') ''chart.templates'')
      (Split (CHR ''.'') (resolveHelmReleaseField ''chart.templates.0''))" by code_simp
  moreover have "TrimSpace ''helm:release.chart.templates.0'' = HelmReleasePathPrefix @ ''chart.templates.0''"
    by code_simp
  ultimately show ?thesis
    using helm_denied_subtrees_blocked [of "''chart.templates''" "''chart.templates.0''"
        "''helm:release.chart.templates.0''"] unfolding r by simp
qed

end
