(* ===== verification/Access.thy ===== *)
theory Access
  imports Collection_Filter Go_Time
begin

text \<open>
  The cached permission checks of the collector, \<open>src/internal/collect/access.go\<close>. List elements
  have identities: the LRU list holds (identity, entry) pairs, front first, and the map holds
  identities. The API server's answer to an access review is the argument \<open>review\<close>; the two
  readings of the clock are arguments. What a cache of decisions promises is the locale
  \<open>decision_cache\<close>, which the inventory server's cache satisfies as well.
\<close>

section \<open>The contract of a decision cache\<close>

datatype cache_op = Cache_Get time string | Cache_Set time string bool

fun cache_run :: "('c \<Rightarrow> time \<Rightarrow> string \<Rightarrow> bool option \<times> 'c) \<Rightarrow> ('c \<Rightarrow> time \<Rightarrow> string \<Rightarrow> bool \<Rightarrow> 'c)
    \<Rightarrow> cache_op list \<Rightarrow> 'c \<Rightarrow> 'c" where
  "cache_run get put [] c = c"
| "cache_run get put (Cache_Get now k # ops) c = cache_run get put ops (snd (get c now k))"
| "cache_run get put (Cache_Set now k b # ops) c = cache_run get put ops (put c now k b)"

text \<open>The decision last written for each key, with the time it was written.\<close>

fun write_op :: "cache_op \<Rightarrow> (string \<rightharpoonup> bool \<times> time) \<Rightarrow> (string \<rightharpoonup> bool \<times> time)" where
  "write_op (Cache_Get now k) m = m"
| "write_op (Cache_Set now k b) m = m(k \<mapsto> (b, now))"

definition last_written :: "cache_op list \<Rightarrow> (string \<rightharpoonup> bool \<times> time) \<Rightarrow> (string \<rightharpoonup> bool \<times> time)" where
  "last_written ops m = fold write_op ops m"

lemma last_written_simps [simp]:
  "last_written [] m = m"
  "last_written (Cache_Get now k # ops) m = last_written ops m"
  "last_written (Cache_Set now k b # ops) m = last_written ops (m(k \<mapsto> (b, now)))"
  by (simp_all add: last_written_def)

definition expiring :: "int \<Rightarrow> (string \<rightharpoonup> bool \<times> time) \<Rightarrow> string \<rightharpoonup> bool \<times> time" where
  "expiring d m = (\<lambda>k. map_option (\<lambda>(b, t). (b, t + d)) (m k))"

lemma expiring_upd: "(expiring d m)(k \<mapsto> (b, now + d)) = expiring d (m(k \<mapsto> (b, now)))"
  by (auto simp: expiring_def)

locale decision_cache =
  fixes get :: "'c \<Rightarrow> time \<Rightarrow> string \<Rightarrow> bool option \<times> 'c"
    and put :: "'c \<Rightarrow> time \<Rightarrow> string \<Rightarrow> bool \<Rightarrow> 'c"
    and inv :: "'c \<Rightarrow> bool"
    and ttl :: "'c \<Rightarrow> int"
    and recorded :: "'c \<Rightarrow> string \<rightharpoonup> bool \<times> time"
  assumes get_hit: "inv c \<Longrightarrow> get c now k = (Some b, c') \<Longrightarrow> \<exists>e. recorded c k = Some (b, e) \<and> now \<le> e"
    and get_inv: "inv c \<Longrightarrow> inv (snd (get c now k)) \<and> ttl (snd (get c now k)) = ttl c"
    and get_recorded: "inv c \<Longrightarrow> recorded (snd (get c now k)) \<subseteq>\<^sub>m recorded c"
    and put_inv: "inv c \<Longrightarrow> inv (put c now k b) \<and> ttl (put c now k b) = ttl c"
    and put_recorded: "inv c \<Longrightarrow> recorded (put c now k b) \<subseteq>\<^sub>m (recorded c)(k \<mapsto> (b, now + ttl c))"
    and put_get: "inv c \<Longrightarrow> recorded (put c now k b) k = Some (b, now + ttl c)"
begin

lemma run_inv: "inv c \<Longrightarrow> inv (cache_run get put ops c) \<and> ttl (cache_run get put ops c) = ttl c"
proof (induction ops arbitrary: c)
  case (Cons op ops)
  then show ?case using get_inv put_inv by (cases op) simp_all
qed simp

lemma run_recorded:
  "inv c \<Longrightarrow> recorded c \<subseteq>\<^sub>m expiring (ttl c) m \<Longrightarrow>
     recorded (cache_run get put ops c) \<subseteq>\<^sub>m expiring (ttl c) (last_written ops m)"
proof (induction ops arbitrary: c m)
  case (Cons op ops)
  show ?case
  proof (cases op)
    case (Cache_Get now k)
    then show ?thesis
      using Cons.IH [of "snd (get c now k)" m] get_inv [OF Cons.prems(1), of now k]
        map_le_trans [OF get_recorded [OF Cons.prems(1)] Cons.prems(2)] by simp
  next
    case (Cache_Set now k b)
    have "recorded (put c now k b) \<subseteq>\<^sub>m expiring (ttl c) (m(k \<mapsto> (b, now)))"
      unfolding expiring_upd [symmetric]
      by (rule map_le_trans [OF put_recorded [OF Cons.prems(1)] map_le_upd [OF Cons.prems(2)]])
    then have "recorded (cache_run get put ops (put c now k b))
        \<subseteq>\<^sub>m expiring (ttl c) (last_written ops (m(k \<mapsto> (b, now))))"
      using Cons.IH [OF conjunct1 [OF put_inv [OF Cons.prems(1)]]] conjunct2 [OF put_inv [OF Cons.prems(1)]]
      by metis
    then show ?thesis by (simp only: Cache_Set cache_run.simps last_written_simps)
  qed
qed simp

lemma hit_is_recent:
  assumes "inv c" "recorded c = Map.empty" "get (cache_run get put ops c) now k = (Some b, c')"
  shows "\<exists>t. last_written ops Map.empty k = Some (b, t) \<and> now \<le> t + ttl c"
proof -
  obtain e where e: "recorded (cache_run get put ops c) k = Some (b, e)" "now \<le> e"
    using get_hit [OF conjunct1 [OF run_inv [OF assms(1)]] assms(3)] by blast
  have "recorded (cache_run get put ops c) \<subseteq>\<^sub>m expiring (ttl c) (last_written ops Map.empty)"
    by (rule run_recorded [OF assms(1)]) (simp add: assms(2))
  then have "expiring (ttl c) (last_written ops Map.empty) k = Some (b, e)"
    using e(1) by (metis domI map_le_def)
  then show ?thesis using e(2) by (auto simp: expiring_def)
qed

end

section \<open>The access checker\<close>

definition defaultAccessCacheCapacity :: int where "defaultAccessCacheCapacity = 4096"

record accessCacheEntry =
  ace_key :: string
  ace_allowed :: bool
  ace_expiresAt :: time

record AccessChecker =
  cacheTTL :: duration
  capacity :: int
  lru :: "(nat \<times> accessCacheEntry) list"
  cache :: "(string, nat) gomap"
  next_element :: nat

definition NewAccessChecker :: AccessChecker where
  "NewAccessChecker = \<lparr>cacheTTL = 30 * Second, capacity = defaultAccessCacheCapacity, lru = [], cache = [],
     next_element = 0\<rparr>"

definition accessCacheKey :: "apimachinery \<Rightarrow> GroupVersionResource \<Rightarrow> string \<Rightarrow> string \<Rightarrow> string" where
  "accessCacheKey am gvr namespace verb =
     GroupResource_String am (gvr_Group gvr) (gvr_Resource gvr) @ ''/'' @ namespace @ ''/'' @ verb @ ''/'' @ gvr_Version gvr"

text \<open>\<open>list.Remove\<close> of an element, by identity.\<close>

definition list_Remove :: "nat \<Rightarrow> (nat \<times> accessCacheEntry) list \<Rightarrow> (nat \<times> accessCacheEntry) list" where
  "list_Remove el l = filter (\<lambda>p. fst p \<noteq> el) l"

text \<open>The second branch is never taken: a cached identity is always in the list (\<open>wf_access\<close>).\<close>

definition lookup :: "AccessChecker \<Rightarrow> time \<Rightarrow> string \<Rightarrow> bool option \<times> AccessChecker" where
  "lookup a now key = (case map_of (cache a) key of
     None \<Rightarrow> (None, a)
   | Some el \<Rightarrow> (case map_of (lru a) el of
       None \<Rightarrow> (None, a)
     | Some entry \<Rightarrow>
         if \<not> now < ace_expiresAt entry
         then (None, a\<lparr>lru := list_Remove el (lru a), cache := AList.delete key (cache a)\<rparr>)
         else (Some (ace_allowed entry), a\<lparr>lru := (el, entry) # list_Remove el (lru a)\<rparr>)))"

function evict :: "AccessChecker \<Rightarrow> AccessChecker" where
  "evict a =
     (if 0 < capacity a \<and> capacity a < int (length (lru a))
      then evict (a\<lparr>lru := butlast (lru a), cache := AList.delete (ace_key (snd (last (lru a)))) (cache a)\<rparr>)
      else a)"
  by pat_completeness auto
termination by (relation "measure (length \<circ> lru)") auto

declare evict.simps [simp del]

definition store_decision :: "AccessChecker \<Rightarrow> time \<Rightarrow> string \<Rightarrow> bool \<Rightarrow> AccessChecker" where
  "store_decision a now key allowed =
     (let expiresAt = now + cacheTTL a; new = \<lparr>ace_key = key, ace_allowed = allowed, ace_expiresAt = expiresAt\<rparr> in
      case map_of (cache a) key of
        Some el \<Rightarrow> a\<lparr>lru := (el, new) # list_Remove el (lru a)\<rparr>
      | None \<Rightarrow> evict (a\<lparr>lru := (next_element a, new) # lru a,
                        cache := AList.update key (next_element a) (cache a),
                        next_element := next_element a + 1\<rparr>))"

definition cacheLen :: "AccessChecker \<Rightarrow> nat" where
  "cacheLen a = length (cache a)"

definition Invalidate :: "AccessChecker \<Rightarrow> AccessChecker" where
  "Invalidate a = a\<lparr>lru := [], cache := []\<rparr>"

text \<open>
  \<open>None\<close> for the client is a nil client. A review that fails is not cached.
\<close>

definition CanAccess ::
  "apimachinery \<Rightarrow> (GroupVersionResource \<Rightarrow> string \<Rightarrow> string \<Rightarrow> string + bool) option \<Rightarrow> time \<Rightarrow> time
   \<Rightarrow> AccessChecker \<Rightarrow> GroupVersionResource \<Rightarrow> string \<Rightarrow> string \<Rightarrow> (string + bool) \<times> AccessChecker" where
  "CanAccess am client now1 now2 a gvr namespace verb = (case client of
     None \<Rightarrow> (Inr True, a)
   | Some review \<Rightarrow>
       (let key = accessCacheKey am gvr namespace verb in
        case lookup a now1 key of
          (Some allowed, a') \<Rightarrow> (Inr allowed, a')
        | (None, a') \<Rightarrow> (case review gvr namespace verb of
            Inl err \<Rightarrow> (Inl (''self subject access review: '' @ err), a')
          | Inr allowed \<Rightarrow> (Inr allowed, store_decision a' now2 key allowed))))"

section \<open>List and map agree\<close>

definition lru_ok :: "(nat \<times> accessCacheEntry) list \<Rightarrow> (string, nat) gomap \<Rightarrow> nat \<Rightarrow> bool" where
  "lru_ok l c n \<longleftrightarrow> distinct (map fst l) \<and> distinct (map (ace_key \<circ> snd) l) \<and> wf_map c
     \<and> set c = (\<lambda>p. (ace_key (snd p), fst p)) ` set l \<and> (\<forall>p \<in> set l. fst p < n)"

definition wf_access :: "AccessChecker \<Rightarrow> bool" where
  "wf_access a \<longleftrightarrow> lru_ok (lru a) (cache a) (next_element a)
     \<and> (0 < capacity a \<longrightarrow> int (length (lru a)) \<le> capacity a)"

definition view :: "(nat \<times> accessCacheEntry) list \<Rightarrow> string \<rightharpoonup> bool \<times> time" where
  "view l = map_of (map (\<lambda>p. (ace_key (snd p), (ace_allowed (snd p), ace_expiresAt (snd p)))) l)"

lemma lru_ok_entry:
  assumes "lru_ok l c n" "map_of c k = Some el"
  obtains en where "map_of l el = Some en" "ace_key en = k" "(el, en) \<in> set l"
proof -
  have "(k, el) \<in> set c" using assms(2) by (rule map_of_SomeD)
  then obtain p where p: "p \<in> set l" "k = ace_key (snd p)" "el = fst p"
    using assms(1) by (auto simp: lru_ok_def)
  then have "map_of l el = Some (snd p)" using assms(1) by (simp add: lru_ok_def map_of_eq_Some_iff)
  then show ?thesis using that [of "snd p"] p by simp
qed

lemma lru_ok_missing: "lru_ok l c n \<Longrightarrow> map_of c k = None \<Longrightarrow> p \<in> set l \<Longrightarrow> ace_key (snd p) \<noteq> k"
  by (force simp: lru_ok_def map_of_eq_None_iff)

lemma lru_ok_same_key:
  "lru_ok l c n \<Longrightarrow> p \<in> set l \<Longrightarrow> q \<in> set l \<Longrightarrow> ace_key (snd p) = ace_key (snd q) \<longleftrightarrow> p = q"
  by (auto simp: lru_ok_def distinct_map inj_on_def)

lemma lru_ok_same_id: "lru_ok l c n \<Longrightarrow> p \<in> set l \<Longrightarrow> q \<in> set l \<Longrightarrow> fst p = fst q \<longleftrightarrow> p = q"
  by (auto simp: lru_ok_def distinct_map inj_on_def)

lemma lru_ok_filter:
  assumes "lru_ok l c n" "q \<in> set l"
  shows "lru_ok (list_Remove (fst q) l) (AList.delete (ace_key (snd q)) c) n"
proof -
  have "set (AList.delete (ace_key (snd q)) c)
      = (\<lambda>p. (ace_key (snd p), fst p)) ` {p \<in> set l. ace_key (snd p) \<noteq> ace_key (snd q)}"
    using assms(1) by (auto simp: set_delete_eq lru_ok_def)
  also have "{p \<in> set l. ace_key (snd p) \<noteq> ace_key (snd q)} = {p \<in> set l. fst p \<noteq> fst q}"
    using lru_ok_same_key [OF assms(1) _ assms(2)] lru_ok_same_id [OF assms(1) _ assms(2)] by auto
  finally show ?thesis
    using assms(1) by (auto simp: lru_ok_def list_Remove_def distinct_map_filter)
qed

lemma lru_ok_Cons:
  assumes "lru_ok l c n" "map_of c k = None" "ace_key en = k" "el \<notin> fst ` set l" "el < n"
  shows "lru_ok ((el, en) # l) (AList.update k el c) n"
proof -
  have "set (AList.update k el c) = insert (k, el) (set c)"
    using assms(1,2) by (auto simp: update_new map_of_eq_None_iff)
  moreover have "ace_key en \<notin> (ace_key \<circ> snd) ` set l"
    using lru_ok_missing [OF assms(1,2)] assms(3) by fastforce
  ultimately show ?thesis using assms by (auto simp: lru_ok_def)
qed

lemma lru_ok_mono: "lru_ok l c n \<Longrightarrow> n \<le> m \<Longrightarrow> lru_ok l c m"
  by (auto simp: lru_ok_def)

lemma lru_ok_cong: "lru_ok l c n \<Longrightarrow> wf_map c' \<Longrightarrow> set c' = set c \<Longrightarrow> lru_ok l c' n"
  by (simp add: lru_ok_def)

lemma lru_ok_front:
  assumes ok: "lru_ok l c n" and el: "map_of c k = Some el" and key: "ace_key en = k"
  shows "lru_ok ((el, en) # list_Remove el l) c n"
proof -
  obtain old where old: "(el, old) \<in> set l" "ace_key old = k" by (rule lru_ok_entry [OF ok el])
  have "lru_ok (list_Remove el l) (AList.delete k c) n" using lru_ok_filter [OF ok old(1)] old(2) by simp
  moreover have "el \<notin> fst ` set (list_Remove el l)" by (auto simp: list_Remove_def)
  moreover have "el < n" using ok old(1) by (auto simp: lru_ok_def)
  ultimately have *: "lru_ok ((el, en) # list_Remove el l) (AList.update k el (AList.delete k c)) n"
    using lru_ok_Cons [OF _ _ key] by simp
  have wf: "wf_map c" using ok by (simp add: lru_ok_def)
  have uniq: "p = (k, el)" if "p \<in> set c" "fst p = k" for p
    using that el wf_map_in_set_iff [OF wf, of k "snd p"] by (metis option.inject prod.collapse)
  have "set (AList.update k el (AList.delete k c)) = insert (k, el) {p \<in> set c. fst p \<noteq> k}"
  proof -
    have "k \<notin> fst ` set (AList.delete k c)" by (auto simp: set_delete_eq)
    then show ?thesis by (simp add: update_new set_delete_eq)
  qed
  also have "\<dots> = set c"
    using uniq map_of_SomeD [OF el] by blast
  finally show ?thesis using lru_ok_cong [OF *, of c] ok by (simp add: lru_ok_def)
qed

lemma evict_spec:
  "lru_ok (lru a) (cache a) (next_element a) \<Longrightarrow>
     lru_ok (lru (evict a)) (cache (evict a)) (next_element (evict a))
     \<and> lru (evict a) = (if 0 < capacity a then take (nat (capacity a)) (lru a) else lru a)
     \<and> capacity (evict a) = capacity a \<and> cacheTTL (evict a) = cacheTTL a"
proof (induction a rule: evict.induct)
  case (1 a)
  show ?case
  proof (cases "0 < capacity a \<and> capacity a < int (length (lru a))")
    case True
    define b where "b = a\<lparr>lru := butlast (lru a), cache := AList.delete (ace_key (snd (last (lru a)))) (cache a)\<rparr>"
    have ne: "lru a \<noteq> []" using True by auto
    have "list_Remove (fst (last (lru a))) (lru a) = butlast (lru a)"
    proof -
      have "distinct (map fst (butlast (lru a) @ [last (lru a)]))"
        using "1.prems" ne by (simp add: lru_ok_def)
      then have "list_Remove (fst (last (lru a))) (butlast (lru a) @ [last (lru a)]) = butlast (lru a)"
        by (simp add: list_Remove_def filter_id_conv) (metis image_eqI)
      then show ?thesis using ne by simp
    qed
    then have okb: "lru_ok (lru b) (cache b) (next_element b)"
      using lru_ok_filter [OF "1.prems", of "last (lru a)"] ne by (simp add: b_def)
    have e: "evict a = evict b" using True by (subst evict.simps) (simp add: b_def)
    have "take (nat (capacity a)) (butlast (lru a)) = take (nat (capacity a)) (lru a)"
    proof -
      have "nat (capacity a) \<le> length (lru a) - 1" using True by linarith
      then show ?thesis by (simp add: butlast_conv_take)
    qed
    moreover have "capacity b = capacity a" "cacheTTL b = cacheTTL a" "lru b = butlast (lru a)"
      by (simp_all add: b_def)
    ultimately show ?thesis using "1.IH" [OF True, folded b_def] okb True unfolding e by auto
  next
    case False
    then have "evict a = a" by (subst evict.simps) auto
    then show ?thesis using "1.prems" False by auto
  qed
qed

section \<open>The checker is a decision cache\<close>

lemma view_Cons: "view ((el, en) # l) = (view l)(ace_key en \<mapsto> (ace_allowed en, ace_expiresAt en))"
  by (simp add: view_def)

lemma view_eq_Some:
  assumes "lru_ok l c n"
  shows "view l k = Some v \<longleftrightarrow>
    (\<exists>p \<in> set l. ace_key (snd p) = k \<and> v = (ace_allowed (snd p), ace_expiresAt (snd p)))"
proof -
  have "wf_map (map (\<lambda>p. (ace_key (snd p), (ace_allowed (snd p), ace_expiresAt (snd p)))) l)"
    using assms by (simp add: lru_ok_def comp_def)
  from wf_map_in_set_iff [OF this] show ?thesis by (auto simp: view_def)
qed

lemma view_subset:
  assumes "lru_ok l c n" "lru_ok l' c' n'" "set l' \<subseteq> set l"
  shows "view l' \<subseteq>\<^sub>m view l"
proof (unfold map_le_def, rule ballI)
  fix k assume "k \<in> dom (view l')"
  then obtain v where v: "view l' k = Some v" by blast
  then have "view l k = Some v"
    using assms(3) unfolding view_eq_Some [OF assms(2)] view_eq_Some [OF assms(1)] by blast
  then show "view l' k = view l k" using v by simp
qed

lemma set_list_Remove: "set (list_Remove el l) \<subseteq> set l"
  by (auto simp: list_Remove_def)

lemma distinct_ids_length_le:
  assumes "distinct (map fst l')" "fst ` set l' \<subseteq> fst ` set l"
  shows "length l' \<le> length l"
proof -
  have "length l' = card (set (map fst l'))" using distinct_card [OF assms(1)] by simp
  also have "\<dots> \<le> card (set (map fst l))" using assms(2) by (intro card_mono) simp_all
  also have "\<dots> \<le> length l" using card_length [of "map fst l"] by simp
  finally show ?thesis .
qed

lemma length_front:
  assumes "lru_ok l c n" "map_of c k = Some el" "ace_key en = k"
  shows "length ((el, en) # list_Remove el l) \<le> length l"
proof (rule distinct_ids_length_le)
  show "distinct (map fst ((el, en) # list_Remove el l))"
    using lru_ok_front [OF assms] by (simp add: lru_ok_def)
  obtain old where "(el, old) \<in> set l" by (rule lru_ok_entry [OF assms(1,2)])
  then have "el \<in> fst ` set l" by force
  then show "fst ` set ((el, en) # list_Remove el l) \<subseteq> fst ` set l"
    using image_mono [OF set_list_Remove [of el l], of fst] by simp
qed

lemma wf_lookup:
  assumes "wf_access a"
  shows "wf_access (snd (lookup a now k)) \<and> cacheTTL (snd (lookup a now k)) = cacheTTL a
    \<and> set (lru (snd (lookup a now k))) \<subseteq> set (lru a)
    \<and> (fst (lookup a now k) = Some b \<longrightarrow> (\<exists>e. view (lru a) k = Some (b, e) \<and> now < e))"
proof (cases "map_of (cache a) k")
  case None
  then show ?thesis using assms by (simp add: lookup_def)
next
  case (Some el)
  have ok: "lru_ok (lru a) (cache a) (next_element a)" using assms by (simp add: wf_access_def)
  obtain en where en: "map_of (lru a) el = Some en" "ace_key en = k" "(el, en) \<in> set (lru a)"
    by (rule lru_ok_entry [OF ok Some])
  have v: "view (lru a) k = Some (ace_allowed en, ace_expiresAt en)"
    unfolding view_eq_Some [OF ok] using en(2,3) by force
  have rem: "lru_ok (list_Remove el (lru a)) (AList.delete k (cache a)) (next_element a)"
    using lru_ok_filter [OF ok en(3)] en(2) by simp
  have "length (list_Remove el (lru a)) \<le> length (lru a)" by (simp add: list_Remove_def)
  then show ?thesis
    using assms Some en v rem lru_ok_front [OF ok Some en(2)] length_front [OF ok Some en(2)]
      set_list_Remove [of el "lru a"]
    by (auto simp: lookup_def wf_access_def)
qed

lemma wf_store_decision:
  assumes "wf_access a"
  shows "wf_access (store_decision a now k b) \<and> cacheTTL (store_decision a now k b) = cacheTTL a
    \<and> view (lru (store_decision a now k b)) \<subseteq>\<^sub>m (view (lru a))(k \<mapsto> (b, now + cacheTTL a))
    \<and> view (lru (store_decision a now k b)) k = Some (b, now + cacheTTL a)"
proof -
  have ok: "lru_ok (lru a) (cache a) (next_element a)" using assms by (simp add: wf_access_def)
  define new where "new = \<lparr>ace_key = k, ace_allowed = b, ace_expiresAt = now + cacheTTL a\<rparr>"
  have key: "ace_key new = k" by (simp add: new_def)
  show ?thesis
  proof (cases "map_of (cache a) k")
    case (Some el)
    obtain en where en: "ace_key en = k" "(el, en) \<in> set (lru a)" by (rule lru_ok_entry [OF ok Some])
    have "lru_ok (list_Remove el (lru a)) (AList.delete k (cache a)) (next_element a)"
      using lru_ok_filter [OF ok en(2)] en(1) by simp
    from map_le_upd [OF view_subset [OF ok this set_list_Remove]]
    show ?thesis
      using assms Some lru_ok_front [OF ok Some key] length_front [OF ok Some key]
      by (auto simp: store_decision_def Let_def wf_access_def view_Cons new_def)
  next
    case None
    define c where "c = a\<lparr>lru := (next_element a, new) # lru a,
      cache := AList.update k (next_element a) (cache a), next_element := next_element a + 1\<rparr>"
    have s: "store_decision a now k b = evict c"
      by (simp add: store_decision_def None Let_def c_def new_def)
    have "next_element a \<notin> fst ` set (lru a)" using ok by (auto simp: lru_ok_def)
    then have okc: "lru_ok (lru c) (cache c) (next_element c)"
      using lru_ok_Cons [OF lru_ok_mono [OF ok] None key] by (simp add: c_def)
    note e = evict_spec [OF okc]
    have sub: "set (lru (evict c)) \<subseteq> set (lru c)" using e set_take_subset [of _ "lru c"] by (simp split: if_splits)
    have hd: "(next_element a, new) \<in> set (lru (evict c))"
    proof (cases "0 < capacity c")
      case True
      then obtain j where "nat (capacity c) = Suc j" by (metis gr0_implies_Suc zero_less_nat_eq)
      then show ?thesis using e True by (simp add: c_def)
    qed (use e in \<open>simp add: c_def\<close>)
    have "view (lru (evict c)) \<subseteq>\<^sub>m view (lru c)" by (rule view_subset [OF okc conjunct1 [OF e] sub])
    moreover have "view (lru c) = (view (lru a))(k \<mapsto> (b, now + cacheTTL a))"
      by (simp add: c_def view_Cons new_def)
    moreover have "view (lru (evict c)) k = Some (b, now + cacheTTL a)"
      unfolding view_eq_Some [OF conjunct1 [OF e]] using hd by (force simp: new_def)
    moreover have "wf_access (evict c)" using e by (auto simp: wf_access_def)
    moreover have "cacheTTL (evict c) = cacheTTL a" using e by (simp add: c_def)
    ultimately show ?thesis unfolding s by simp
  qed
qed

interpretation access_cache: decision_cache lookup store_decision wf_access cacheTTL "view \<circ> lru"
proof
  fix c now k b c'
  assume wf: "wf_access c"
  note l = wf_lookup [OF wf, of now k] and s = wf_store_decision [OF wf, of now k b]
  show "lookup c now k = (Some b, c') \<Longrightarrow> \<exists>e. (view \<circ> lru) c k = Some (b, e) \<and> now \<le> e"
    using l [of b] by force
  show "wf_access (snd (lookup c now k)) \<and> cacheTTL (snd (lookup c now k)) = cacheTTL c" using l by blast
  show "(view \<circ> lru) (snd (lookup c now k)) \<subseteq>\<^sub>m (view \<circ> lru) c"
    using l wf view_subset [of "lru c" "cache c" "next_element c" "lru (snd (lookup c now k))"
        "cache (snd (lookup c now k))" "next_element (snd (lookup c now k))"]
    unfolding comp_def wf_access_def by blast
  show "wf_access (store_decision c now k b) \<and> cacheTTL (store_decision c now k b) = cacheTTL c" using s by blast
  show "(view \<circ> lru) (store_decision c now k b) \<subseteq>\<^sub>m ((view \<circ> lru) c)(k \<mapsto> (b, now + cacheTTL c))"
    using s by simp
  show "(view \<circ> lru) (store_decision c now k b) k = Some (b, now + cacheTTL c)" using s by simp
qed

section \<open>Sequences of checks\<close>

text \<open>
  One call: the two clock readings, the request and what the API server would answer to it then.
\<close>

record access_call =
  ac_now1 :: time
  ac_now2 :: time
  ac_gvr :: GroupVersionResource
  ac_namespace :: string
  ac_verb :: string
  ac_answer :: "string + bool"

definition access_step :: "apimachinery \<Rightarrow> access_call \<Rightarrow> AccessChecker \<Rightarrow> (string + bool) \<times> AccessChecker" where
  "access_step am c a = CanAccess am (Some (\<lambda>_ _ _. ac_answer c)) (ac_now1 c) (ac_now2 c) a (ac_gvr c)
     (ac_namespace c) (ac_verb c)"

definition access_run :: "apimachinery \<Rightarrow> access_call list \<Rightarrow> AccessChecker \<Rightarrow> AccessChecker" where
  "access_run am calls a = fold (\<lambda>c. snd \<circ> access_step am c) calls a"

abbreviation call_key :: "apimachinery \<Rightarrow> access_call \<Rightarrow> string" where
  "call_key am c \<equiv> accessCacheKey am (ac_gvr c) (ac_namespace c) (ac_verb c)"

definition call_ops :: "apimachinery \<Rightarrow> access_call \<Rightarrow> AccessChecker \<Rightarrow> cache_op list" where
  "call_ops am c a = Cache_Get (ac_now1 c) (call_key am c) #
     (case (fst (lookup a (ac_now1 c) (call_key am c)), ac_answer c) of
        (None, Inr b) \<Rightarrow> [Cache_Set (ac_now2 c) (call_key am c) b]
      | _ \<Rightarrow> [])"

fun run_ops :: "apimachinery \<Rightarrow> access_call list \<Rightarrow> AccessChecker \<Rightarrow> cache_op list" where
  "run_ops am [] a = []"
| "run_ops am (c # cs) a = call_ops am c a @ run_ops am cs (snd (access_step am c a))"

lemma cache_run_append: "cache_run g p (xs @ ys) c = cache_run g p ys (cache_run g p xs c)"
  by (induction g p xs c rule: cache_run.induct) simp_all

lemma call_ops_step: "cache_run lookup store_decision (call_ops am c a) a = snd (access_step am c a)"
  by (auto simp: call_ops_def access_step_def CanAccess_def Let_def split: prod.split option.split sum.split)

lemma run_ops_run: "cache_run lookup store_decision (run_ops am cs a) a = access_run am cs a"
  by (induction cs arbitrary: a) (simp_all add: access_run_def cache_run_append call_ops_step)

lemma last_written_append: "last_written (xs @ ys) m = last_written ys (last_written xs m)"
  by (simp add: last_written_def)

lemma last_written_call:
  "last_written (call_ops am c a) m k = Some (b, t) \<Longrightarrow>
     m k = Some (b, t) \<or> (call_key am c = k \<and> ac_answer c = Inr b \<and> ac_now2 c = t)"
  by (auto simp: call_ops_def split: option.splits sum.splits if_splits)

lemma last_written_run:
  "last_written (run_ops am cs a) m k = Some (b, t) \<Longrightarrow>
     m k = Some (b, t) \<or> (\<exists>c \<in> set cs. call_key am c = k \<and> ac_answer c = Inr b \<and> ac_now2 c = t)"
proof (induction cs arbitrary: a m)
  case (Cons c cs)
  then show ?case
    using Cons.IH [of "snd (access_step am c a)" "last_written (call_ops am c a) m"] last_written_call [of am c a m k b t]
    by (auto simp: last_written_append)
qed simp

lemma wf_NewAccessChecker: "wf_access NewAccessChecker" "(view \<circ> lru) NewAccessChecker = Map.empty"
  by (simp_all add: wf_access_def lru_ok_def view_def NewAccessChecker_def defaultAccessCacheCapacity_def)

lemma wf_access_run: "wf_access (access_run am calls NewAccessChecker)"
  using access_cache.run_inv [OF wf_NewAccessChecker(1)] run_ops_run by metis

text \<open>
  What the code relies on in \<open>schema.GroupResource.String\<close>: resource names hold no dot, the printed
  form then identifies group and resource, and it has no slash when they have none.
\<close>

definition prints_group_resources :: "apimachinery \<Rightarrow> bool" where
  "prints_group_resources am \<longleftrightarrow>
     (\<forall>g r g' r'. CHR ''.'' \<notin> set r \<longrightarrow> CHR ''.'' \<notin> set r' \<longrightarrow>
        GroupResource_String am g r = GroupResource_String am g' r' \<longrightarrow> g = g' \<and> r = r')
     \<and> (\<forall>g r. CHR ''/'' \<notin> set g \<longrightarrow> CHR ''/'' \<notin> set r \<longrightarrow> CHR ''/'' \<notin> set (GroupResource_String am g r))"

text \<open>The names of a request as the API server admits them.\<close>

definition request_names :: "GroupVersionResource \<Rightarrow> string \<Rightarrow> string \<Rightarrow> bool" where
  "request_names gvr namespace verb \<longleftrightarrow>
     CHR ''/'' \<notin> set (gvr_Group gvr) \<union> set (gvr_Version gvr) \<union> set (gvr_Resource gvr) \<union> set namespace \<union> set verb
     \<and> CHR ''.'' \<notin> set (gvr_Resource gvr)"

lemma accessCacheKey_inj:
  assumes "prints_group_resources am" "request_names gvr ns verb" "request_names gvr' ns' verb'"
    and "accessCacheKey am gvr ns verb = accessCacheKey am gvr' ns' verb'"
  shows "gvr = gvr' \<and> ns = ns' \<and> verb = verb'"
proof -
  let ?g = "\<lambda>x. GroupResource_String am (gvr_Group x) (gvr_Resource x)"
  have s: "CHR ''/'' \<notin> set (?g gvr)" "CHR ''/'' \<notin> set (?g gvr')"
    using assms(1-3) by (auto simp: prints_group_resources_def request_names_def)
  have n: "CHR ''/'' \<notin> set ns" "CHR ''/'' \<notin> set ns'" "CHR ''/'' \<notin> set verb" "CHR ''/'' \<notin> set verb'"
    using assms(2,3) by (auto simp: request_names_def)
  have "?g gvr = ?g gvr' \<and> ns = ns' \<and> verb = verb' \<and> gvr_Version gvr = gvr_Version gvr'"
    using assms(4) by (simp add: accessCacheKey_def cut_unique s n)
  moreover have "CHR ''.'' \<notin> set (gvr_Resource gvr)" "CHR ''.'' \<notin> set (gvr_Resource gvr')"
    using assms(2,3) by (auto simp: request_names_def)
  ultimately show ?thesis using assms(1) unfolding prints_group_resources_def
    by (metis (full_types) GroupVersionResource.equality old.unit.exhaust)
qed

lemma hit_from_call:
  assumes "lookup (access_run am calls NewAccessChecker) now1 k = (Some b, a')"
  shows "\<exists>c \<in> set calls. call_key am c = k \<and> ac_answer c = Inr b \<and> now1 \<le> ac_now2 c + 30 * Second"
proof -
  obtain t where "last_written (run_ops am calls NewAccessChecker) Map.empty k = Some (b, t)"
      "now1 \<le> t + cacheTTL NewAccessChecker"
    using access_cache.hit_is_recent [OF wf_NewAccessChecker, of "run_ops am calls NewAccessChecker" now1 k b a'] assms
    unfolding run_ops_run by blast
  then show ?thesis using last_written_run [of am calls NewAccessChecker Map.empty k b t]
    by (auto simp: NewAccessChecker_def)
qed

lemma can_access_fresh:
  assumes "prints_group_resources am" and "request_names gvr ns verb"
    and "list_all (\<lambda>c. request_names (ac_gvr c) (ac_namespace c) (ac_verb c)) calls"
    and "fst (CanAccess am (Some review) now1 now2 (access_run am calls NewAccessChecker) gvr ns verb) = Inr b"
  shows "review gvr ns verb = Inr b
    \<or> (\<exists>c \<in> set calls. ac_gvr c = gvr \<and> ac_namespace c = ns \<and> ac_verb c = verb \<and> ac_answer c = Inr b
         \<and> now1 \<le> ac_now2 c + 30 * Second)"
proof (cases "lookup (access_run am calls NewAccessChecker) now1 (accessCacheKey am gvr ns verb)")
  case (Pair r a')
  show ?thesis
  proof (cases r)
    case None
    then show ?thesis using assms(4) Pair by (auto simp: CanAccess_def Let_def split: sum.splits)
  next
    case (Some b')
    then have "b' = b" using assms(4) Pair by (simp add: CanAccess_def Let_def)
    then obtain c where c: "c \<in> set calls" "call_key am c = accessCacheKey am gvr ns verb" "ac_answer c = Inr b"
        "now1 \<le> ac_now2 c + 30 * Second"
      using hit_from_call Pair Some by blast
    have "request_names (ac_gvr c) (ac_namespace c) (ac_verb c)" using assms(3) c(1) by (simp add: list_all_iff)
    from accessCacheKey_inj [OF assms(1) this assms(2) c(2)] show ?thesis using c by blast
  qed
qed

text \<open>C17. Whatever checks came before, a permission the checker grants or refuses is the API
  server's answer to this very request: given now, or given to the same request at most thirty
  seconds before.\<close>

theorem access_decisions_fresh:
  assumes "prints_group_resources am" and "request_names gvr ns verb"
    and "list_all (\<lambda>c. request_names (ac_gvr c) (ac_namespace c) (ac_verb c)) calls"
    and "fst (CanAccess am (Some review) now1 now2 (access_run am calls NewAccessChecker) gvr ns verb) = Inr b"
  shows "review gvr ns verb = Inr b
    \<or> (\<exists>c \<in> set calls. ac_gvr c = gvr \<and> ac_namespace c = ns \<and> ac_verb c = verb \<and> ac_answer c = Inr b
         \<and> now1 \<le> ac_now2 c + 30 * Second)"
  using assms by (rule can_access_fresh)

text \<open>The cache never holds more than its capacity, after any sequence of checks, and its list
  and its map hold the same keys.\<close>

theorem access_cache_bounded:
  "int (cacheLen (access_run am calls NewAccessChecker)) \<le> defaultAccessCacheCapacity
   \<and> fst ` set (cache (access_run am calls NewAccessChecker))
       = (ace_key \<circ> snd) ` set (lru (access_run am calls NewAccessChecker))"
proof -
  let ?a = "access_run am calls NewAccessChecker"
  have cap: "capacity ?a = defaultAccessCacheCapacity"
  proof -
    have "capacity (snd (lookup a now k)) = capacity a" for a now k
      by (auto simp: lookup_def split: option.split)
    moreover have "capacity (evict a) = capacity a" for a
      by (induction a rule: evict.induct) (subst evict.simps, simp)
    moreover have "capacity (store_decision a now k b) = capacity a" for a now k b
      using calculation(2) by (simp add: store_decision_def Let_def split: option.split)
    ultimately have "capacity (cache_run lookup store_decision ops a) = capacity a" for ops a
      by (induction lookup store_decision ops a rule: cache_run.induct) simp_all
    then show ?thesis using run_ops_run by (metis NewAccessChecker_def AccessChecker.select_convs(2))
  qed
  have ok: "lru_ok (lru ?a) (cache ?a) (next_element ?a)" and le: "int (length (lru ?a)) \<le> capacity ?a"
    using wf_access_run [of am calls] by (auto simp: wf_access_def cap defaultAccessCacheCapacity_def)
  have keys: "set (map fst (cache ?a)) = set (map (ace_key \<circ> snd) (lru ?a))"
    using ok by (simp add: lru_ok_def image_image comp_def)
  have "length (map fst (cache ?a)) = length (map (ace_key \<circ> snd) (lru ?a))"
    using ok distinct_card [of "map fst (cache ?a)"] distinct_card [of "map (ace_key \<circ> snd) (lru ?a)"] keys
    unfolding lru_ok_def by metis
  then show ?thesis using le cap keys by (simp add: cacheLen_def)
qed

section \<open>Example\<close>

lemma example_prints: "prints_group_resources example_machinery"
  unfolding prints_group_resources_def
proof (intro conjI allI impI)
  fix g r g' r' :: string
  assume r: "CHR ''.'' \<notin> set r" "CHR ''.'' \<notin> set r'"
    and eq: "GroupResource_String example_machinery g r = GroupResource_String example_machinery g' r'"
  have no: "r \<noteq> r' @ CHR ''.'' # g'" "r' \<noteq> r @ CHR ''.'' # g" using r by auto
  show "g = g'" "r = r'"
    using eq no cut_unique [OF r, of g g'] by (auto simp: example_machinery_def split: if_splits)
qed (auto simp: example_machinery_def)

definition example_call :: "time \<Rightarrow> bool \<Rightarrow> access_call" where
  "example_call t b = \<lparr>ac_now1 = t, ac_now2 = t, ac_gvr = example_gvr, ac_namespace = ''shop'', ac_verb = ''list'',
     ac_answer = Inr b\<rparr>"

theorem access_decisions_fresh_witness:
  "\<exists>c \<in> set [example_call 0 False]. ac_answer c = Inr False \<and> 5 * Second \<le> ac_now2 c + 30 * Second"
proof -
  have "fst (CanAccess example_machinery (Some (\<lambda>_ _ _. Inr True)) (5 * Second) (5 * Second)
      (access_run example_machinery [example_call 0 False] NewAccessChecker) example_gvr ''shop'' ''list'') = Inr False"
    by code_simp
  moreover have "request_names example_gvr ''shop'' ''list''" by code_simp
  moreover have "list_all (\<lambda>c. request_names (ac_gvr c) (ac_namespace c) (ac_verb c)) [example_call 0 False]"
    by code_simp
  ultimately show ?thesis
    using access_decisions_fresh [OF example_prints, of example_gvr "''shop''" "''list''" "[example_call 0 False]"
        "\<lambda>_ _ _. Inr True" "5 * Second" "5 * Second" False] by auto
qed

end
