(* ===== verification/Engine.thy ===== *)
theory Engine
  imports Target_Fingerprint Extractor Access Store
begin

text \<open>
  The collection engine, \<open>src/internal/collect/engine.go\<close> and \<open>namespace_scope.go\<close>: registering
  targets, choosing informer scopes and turning informer events into store rows. The API server
  (access reviews, the namespace list and the objects an informer lists) is the argument \<open>kube\<close>;
  the clock readings of one dispatch are an argument. Prometheus gauges and log lines are left
  out. \<open>dispatchCh\<close> holds queued jobs and those of senders blocked on a full queue. The code of
  \<open>processDispatch\<close> for one target is \<open>process_target\<close>, up to the row it wants to write, and
  \<open>upsertIfRegistered\<close>; the two may be separated by other steps, see \<open>Engine_Steps\<close>.
\<close>

section \<open>State\<close>

record targetState =
  ts_target :: KollectTarget
  ts_profile :: KollectProfile
  ts_effective :: "(string, unit) gomap"
  ts_scopeEnforced :: bool
  ts_rules :: "CompiledResourceRule list"
  ts_fingerprint :: string

record extractFailureState =
  efs_resources :: "(string, unit) gomap"
  efs_lastErr :: extract_error

datatype informer_object = Live unstructured | Tombstone unstructured | Unknown_Object

record dispatchJob =
  job_gvr :: GroupVersionResource
  job_obj :: informer_object
  job_deleted :: bool

record Engine =
  e_extractor :: Extractor
  e_access :: AccessChecker
  e_scrubber :: Scrubber
  e_scrubKeys :: "string list"
  e_store :: store
  e_started :: "(GroupVersionResource, bool) gomap"
  e_informerScopes :: "(GroupVersionResource, string) gomap"
  e_factories :: "(GroupVersionResource, unstructured list) gomap"
  e_targets :: "(string, targetState) gomap"
  e_targetsByGVR :: "(GroupVersionResource, string list) gomap"
  e_nsMeta :: "(string, NamespaceMeta) gomap"
  e_forbidden :: "(string, unit) gomap"
  e_accessErr :: "(string, unit) gomap"
  e_extractErr :: "(string, extractFailureState) gomap"
  e_defaults :: NamespaceDefaults
  e_dispatchCh :: "dispatchJob list"
  e_backfillDispatches :: nat
  e_metricsSampleInterval :: duration
  e_metricsLastRefresh :: "(string, time) gomap"

record EngineConfig =
  DispatchWorkers :: int
  DispatchQueueSize :: int
  ResyncPeriod :: duration
  MetricsSampleInterval :: duration
  DispatchEnqueueWait :: duration

text \<open>The constants \<open>defaultDispatchWorkers\<close> and its neighbours.\<close>

definition defaultDispatchWorkers :: int where "defaultDispatchWorkers = 4"
definition defaultDispatchQueueSize :: int where "defaultDispatchQueueSize = 512"
definition defaultInformerResync :: duration where "defaultInformerResync = 12 * 60 * Minute"
definition defaultMetricsSampleInterval :: duration where "defaultMetricsSampleInterval = 30 * Second"

definition normalizeEngineConfig :: "EngineConfig \<Rightarrow> EngineConfig" where
  "normalizeEngineConfig cfg = cfg\<lparr>
     DispatchWorkers := (if DispatchWorkers cfg \<le> 0 then defaultDispatchWorkers else DispatchWorkers cfg),
     DispatchQueueSize := (if DispatchQueueSize cfg \<le> 0 then defaultDispatchQueueSize else DispatchQueueSize cfg),
     ResyncPeriod := (if ResyncPeriod cfg \<le> 0 then defaultInformerResync else ResyncPeriod cfg),
     MetricsSampleInterval := (if MetricsSampleInterval cfg \<le> 0 then defaultMetricsSampleInterval
                               else MetricsSampleInterval cfg),
     DispatchEnqueueWait := (if DispatchEnqueueWait cfg < 0 then 0 else DispatchEnqueueWait cfg)\<rparr>"

text \<open>What the API server answers; \<open>kube_objects\<close> is \<open>None\<close> when a cache does not sync.\<close>

record kube =
  kube_review :: "GroupVersionResource \<Rightarrow> string \<Rightarrow> string \<Rightarrow> string + bool"
  kube_namespaces :: "string + (string \<times> NamespaceMeta) list"
  kube_objects :: "GroupVersionResource \<Rightarrow> string \<Rightarrow> unstructured list option"

record clocks =
  clk_lookup :: time
  clk_store :: time
  clk_metrics :: time

definition NewEngine :: "Extractor \<Rightarrow> store \<Rightarrow> EngineConfig \<Rightarrow> Engine" where
  "NewEngine ext st cfg0 =
     (let cfg = normalizeEngineConfig cfg0 in
      \<lparr>e_extractor = ext, e_access = NewAccessChecker, e_scrubber = NewScrubber [], e_scrubKeys = [], e_store = st,
       e_started = [], e_informerScopes = [], e_factories = [], e_targets = [], e_targetsByGVR = [], e_nsMeta = [],
       e_forbidden = [], e_accessErr = [], e_extractErr = [],
       e_defaults = \<lparr>def_Included = [], def_Excluded = []\<rparr>, e_dispatchCh = [], e_backfillDispatches = 0,
       e_metricsSampleInterval = MetricsSampleInterval cfg, e_metricsLastRefresh = []\<rparr>)"

abbreviation e_machinery :: "Engine \<Rightarrow> apimachinery" where
  "e_machinery e \<equiv> machinery (e_extractor e)"

definition SetNamespaceDefaults :: "NamespaceDefaults \<Rightarrow> Engine \<Rightarrow> Engine" where
  "SetNamespaceDefaults defaults e = e\<lparr>e_defaults := defaults\<rparr>"

definition SetScrubKeys :: "string list \<Rightarrow> Engine \<Rightarrow> Engine" where
  "SetScrubKeys keys e = e\<lparr>e_scrubKeys := keys, e_scrubber := NewScrubber keys\<rparr>"

definition scrubberForProfile :: "Engine \<Rightarrow> KollectProfile \<Rightarrow> Scrubber" where
  "scrubberForProfile e profile =
     (let extra = (case prof_Export (prof_Spec profile) of
                     None \<Rightarrow> []
                   | Some ex \<Rightarrow> (case es_Prune ex of None \<Rightarrow> [] | Some p \<Rightarrow> ps_ScrubKeys p))
      in if extra = [] then e_scrubber e else NewScrubber (e_scrubKeys e @ extra))"

section \<open>The index of targets by resource\<close>

definition profile_gvr :: "Engine \<Rightarrow> targetState \<Rightarrow> GroupVersionResource" where
  "profile_gvr e st = gvrFromProfile (e_machinery e) (TargetGVK (prof_Spec (ts_profile st)))"

definition indexTargetLocked :: "string \<Rightarrow> GroupVersionResource \<Rightarrow> Engine \<Rightarrow> Engine" where
  "indexTargetLocked key gvr e =
     (let keys = map_get_or [] (e_targetsByGVR e) gvr in
      if key \<in> set keys then e else e\<lparr>e_targetsByGVR := AList.update gvr (keys @ [key]) (e_targetsByGVR e)\<rparr>)"

text \<open>\<open>remove1\<close> drops the first occurrence, as the loop does.\<close>

definition unindexTargetLocked :: "string \<Rightarrow> GroupVersionResource \<Rightarrow> Engine \<Rightarrow> Engine" where
  "unindexTargetLocked key gvr e =
     (let keys = map_get_or [] (e_targetsByGVR e) gvr in
      if key \<in> set keys then e\<lparr>e_targetsByGVR := AList.update gvr (remove1 key keys) (e_targetsByGVR e)\<rparr> else e)"

section \<open>Failure records\<close>

definition HasForbiddenScope :: "string \<Rightarrow> string \<Rightarrow> Engine \<Rightarrow> bool" where
  "HasForbiddenScope ns name e \<longleftrightarrow> map_of (e_forbidden e) (targetKey ns name) \<noteq> None"

definition HasAccessCheckFailure :: "string \<Rightarrow> string \<Rightarrow> Engine \<Rightarrow> bool" where
  "HasAccessCheckFailure ns name e \<longleftrightarrow> map_of (e_accessErr e) (targetKey ns name) \<noteq> None"

definition ExtractFailures :: "string \<Rightarrow> string \<Rightarrow> Engine \<Rightarrow> nat \<times> extract_error option" where
  "ExtractFailures ns name e = (case map_of (e_extractErr e) (targetKey ns name) of
     None \<Rightarrow> (0, None)
   | Some st \<Rightarrow> (length (efs_resources st), Some (efs_lastErr st)))"

definition recordExtractFailure :: "string \<Rightarrow> string \<Rightarrow> extract_error \<Rightarrow> Engine \<Rightarrow> Engine" where
  "recordExtractFailure key uid err e =
     (let res = (case map_of (e_extractErr e) key of None \<Rightarrow> [] | Some st \<Rightarrow> efs_resources st)
      in e\<lparr>e_extractErr := AList.update key \<lparr>efs_resources = AList.update uid () res, efs_lastErr = err\<rparr> (e_extractErr e)\<rparr>)"

definition clearExtractFailure :: "string \<Rightarrow> string \<Rightarrow> Engine \<Rightarrow> Engine" where
  "clearExtractFailure key uid e = (case map_of (e_extractErr e) key of
     None \<Rightarrow> e
   | Some st \<Rightarrow>
       (let res = AList.delete uid (efs_resources st)
        in if res = [] then e\<lparr>e_extractErr := AList.delete key (e_extractErr e)\<rparr>
           else e\<lparr>e_extractErr := AList.update key (st\<lparr>efs_resources := res\<rparr>) (e_extractErr e)\<rparr>))"

section \<open>Namespaces\<close>

definition refreshNamespaceCache :: "kube option \<Rightarrow> Engine \<Rightarrow> string option \<times> Engine" where
  "refreshNamespaceCache client e = (case client of
     None \<Rightarrow> (None, e)
   | Some k \<Rightarrow> (case kube_namespaces k of
       Inl err \<Rightarrow> (Some (''list namespaces: '' @ err), e)
     | Inr items \<Rightarrow> (None, e\<lparr>e_nsMeta := fold (\<lambda>(name, meta). AList.update name meta) items []\<rparr>)))"

definition RefreshNamespaces :: "kube option \<Rightarrow> Engine \<Rightarrow> string option \<times> Engine" where
  "RefreshNamespaces client e = refreshNamespaceCache client e"

definition NamespaceMetaSnapshot :: "Engine \<Rightarrow> (string, NamespaceMeta) gomap" where
  "NamespaceMetaSnapshot e = e_nsMeta e"

definition NamespaceDefaultsSnapshot :: "Engine \<Rightarrow> NamespaceDefaults" where
  "NamespaceDefaultsSnapshot e = e_defaults e"

definition namespaceMetaFor :: "Engine \<Rightarrow> string \<Rightarrow> NamespaceMeta" where
  "namespaceMetaFor e name = meta_for (e_nsMeta e) name"

definition matchedNamespacesForState ::
  "apimachinery \<Rightarrow> targetState \<Rightarrow> (string, NamespaceMeta) gomap \<Rightarrow> NamespaceDefaults \<Rightarrow> string list" where
  "matchedNamespacesForState am st nsMeta defaults =
     (if ts_effective st \<noteq> [] then sortedUniqueStrings (map fst (ts_effective st))
      else MatchIntentNamespaces am (t_Filter (t_Spec (ts_target st))) (t_NamespaceSelector (t_Spec (ts_target st)))
             nsMeta defaults)"

definition MatchedNamespacesForTarget :: "string \<Rightarrow> string \<Rightarrow> Engine \<Rightarrow> string list" where
  "MatchedNamespacesForTarget ns name e = (case map_of (e_targets e) (targetKey ns name) of
     None \<Rightarrow> []
   | Some st \<Rightarrow> matchedNamespacesForState (e_machinery e) st (e_nsMeta e) (e_defaults e))"

text \<open>\<open>metav1.NamespaceAll\<close> is the empty string.\<close>

fun single_namespace :: "string option \<Rightarrow> string list list \<Rightarrow> string" where
  "single_namespace seen [] = (case seen of None \<Rightarrow> [] | Some s \<Rightarrow> s)"
| "single_namespace seen ([ns] # rest) =
     (case seen of
        None \<Rightarrow> single_namespace (Some ns) rest
      | Some s \<Rightarrow> if ns \<noteq> s then [] else single_namespace seen rest)"
| "single_namespace seen (nss # rest) = []"

definition watchNamespaceForGVR :: "GroupVersionResource \<Rightarrow> Engine \<Rightarrow> string" where
  "watchNamespaceForGVR gvr e =
     single_namespace None
       (map (\<lambda>st. matchedNamespacesForState (e_machinery e) st (e_nsMeta e) (e_defaults e))
         (filter (\<lambda>st. profile_gvr e st = gvr) (map snd (e_targets e))))"

definition NamespacesForClusterTarget :: "string \<Rightarrow> Engine \<Rightarrow> string list" where
  "NamespacesForClusterTarget targetName e =
     sort (filter (\<lambda>ns. ns \<noteq> [])
       (map (\<lambda>(key, st). takeWhile (\<lambda>c. c \<noteq> CHR ''/'') key)
         (filter (\<lambda>(key, st). t_Name (ts_target st) = targetName \<and> CHR ''/'' \<in> set key) (e_targets e))))"

definition ItemCount :: "string \<Rightarrow> string \<Rightarrow> Engine \<Rightarrow> nat" where
  "ItemCount ns name e = fst (CountForTarget ns name (e_store e))"

section \<open>Informers\<close>

definition toUnstructured :: "informer_object \<Rightarrow> unstructured option" where
  "toUnstructured obj = (case obj of Live u \<Rightarrow> Some u | Tombstone u \<Rightarrow> Some u | Unknown_Object \<Rightarrow> None)"

definition isInformerResync :: "informer_object \<Rightarrow> informer_object \<Rightarrow> bool" where
  "isInformerResync oldObj newObj = (case (toUnstructured oldObj, toUnstructured newObj) of
     (Some old, Some new) \<Rightarrow> GetResourceVersion old = GetResourceVersion new
   | _ \<Rightarrow> False)"

definition dispatch :: "GroupVersionResource \<Rightarrow> informer_object \<Rightarrow> bool \<Rightarrow> Engine \<Rightarrow> Engine" where
  "dispatch gvr obj deleted e =
     e\<lparr>e_dispatchCh := e_dispatchCh e @ [\<lparr>job_gvr = gvr, job_obj = obj, job_deleted = deleted\<rparr>]\<rparr>"

definition resyncInformerStore :: "GroupVersionResource \<Rightarrow> unstructured list \<Rightarrow> Engine \<Rightarrow> Engine" where
  "resyncInformerStore gvr objs e = fold (\<lambda>u. dispatch gvr (Live u) False) objs e"

definition informerScope :: "GroupVersionResource \<Rightarrow> Engine \<Rightarrow> string" where
  "informerScope gvr e = (if map_get_or False (e_started e) gvr then map_get_or [] (e_informerScopes e) gvr else [])"

datatype register_error = Compile_Rules rule_error | Informer_Sync GroupVersionResource

text \<open>
  A new informer delivers an add event for every object of its first list; a replaced informer's
  objects are dispatched once more.
\<close>

definition startInformer :: "kube \<Rightarrow> GroupVersionResource \<Rightarrow> bool \<Rightarrow> Engine \<Rightarrow> register_error option \<times> Engine" where
  "startInformer k gvr backfill e =
     (let desiredScope = watchNamespaceForGVR gvr e;
          currentScope = map_get_or [] (e_informerScopes e) gvr;
          informerStarted = map_get_or False (e_started e) gvr;
          runningFactory = map_of (e_factories e) gvr
      in if informerStarted \<and> (currentScope = [] \<or> currentScope = desiredScope) then
           (None, case runningFactory of
                    None \<Rightarrow> e
                  | Some objs \<Rightarrow> if backfill
                      then resyncInformerStore gvr objs (e\<lparr>e_backfillDispatches := e_backfillDispatches e + 1\<rparr>) else e)
         else (case kube_objects k gvr desiredScope of
             None \<Rightarrow> (Some (Informer_Sync gvr), e)
           | Some objs \<Rightarrow>
               (let e1 = resyncInformerStore gvr objs e;
                    e2 = e1\<lparr>e_factories := AList.update gvr objs (e_factories e1),
                            e_started := AList.update gvr True (e_started e1),
                            e_informerScopes := AList.update gvr desiredScope (e_informerScopes e1)\<rparr>
                in (None, case runningFactory of None \<Rightarrow> e2 | Some old \<Rightarrow> resyncInformerStore gvr objs e2))))"

section \<open>Registration\<close>

record RegisterTargetOptions =
  ro_ScopeCeiling :: ScopeCeiling
  ro_EffectiveNamespaces :: "string list"

text \<open>The part of \<open>UnregisterTarget\<close> under the engine's lock; clearing the rows follows.\<close>

definition unregister_locked :: "string \<Rightarrow> string \<Rightarrow> Engine \<Rightarrow> Engine" where
  "unregister_locked ns name e =
     (let key = targetKey ns name;
          e1 = (case map_of (e_targets e) key of None \<Rightarrow> e | Some st \<Rightarrow> unindexTargetLocked key (profile_gvr e st) e)
      in e1\<lparr>e_targets := AList.delete key (e_targets e1), e_forbidden := AList.delete key (e_forbidden e1),
            e_accessErr := AList.delete key (e_accessErr e1), e_extractErr := AList.delete key (e_extractErr e1),
            e_metricsLastRefresh := AList.delete key (e_metricsLastRefresh e1)\<rparr>)"

definition clear_rows :: "string \<Rightarrow> string \<Rightarrow> Engine \<Rightarrow> Engine" where
  "clear_rows ns name e = e\<lparr>e_store := RemoveTarget ns name (e_store e)\<rparr>"

definition UnregisterTarget :: "string \<Rightarrow> string \<Rightarrow> Engine \<Rightarrow> Engine" where
  "UnregisterTarget ns name e = clear_rows ns name (unregister_locked ns name e)"

definition register_locked :: "string \<Rightarrow> targetState \<Rightarrow> Engine \<Rightarrow> Engine" where
  "register_locked key st e =
     (let e1 = (case map_of (e_targets e) key of None \<Rightarrow> e | Some old \<Rightarrow> unindexTargetLocked key (profile_gvr e old) e)
      in indexTargetLocked key (profile_gvr e st) (e1\<lparr>e_targets := AList.update key st (e_targets e1)\<rparr>))"

definition resolve_namespaces ::
  "kube option \<Rightarrow> KollectTarget \<Rightarrow> RegisterTargetOptions \<Rightarrow> Engine \<Rightarrow> string list \<times> Engine" where
  "resolve_namespaces client target opts e =
     (if ro_EffectiveNamespaces opts \<noteq> [] then (ro_EffectiveNamespaces opts, e)
      else (let e1 = snd (refreshNamespaceCache client e);
                flt = t_Filter (t_Spec target);
                matched = MatchIntentNamespaces (e_machinery e1) flt (t_NamespaceSelector (t_Spec target))
                            (e_nsMeta e1) (e_defaults e1)
            in (EffectiveNamespaces matched (ro_ScopeCeiling opts) flt (e_defaults e1), e1)))"

definition new_state ::
  "KollectTarget \<Rightarrow> KollectProfile \<Rightarrow> RegisterTargetOptions \<Rightarrow> string list \<Rightarrow> CompiledResourceRule list \<Rightarrow> targetState" where
  "new_state target profile opts effective compiled =
     \<lparr>ts_target = target, ts_profile = profile, ts_effective = EffectiveNamespaceSet effective,
      ts_scopeEnforced = CeilingRestrictsNamespaces (ro_ScopeCeiling opts), ts_rules = compiled,
      ts_fingerprint = targetStateFingerprint target profile effective\<rparr>"

text \<open>The client of the informers is never nil; the typed client may be.\<close>

definition RegisterTarget ::
  "kube \<Rightarrow> bool \<Rightarrow> KollectTarget \<Rightarrow> KollectProfile \<Rightarrow> RegisterTargetOptions \<Rightarrow> Engine \<Rightarrow> register_error option \<times> Engine" where
  "RegisterTarget k nil_kube target profile opts e =
     (let key = targetKey (t_Namespace target) (t_Name target);
          gvr = gvrFromProfile (e_machinery e) (TargetGVK (prof_Spec profile))
      in if t_Suspend (t_Spec target) then (None, UnregisterTarget (t_Namespace target) (t_Name target) e)
         else (case CompileResourceRules (e_machinery e) (ResourceRules (t_Filter (t_Spec target))) (celEnv (e_extractor e)) of
             Inl err \<Rightarrow> (Some (Compile_Rules err), e)
           | Inr compiled \<Rightarrow>
               (let (effective, e1) = resolve_namespaces (if nil_kube then None else Some k) target opts e;
                    st = new_state target profile opts effective compiled;
                    needsBackfill = (case map_of (e_targets e1) key of
                                       None \<Rightarrow> True
                                     | Some old \<Rightarrow> ts_fingerprint old \<noteq> ts_fingerprint st)
                in startInformer k gvr needsBackfill (register_locked key st e1))))"

section \<open>Matching\<close>

datatype targetMatch = Match_Accepted | Match_Namespace_Mismatch | Match_Filtered

definition LabelMetadataName :: string where "LabelMetadataName = ''kubernetes.io/metadata.name''"

definition namespaceMatches :: "Engine \<Rightarrow> KollectTarget \<Rightarrow> (string, unit) gomap \<Rightarrow> bool \<Rightarrow> string \<Rightarrow> bool" where
  "namespaceMatches e target effective scopeEnforced resourceNamespace =
     (if effective \<noteq> [] then map_of effective resourceNamespace \<noteq> None
      else if scopeEnforced then False
      else (let sel = t_NamespaceSelector (t_Spec target);
                pin = (case sel of None \<Rightarrow> None | Some s \<Rightarrow> map_of (ls_MatchLabels s) LabelMetadataName)
            in case pin of
                 Some name \<Rightarrow> resourceNamespace = name
               | None \<Rightarrow> (case map_of (e_nsMeta e) resourceNamespace of
                   None \<Rightarrow> False
                 | Some meta \<Rightarrow> namespaceMatchesSelector (e_machinery e) sel (nm_Labels meta))))"

definition resource_namespace :: "unstructured \<Rightarrow> string" where
  "resource_namespace u = (if GetNamespace u = [] then NamespaceDefault else GetNamespace u)"

definition matchesTarget :: "Engine \<Rightarrow> targetState \<Rightarrow> GroupVersionResource \<Rightarrow> unstructured \<Rightarrow> targetMatch" where
  "matchesTarget e st gvr u =
     (if \<not> namespaceMatches e (ts_target st) (ts_effective st) (ts_scopeEnforced st) (resource_namespace u)
      then Match_Namespace_Mismatch
      else if \<not> ResourceMatchesRules (e_machinery e) u gvr (ts_target st) (ts_profile st) (ts_rules st) (e_nsMeta e)
      then Match_Filtered
      else if \<not> ShouldCollect (GetLabels u) (namespaceMetaFor e (resource_namespace u)) (ts_target st)
      then Match_Filtered
      else Match_Accepted)"

section \<open>Dispatch\<close>

definition refreshTargetSnapshotMetrics :: "time \<Rightarrow> targetState \<Rightarrow> Engine \<Rightarrow> Engine" where
  "refreshTargetSnapshotMetrics now st e =
     (let ns = t_Namespace (ts_target st); name = t_Name (ts_target st); key = targetKey ns name;
          interval = (if e_metricsSampleInterval e \<le> 0 then defaultMetricsSampleInterval else e_metricsSampleInterval e);
          recent = (case map_of (e_metricsLastRefresh e) key of None \<Rightarrow> False | Some prev \<Rightarrow> now - prev < interval)
      in if recent then e
         else e\<lparr>e_metricsLastRefresh := AList.update key now (e_metricsLastRefresh e),
                e_store := snd (SnapshotTarget ns name (e_store e))\<rparr>)"

definition remove_row :: "targetState \<Rightarrow> unstructured \<Rightarrow> Engine \<Rightarrow> Engine" where
  "remove_row st u e = e\<lparr>e_store := Remove (t_Namespace (ts_target st)) (t_Name (ts_target st)) (GetUID u) (e_store e)\<rparr>"

definition build_item :: "Engine \<Rightarrow> targetState \<Rightarrow> unstructured \<Rightarrow> (string, any) gomap \<Rightarrow> item" where
  "build_item e st u extracted =
     (let profile = ts_profile st; spec = prof_Spec profile; gvk = TargetGVK spec;
          scrubber = scrubberForProfile e profile;
          attrs = ScrubAttributes scrubber (Some extracted);
          full = (case prof_Export spec of
                    Some ex \<Rightarrow>
                      (if ResourceExportEnabled (Some ex)
                       then Some (AList.update (AttributeKey (Some ex))
                              (JObject (PruneResource (GetGeneration u) (u_Object u) ex (Some scrubber)))
                              (case attrs of None \<Rightarrow> [] | Some a \<Rightarrow> a))
                       else attrs)
                  | None \<Rightarrow> attrs)
      in \<lparr>item_targetNamespace = t_Namespace (ts_target st), item_targetName = t_Name (ts_target st),
          item_namespace = GetNamespace u, item_name = GetName u, item_group = gvk_Group gvk,
          item_version = gvk_Version gvk, item_kind = gvk_Kind gvk, item_uid = GetUID u, item_attributes = full\<rparr>)"

definition process_target ::
  "kube option \<Rightarrow> clocks \<Rightarrow> GroupVersionResource \<Rightarrow> unstructured \<Rightarrow> bool \<Rightarrow> targetState \<Rightarrow> Engine \<Rightarrow> item option \<times> Engine" where
  "process_target client clk gvr u deleted st e =
     (let key = targetKey (t_Namespace (ts_target st)) (t_Name (ts_target st)); uid = GetUID u;
          refresh = refreshTargetSnapshotMetrics (clk_metrics clk) st
      in if deleted then (None, clearExtractFailure key uid (refresh (remove_row st u e)))
         else if matchesTarget e st gvr u \<noteq> Match_Accepted then (None, clearExtractFailure key uid (remove_row st u e))
         else (case CanAccess (e_machinery e) (map_option kube_review client) (clk_lookup clk) (clk_store clk)
                      (e_access e) gvr (resource_namespace u) ''list'' of
             (Inl err, acc) \<Rightarrow>
               (None, e\<lparr>e_access := acc, e_accessErr := AList.update key () (e_accessErr e)\<rparr>)
           | (Inr False, acc) \<Rightarrow>
               (None, refresh (remove_row st u
                 (e\<lparr>e_access := acc, e_accessErr := AList.delete key (e_accessErr e),
                    e_forbidden := AList.update key () (e_forbidden e)\<rparr>)))
           | (Inr True, acc) \<Rightarrow>
               (let e1 = e\<lparr>e_access := acc, e_accessErr := AList.delete key (e_accessErr e),
                           e_forbidden := AList.delete key (e_forbidden e)\<rparr>
                in case Extract (e_extractor e1) u (Attributes (prof_Spec (ts_profile st))) of
                     Inl err \<Rightarrow> (None, recordExtractFailure key uid err (refresh (remove_row st u e1)))
                   | Inr attrs \<Rightarrow> (let e2 = clearExtractFailure key uid e1 in (Some (build_item e2 st u attrs), e2)))))"

definition upsertIfRegistered :: "string \<Rightarrow> item \<Rightarrow> Engine \<Rightarrow> bool \<times> Engine" where
  "upsertIfRegistered key it e =
     (if map_of (e_targets e) key = None then (False, e) else (True, e\<lparr>e_store := Upsert it (e_store e)\<rparr>))"

definition commit_item :: "clocks \<Rightarrow> targetState \<Rightarrow> item \<Rightarrow> Engine \<Rightarrow> Engine" where
  "commit_item clk st it e =
     (let ns = t_Namespace (ts_target st); name = t_Name (ts_target st)
      in case upsertIfRegistered (targetKey ns name) it e of
           (False, e1) \<Rightarrow> e1
         | (True, e1) \<Rightarrow>
             refreshTargetSnapshotMetrics (clk_metrics clk) st
               (e1\<lparr>e_store := snd (CountForTarget ns name (e_store e1))\<rparr>))"

definition dispatch_states :: "GroupVersionResource \<Rightarrow> Engine \<Rightarrow> targetState list" where
  "dispatch_states gvr e =
     List.map_filter (\<lambda>key. map_of (e_targets e) key) (map_get_or [] (e_targetsByGVR e) gvr)"

definition processDispatch ::
  "kube option \<Rightarrow> clocks \<Rightarrow> GroupVersionResource \<Rightarrow> informer_object \<Rightarrow> bool \<Rightarrow> Engine \<Rightarrow> Engine" where
  "processDispatch client clk gvr obj deleted e = (case toUnstructured obj of
     None \<Rightarrow> e
   | Some u \<Rightarrow>
       fold (\<lambda>st e. case process_target client clk gvr u deleted st e of
               (None, e') \<Rightarrow> e' | (Some it, e') \<Rightarrow> commit_item clk st it e')
         (dispatch_states gvr e) e)"

definition dispatchWorker :: "kube option \<Rightarrow> clocks \<Rightarrow> bool \<Rightarrow> Engine \<Rightarrow> Engine" where
  "dispatchWorker client clk stopped e =
     (if stopped then e
      else case e_dispatchCh e of
             [] \<Rightarrow> e
           | job # jobs \<Rightarrow>
               processDispatch client clk (job_gvr job) (job_obj job) (job_deleted job) (e\<lparr>e_dispatchCh := jobs\<rparr>))"

end
