(* ===== verification/Scope.thy ===== *)
theory Scope
  imports Collection_Filter
begin

text \<open>
  Tenancy scopes, \<open>src/internal/scope\<close>: choosing the scope of a namespace and checking kinds,
  namespaces and sink references against its lists. What a \<open>List\<close> call of the API server returns
  is an argument. Errors are values with the data of the code's messages. The two scope kinds
  share one contract, the locale \<open>ceiling_check\<close>: the admission check accepts a namespace list
  exactly when the ceiling the collector applies would keep it.
\<close>

section \<open>Errors and bindings\<close>

datatype scope_kind = Scope_Kind | Cluster_Scope_Kind

datatype scope_error =
    Denied_Namespace scope_kind string string
  | Namespace_Not_Allowed scope_kind string string
  | GVK_Not_Allowed scope_kind GroupVersionKind string
  | Sink_Ref_Not_Allowed string string string
  | Static_Ref_Not_Allowed string string
  | List_Failed string

record Binding =
  Enforced :: bool
  b_Scope :: "KollectScope option"

record ClusterBinding =
  cb_Enforced :: bool
  cb_Scope :: "KollectClusterScope option"

definition Load :: "string + KollectScope list \<Rightarrow> scope_error + Binding" where
  "Load listed = (case listed of
     Inl err \<Rightarrow> Inl (List_Failed err)
   | Inr [] \<Rightarrow> Inr \<lparr>Enforced = False, b_Scope = None\<rparr>
   | Inr (s # ss) \<Rightarrow>
       Inr \<lparr>Enforced = True,
            b_Scope = Some (fold (\<lambda>item scope. if ks_Name item < ks_Name scope then item else scope) ss s)\<rparr>)"

definition LoadCluster :: "string + KollectClusterScope list \<Rightarrow> scope_error + ClusterBinding" where
  "LoadCluster listed = (case listed of
     Inl err \<Rightarrow> Inl (List_Failed err)
   | Inr [] \<Rightarrow> Inr \<lparr>cb_Enforced = False, cb_Scope = None\<rparr>
   | Inr (s # ss) \<Rightarrow>
       Inr \<lparr>cb_Enforced = True,
            cb_Scope = Some (fold (\<lambda>item scope. if kcs_Name item < kcs_Name scope then item else scope) ss s)\<rparr>)"

section \<open>Kinds\<close>

definition gvkMatches :: "GroupVersionKind \<Rightarrow> GroupVersionKind \<Rightarrow> bool" where
  "gvkMatches allowed got \<longleftrightarrow>
     EqualFold (gvk_Group allowed) (gvk_Group got)
     \<and> EqualFold (gvk_Version allowed) (gvk_Version got)
     \<and> EqualFold (gvk_Kind allowed) (gvk_Kind got)"

definition ValidateTargetGVK :: "KollectScope option \<Rightarrow> GroupVersionKind \<Rightarrow> scope_error option" where
  "ValidateTargetGVK scope gvk = (case scope of
     None \<Rightarrow> None
   | Some s \<Rightarrow>
       (let allowed = AllowedGVKs (ks_Ceiling (ks_Spec s)) in
        if allowed = [] \<or> list_ex (\<lambda>a. gvkMatches a gvk) allowed then None
        else Some (GVK_Not_Allowed Scope_Kind gvk (ks_Name s))))"

fun first_error :: "('a \<Rightarrow> 'e option) \<Rightarrow> 'a list \<Rightarrow> 'e option" where
  "first_error f [] = None"
| "first_error f (x # xs) = (case f x of Some e \<Rightarrow> Some e | None \<Rightarrow> first_error f xs)"

definition ValidateResourceRuleGVKs :: "KollectScope option \<Rightarrow> GroupVersionKind list \<Rightarrow> scope_error option" where
  "ValidateResourceRuleGVKs scope gvks = (case scope of
     None \<Rightarrow> None
   | Some s \<Rightarrow> if AllowedGVKs (ks_Ceiling (ks_Spec s)) = [] then None
               else first_error (ValidateTargetGVK scope) gvks)"

definition ValidateClusterScopeGVKs :: "KollectClusterScope option \<Rightarrow> GroupVersionKind \<Rightarrow> scope_error option" where
  "ValidateClusterScopeGVKs scope gvk = (case scope of
     None \<Rightarrow> None
   | Some s \<Rightarrow>
       (let allowed = AllowedGVKs (kcs_Ceiling (kcs_Spec s)) in
        if allowed = [] \<or> list_ex (\<lambda>a. gvkMatches a gvk) allowed then None
        else Some (GVK_Not_Allowed Cluster_Scope_Kind gvk (kcs_Name s))))"

definition CollectRuleGVKs :: "CollectionFilterSpec \<Rightarrow> GroupVersionKind \<Rightarrow> GroupVersionKind list" where
  "CollectRuleGVKs flt profileGVK =
     (if ResourceRules flt = [] then [profileGVK] else map rule_GVK (ResourceRules flt))"

section \<open>Namespaces\<close>

definition ValidateDeniedNamespaces :: "KollectScope option \<Rightarrow> string list \<Rightarrow> scope_error option" where
  "ValidateDeniedNamespaces scope namespaces = (case scope of
     None \<Rightarrow> None
   | Some s \<Rightarrow>
       (let denied = sc_DeniedNamespaces (ks_Ceiling (ks_Spec s)) in
        if denied = [] then None
        else first_error (\<lambda>ns. if ns \<in> set denied then Some (Denied_Namespace Scope_Kind ns (ks_Name s)) else None)
               namespaces))"

definition ValidateWorkloadNamespaces :: "KollectScope option \<Rightarrow> string list \<Rightarrow> scope_error option" where
  "ValidateWorkloadNamespaces scope namespaces = (case scope of
     None \<Rightarrow> None
   | Some s \<Rightarrow>
       (let allowed = sc_AllowedNamespaces (ks_Ceiling (ks_Spec s)) in
        if allowed = [] then None
        else first_error (\<lambda>ns. if ns \<in> set allowed then None else Some (Namespace_Not_Allowed Scope_Kind ns (ks_Name s)))
               namespaces))"

definition ValidateTargetIncludedNamespaces :: "KollectScope option \<Rightarrow> string list \<Rightarrow> scope_error option" where
  "ValidateTargetIncludedNamespaces scope namespaces = (case scope of
     None \<Rightarrow> None
   | Some s \<Rightarrow> (case ValidateDeniedNamespaces scope namespaces of
       Some err \<Rightarrow> Some err
     | None \<Rightarrow> ValidateWorkloadNamespaces scope namespaces))"

definition ValidateClusterScopeDeniedNamespaces :: "KollectClusterScope option \<Rightarrow> string list \<Rightarrow> scope_error option" where
  "ValidateClusterScopeDeniedNamespaces scope namespaces = (case scope of
     None \<Rightarrow> None
   | Some s \<Rightarrow>
       (let denied = sc_DeniedNamespaces (kcs_Ceiling (kcs_Spec s)) in
        if denied = [] then None
        else first_error
               (\<lambda>ns. if ns \<in> set denied then Some (Denied_Namespace Cluster_Scope_Kind ns (kcs_Name s)) else None)
               namespaces))"

definition ValidateClusterScopeNamespaces :: "KollectClusterScope option \<Rightarrow> string list \<Rightarrow> scope_error option" where
  "ValidateClusterScopeNamespaces scope namespaces = (case scope of
     None \<Rightarrow> None
   | Some s \<Rightarrow> (case ValidateClusterScopeDeniedNamespaces scope namespaces of
       Some err \<Rightarrow> Some err
     | None \<Rightarrow>
         (let allowed = sc_AllowedNamespaces (kcs_Ceiling (kcs_Spec s)) in
          if allowed = [] then None
          else first_error
                 (\<lambda>ns. if ns \<in> set allowed then None else Some (Namespace_Not_Allowed Cluster_Scope_Kind ns (kcs_Name s)))
                 namespaces)))"

definition NormalizeNamespaceList :: "string list \<Rightarrow> string list" where
  "NormalizeNamespaceList values = fresh_strings [] (map TrimSpace values)"

definition ValidateClusterScopeStaticRefNamespace :: "KollectClusterScope option \<Rightarrow> string \<Rightarrow> scope_error option" where
  "ValidateClusterScopeStaticRefNamespace scope ns = (case scope of
     None \<Rightarrow> None
   | Some s \<Rightarrow>
       (let allowed = AllowedStaticRefNamespaces (kcs_Spec s); n = TrimSpace ns in
        if allowed = [] \<or> list_ex (\<lambda>a. a = n) allowed then None else Some (Static_Ref_Not_Allowed n (kcs_Name s))))"

section \<open>Sink references\<close>

definition validateRefInAllowlist :: "string \<Rightarrow> string list \<Rightarrow> string \<Rightarrow> string \<Rightarrow> scope_error option" where
  "validateRefInAllowlist name allowed family scopeName =
     (if name \<in> set allowed then None else Some (Sink_Ref_Not_Allowed family name scopeName))"

text \<open>
  The \<open>switch\<close> on the family; \<open>None\<close> for a family the code skips.
\<close>

definition family_list :: "string list \<Rightarrow> string list \<Rightarrow> string list \<Rightarrow> string \<Rightarrow> string list option" where
  "family_list snapshot database event family =
     (if family = SinkFamilySnapshot then Some snapshot
      else if family = SinkFamilyDatabase then Some database
      else if family = SinkFamilyEvent then Some event
      else None)"

definition check_binding :: "(string \<Rightarrow> string list option) \<Rightarrow> string \<Rightarrow> InventorySinkBinding \<Rightarrow> scope_error option" where
  "check_binding allowlist scopeName binding = (case allowlist (isb_Family binding) of
     None \<Rightarrow> None
   | Some allowed \<Rightarrow> if allowed = [] then None
                     else validateRefInAllowlist (isb_Name binding) allowed (isb_Family binding) scopeName)"

definition scope_lists :: "KollectScopeSpec \<Rightarrow> string \<Rightarrow> string list option" where
  "scope_lists spec = family_list (ks_SnapshotSinkRefs spec) (ks_DatabaseSinkRefs spec) (ks_EventSinkRefs spec)"

definition cluster_scope_lists :: "KollectClusterScopeSpec \<Rightarrow> string \<Rightarrow> string list option" where
  "cluster_scope_lists spec = family_list (kcs_SnapshotSinkRefs spec) (kcs_DatabaseSinkRefs spec) (kcs_EventSinkRefs spec)"

definition ValidateInventoryFamilySinkRefs ::
  "KollectScope option \<Rightarrow> InventorySinkBinding list \<Rightarrow> scope_error option" where
  "ValidateInventoryFamilySinkRefs scope bindings = (case scope of
     None \<Rightarrow> None
   | Some s \<Rightarrow> first_error (check_binding (scope_lists (ks_Spec s)) (ks_Name s)) bindings)"

definition ValidateClusterInventoryClusterScopeSinkRefs ::
  "KollectClusterScope option \<Rightarrow> InventorySinkBinding list \<Rightarrow> scope_error option" where
  "ValidateClusterInventoryClusterScopeSinkRefs scope bindings = (case scope of
     None \<Rightarrow> None
   | Some s \<Rightarrow> first_error (check_binding (cluster_scope_lists (kcs_Spec s)) (kcs_Name s)) bindings)"

definition ValidateSinkRefs :: "KollectScope option \<Rightarrow> string list \<Rightarrow> scope_error option" where
  "ValidateSinkRefs scope refs =
     ValidateInventoryFamilySinkRefs scope
       (map (\<lambda>ref. \<lparr>isb_Name = ref, isb_Family = SinkFamilySnapshot,
          isb_Ref = \<lparr>isr_Name = [], isr_Namespace = [], isr_ExportMinInterval = None, isr_MaxExportBytes = None\<rparr>\<rparr>)
         refs)"

definition ClusterInventoryStaticRefNamespaces :: "KollectClusterInventorySpec option \<Rightarrow> string \<Rightarrow> string list" where
  "ClusterInventoryStaticRefNamespaces spec defaultSinkNS = (case spec of
     None \<Rightarrow> []
   | Some s \<Rightarrow>
       (let dflt = TrimSpace defaultSinkNS;
            add = (\<lambda>ns (seen :: (string, unit) gomap). if ns = [] then seen else AList.update ns () seen);
            seen0 = (case cinv_ProfileRef s of None \<Rightarrow> [] | Some r \<Rightarrow> add (TrimSpace (ref_Namespace r)) []);
            seen = fold (\<lambda>b. let ns = TrimSpace (isr_Namespace (isb_Ref b)) in add (if ns = [] then dflt else ns))
                     (CollectClusterInventorySinkBindings s) seen0
        in sort (map fst seen)))"

section \<open>Lemmas\<close>

lemma first_error_None [simp]: "first_error f xs = None \<longleftrightarrow> (\<forall>x \<in> set xs. f x = None)"
  by (induction xs) (auto split: option.splits)

lemma first_error_Some:
  "first_error f xs = Some e \<longleftrightarrow>
     (\<exists>i < length xs. f (xs ! i) = Some e \<and> (\<forall>j < i. f (xs ! j) = None))"
proof (induction xs)
  case (Cons a xs)
  then show ?case
    by (cases "f a") (simp_all add: Ex_less_Suc2 All_less_Suc2)
qed simp

lemma chain_None [simp]: "(case a of Some e \<Rightarrow> Some e | None \<Rightarrow> b) = None \<longleftrightarrow> a = None \<and> b = None"
  by (cases a) simp_all

lemma fold_min_name:
  fixes f :: "'a \<Rightarrow> string" and ss :: "'a list" and s :: 'a
  defines "m \<equiv> fold (\<lambda>item scope. if f item < f scope then item else scope) ss s"
  shows "m \<in> set (s # ss) \<and> (\<forall>x \<in> set (s # ss). f m \<le> f x)"
  unfolding m_def
proof (induction ss arbitrary: s)
  case (Cons a ss)
  show ?case using Cons.IH [of a] Cons.IH [of s] by (auto intro: order.trans)
qed simp

section \<open>Admission and collection agree\<close>

text \<open>
  The contract of a scope kind: its ceiling, and a check that accepts a list of namespaces exactly
  when each of them passes the ceiling's lists.
\<close>

definition ceiling_admits :: "ScopeCeiling \<Rightarrow> string \<Rightarrow> bool" where
  "ceiling_admits c ns \<longleftrightarrow>
     ns \<notin> set (DeniedNamespaces c) \<and> (AllowedNamespaces c = [] \<or> ns \<in> set (AllowedNamespaces c))"

abbreviation no_defaults :: NamespaceDefaults where
  "no_defaults \<equiv> \<lparr>def_Included = [], def_Excluded = []\<rparr>"

locale ceiling_check =
  fixes check :: "'scope option \<Rightarrow> string list \<Rightarrow> scope_error option"
    and ceiling :: "'scope option \<Rightarrow> ScopeCeiling"
  assumes check_iff: "check scope namespaces = None \<longleftrightarrow> list_all (ceiling_admits (ceiling scope)) namespaces"
begin

lemma effective_subset:
  assumes "check scope namespaces = None"
  shows "set (EffectiveNamespaces namespaces (ceiling scope) flt defaults) =
     set namespaces - {[]} - set (ExcludedNamespaces flt) - set (def_Excluded defaults)"
  using assms by (auto simp: check_iff set_EffectiveNamespaces ceiling_admits_def list_all_iff)

lemma effective_checked: "check scope (EffectiveNamespaces matched (ceiling scope) flt defaults) = None"
  by (auto simp: check_iff set_EffectiveNamespaces ceiling_admits_def list_all_iff)

lemma check_monotone: "set xs \<subseteq> set ys \<Longrightarrow> check scope ys = None \<Longrightarrow> check scope xs = None"
  by (auto simp: check_iff list_all_iff)

end

interpretation kscope: ceiling_check ValidateTargetIncludedNamespaces ScopeCeilingFromScope
proof
  show "ValidateTargetIncludedNamespaces scope namespaces = None \<longleftrightarrow>
      list_all (ceiling_admits (ScopeCeilingFromScope scope)) namespaces" for scope namespaces
    by (cases scope) (auto simp: ValidateTargetIncludedNamespaces_def ValidateDeniedNamespaces_def
        ValidateWorkloadNamespaces_def ScopeCeilingFromScope_def ceiling_admits_def list_all_iff Let_def)
qed

interpretation kcscope: ceiling_check ValidateClusterScopeNamespaces ScopeCeilingFromClusterScope
proof
  show "ValidateClusterScopeNamespaces scope namespaces = None \<longleftrightarrow>
      list_all (ceiling_admits (ScopeCeilingFromClusterScope scope)) namespaces" for scope namespaces
    by (cases scope) (auto simp: ValidateClusterScopeNamespaces_def ValidateClusterScopeDeniedNamespaces_def
        ScopeCeilingFromClusterScope_def ceiling_admits_def list_all_iff Let_def)
qed

lemma effective_all_iff:
  assumes "[] \<notin> set namespaces" "ExcludedNamespaces flt = []"
  shows "list_all (ceiling_admits c) namespaces \<longleftrightarrow>
    set (EffectiveNamespaces namespaces c flt no_defaults) = set namespaces"
  using assms by (auto simp: set_EffectiveNamespaces ceiling_admits_def list_all_iff)

text \<open>C13. Admission and collection agree for both scope kinds: a list of namespaces passes the
  admission check exactly when the ceiling applied while collecting keeps all of it.\<close>

theorem admission_agrees_with_collection:
  assumes "[] \<notin> set namespaces" and "ExcludedNamespaces flt = []"
  shows "(ValidateTargetIncludedNamespaces scope namespaces = None \<longleftrightarrow>
      set (EffectiveNamespaces namespaces (ScopeCeilingFromScope scope) flt no_defaults) = set namespaces)
    \<and> (ValidateClusterScopeNamespaces cscope namespaces = None \<longleftrightarrow>
      set (EffectiveNamespaces namespaces (ScopeCeilingFromClusterScope cscope) flt no_defaults) = set namespaces)"
  by (simp add: kscope.check_iff kcscope.check_iff effective_all_iff [OF assms])

definition example_scope :: "string \<Rightarrow> string list \<Rightarrow> string list \<Rightarrow> KollectScope" where
  "example_scope name allowed denied = \<lparr>ks_Name = name, ks_Spec = \<lparr>
     ks_Ceiling = \<lparr>AllowedGVKs = [\<lparr>gvk_Group = ''apps'', gvk_Version = ''v1'', gvk_Kind = ''deployment''\<rparr>],
       sc_AllowedNamespaces = allowed, sc_DeniedNamespaces = denied, MinExportInterval = None\<rparr>,
     ks_SnapshotSinkRefs = [''archive''], ks_DatabaseSinkRefs = [], ks_EventSinkRefs = []\<rparr>\<rparr>"

theorem admission_agrees_with_collection_witness:
  "ValidateTargetIncludedNamespaces (Some (example_scope ''s'' [''shop''] [])) [''shop'', ''legacy''] \<noteq> None
   \<and> set (EffectiveNamespaces [''shop'', ''legacy''] (ScopeCeilingFromScope (Some (example_scope ''s'' [''shop''] [])))
        ((example_filter [])\<lparr>ExcludedNamespaces := []\<rparr>) no_defaults) \<noteq> {''shop'', ''legacy''}"
  using admission_agrees_with_collection [of "[''shop'', ''legacy'']" "(example_filter [])\<lparr>ExcludedNamespaces := []\<rparr>"
      "Some (example_scope ''s'' [''shop''] [])" None]
  by (simp add: ValidateTargetIncludedNamespaces_def ValidateDeniedNamespaces_def
      ValidateWorkloadNamespaces_def example_scope_def)

section \<open>The scope of a namespace\<close>

lemma Load_least:
  assumes "items \<noteq> []"
  shows "\<exists>s. Load (Inr items) = Inr \<lparr>Enforced = True, b_Scope = Some s\<rparr> \<and> s \<in> set items
    \<and> (\<forall>x \<in> set items. ks_Name s \<le> ks_Name x)"
proof (cases items)
  case (Cons a ss)
  then show ?thesis using fold_min_name [of ks_Name ss a] by (simp add: Load_def)
qed (use assms in simp)

lemma distinct_name_inj:
  "distinct (map f xs) \<Longrightarrow> x \<in> set xs \<Longrightarrow> y \<in> set xs \<Longrightarrow> f x = f y \<Longrightarrow> x = y"
  by (simp add: distinct_map inj_on_def)

text \<open>The scope in force does not depend on the order the API server lists scopes in: it is
  the one with the least name, and without scopes nothing is enforced.\<close>

theorem scope_choice_deterministic:
  assumes "distinct (map ks_Name items)" and "set items' = set items"
  shows "Load (Inr items') = Load (Inr items)
    \<and> (if items = [] then Load (Inr items) = Inr \<lparr>Enforced = False, b_Scope = None\<rparr>
       else \<exists>s \<in> set items. Load (Inr items) = Inr \<lparr>Enforced = True, b_Scope = Some s\<rparr>
              \<and> (\<forall>x \<in> set items. ks_Name s \<le> ks_Name x))"
proof (cases "items = []")
  case True
  then show ?thesis using assms(2) by (simp add: Load_def)
next
  case False
  then have ne: "items' \<noteq> []" using assms(2) by auto
  obtain s where s: "Load (Inr items) = Inr \<lparr>Enforced = True, b_Scope = Some s\<rparr>" "s \<in> set items"
      "\<forall>x \<in> set items. ks_Name s \<le> ks_Name x"
    using Load_least [OF False] by blast
  obtain s' where s': "Load (Inr items') = Inr \<lparr>Enforced = True, b_Scope = Some s'\<rparr>" "s' \<in> set items"
      "\<forall>x \<in> set items. ks_Name s' \<le> ks_Name x"
    using Load_least [OF ne] unfolding assms(2) by blast
  have "ks_Name s = ks_Name s'" using s(2,3) s'(2,3) by (simp add: order.antisym)
  then have "s = s'" using distinct_name_inj [OF assms(1) s(2) s'(2)] by blast
  then show ?thesis using False s s'(1) by auto
qed

theorem scope_choice_deterministic_witness:
  "Load (Inr [example_scope ''b'' [] [], example_scope ''a'' [] []])
     = Load (Inr [example_scope ''a'' [] [], example_scope ''b'' [] []])"
proof -
  have "distinct (map ks_Name [example_scope ''a'' [] [], example_scope ''b'' [] []])"
    by (simp add: example_scope_def)
  from scope_choice_deterministic [OF this, of "[example_scope ''b'' [] [], example_scope ''a'' [] []]"]
  show ?thesis by (simp add: insert_commute)
qed

section \<open>Kinds and sinks\<close>

lemma ValidateTargetGVK_cases:
  "ValidateTargetGVK (Some s) g = None \<longleftrightarrow>
     AllowedGVKs (ks_Ceiling (ks_Spec s)) = [] \<or> (\<exists>a \<in> set (AllowedGVKs (ks_Ceiling (ks_Spec s))). gvkMatches a g)"
  "ValidateTargetGVK (Some s) g = Some err \<longleftrightarrow>
     AllowedGVKs (ks_Ceiling (ks_Spec s)) \<noteq> []
     \<and> \<not> (\<exists>a \<in> set (AllowedGVKs (ks_Ceiling (ks_Spec s))). gvkMatches a g)
     \<and> err = GVK_Not_Allowed Scope_Kind g (ks_Name s)"
  by (auto simp: ValidateTargetGVK_def Let_def list_ex_iff)

text \<open>The kinds a target collects (its rules' or, without rules, its profile's) are refused
  exactly when some kind matches no entry of a non-empty list, letter case aside, and the error
  names the first such kind.\<close>

theorem rule_kinds_enforced:
  "ValidateResourceRuleGVKs (Some s) (CollectRuleGVKs flt profileGVK) = Some err \<longleftrightarrow>
     AllowedGVKs (ks_Ceiling (ks_Spec s)) \<noteq> []
     \<and> (\<exists>i < length (CollectRuleGVKs flt profileGVK).
          let ok = (\<lambda>g. \<exists>a \<in> set (AllowedGVKs (ks_Ceiling (ks_Spec s))). gvkMatches a g) in
          \<not> ok (CollectRuleGVKs flt profileGVK ! i)
          \<and> (\<forall>j < i. ok (CollectRuleGVKs flt profileGVK ! j))
          \<and> err = GVK_Not_Allowed Scope_Kind (CollectRuleGVKs flt profileGVK ! i) (ks_Name s))"
  by (cases "AllowedGVKs (ks_Ceiling (ks_Spec s)) = []")
    (simp_all add: ValidateResourceRuleGVKs_def first_error_Some ValidateTargetGVK_cases Let_def conj_ac)

theorem rule_kinds_enforced_witness:
  "ValidateResourceRuleGVKs (Some (example_scope ''s'' [] []))
     (CollectRuleGVKs (example_filter [example_rule ''Deployment'' [], example_rule ''Secret'' []])
       (TargetGVK (prof_Spec (example_profile []))))
   = Some (GVK_Not_Allowed Scope_Kind \<lparr>gvk_Group = ''apps'', gvk_Version = ''v1'', gvk_Kind = ''Secret''\<rparr> ''s'')"
proof -
  have e: "EqualFold ''deployment'' ''Deployment''" "\<not> EqualFold ''deployment'' ''Secret''"
    by code_simp+
  show ?thesis
    unfolding rule_kinds_enforced
    by (simp add: Ex_less_Suc2 CollectRuleGVKs_def example_filter_def example_rule_def example_scope_def
        gvkMatches_def e Let_def)
qed

text \<open>An inventory's sink references pass the scope exactly when, for each sink family with a
  non-empty list in the scope, every referenced name of that family is on the list.\<close>

theorem sink_refs_enforced:
  "ValidateInventoryFamilySinkRefs (Some s) (CollectInventorySinkBindings spec) = None \<longleftrightarrow>
     (\<forall>(allowed, refs) \<in> {(ks_SnapshotSinkRefs (ks_Spec s), inv_SnapshotSinkRefs spec),
                          (ks_DatabaseSinkRefs (ks_Spec s), inv_DatabaseSinkRefs spec),
                          (ks_EventSinkRefs (ks_Spec s), inv_EventSinkRefs spec)}.
        allowed = [] \<or> isr_Name ` set refs \<subseteq> set allowed)"
proof -
  have fam: "(\<forall>b \<in> set (append_bindings family refs). check_binding (scope_lists sp) nm b = None)
      \<longleftrightarrow> allowed = [] \<or> isr_Name ` set refs \<subseteq> set allowed"
    if "scope_lists sp family = Some allowed" for family refs sp nm allowed
    using that by (auto simp: append_bindings_def check_binding_def validateRefInAllowlist_def)
  have l: "scope_lists sp SinkFamilySnapshot = Some (ks_SnapshotSinkRefs sp)"
    "scope_lists sp SinkFamilyDatabase = Some (ks_DatabaseSinkRefs sp)"
    "scope_lists sp SinkFamilyEvent = Some (ks_EventSinkRefs sp)" for sp
    by (simp_all add: scope_lists_def family_list_def api_consts)
  show ?thesis
    by (simp add: ValidateInventoryFamilySinkRefs_def CollectInventorySinkBindings_def collectSinkBindings_def
        ball_Un fam [OF l(1)] fam [OF l(2)] fam [OF l(3)])
qed

theorem sink_refs_enforced_witness:
  "ValidateInventoryFamilySinkRefs (Some (example_scope ''s'' [] []))
     (CollectInventorySinkBindings \<lparr>inv_SnapshotSinkRefs = NewSinkRefList [''archive''],
        inv_DatabaseSinkRefs = NewSinkRefList [''pg''], inv_EventSinkRefs = [],
        inv_ExportMinInterval = None, inv_MaxExportBytes = None, inv_Suspend = False\<rparr>) = None"
  unfolding sink_refs_enforced by (simp add: example_scope_def NewSinkRefList_def)

section \<open>Normalised lists\<close>

lemma NormalizeNamespaceList_props:
  "distinct (NormalizeNamespaceList xs)" "[] \<notin> set (NormalizeNamespaceList xs)"
  "set (NormalizeNamespaceList xs) = TrimSpace ` set xs - {[]}"
  by (auto simp: NormalizeNamespaceList_def distinct_fresh_strings set_fresh_strings)

lemma fresh_strings_id: "distinct vs \<Longrightarrow> [] \<notin> set vs \<Longrightarrow> set vs \<inter> set seen = {} \<Longrightarrow> fresh_strings seen vs = vs"
  by (induction seen vs rule: fresh_strings.induct) auto

lemma NormalizeNamespaceList_idem:
  "NormalizeNamespaceList (NormalizeNamespaceList xs) = NormalizeNamespaceList xs"
proof -
  have "map TrimSpace (NormalizeNamespaceList xs) = NormalizeNamespaceList xs"
    by (rule map_idI) (auto simp: NormalizeNamespaceList_props(3))
  then show ?thesis
    using fresh_strings_id [OF NormalizeNamespaceList_props(1,2), of xs "[]"]
    by (simp add: NormalizeNamespaceList_def [of "NormalizeNamespaceList xs"])
qed

end
