(* ===== verification/Engine_Dispatch.thy ===== *)
theory Engine_Dispatch
  imports Engine Scope
begin

text \<open>
  Properties of the engine for one operation at a time: what a dispatch leaves in the store, the
  index of targets, the ceiling and the informers.
\<close>

section \<open>What a dispatch leaves alone\<close>

definition config where
  "config e = (e_extractor e, e_nsMeta e, e_targets e, e_targetsByGVR e, e_scrubber e, e_scrubKeys e, e_defaults e)"

lemma config_helpers [simp]:
  "config (clearExtractFailure key uid e) = config e"
  "config (recordExtractFailure key uid err e) = config e"
  "config (refreshTargetSnapshotMetrics now st e) = config e"
  "config (remove_row st u e) = config e"
  by (simp_all add: config_def clearExtractFailure_def recordExtractFailure_def
      refreshTargetSnapshotMetrics_def remove_row_def Let_def split: option.split)

lemma access_helpers [simp]:
  "e_access (clearExtractFailure key uid e) = e_access e"
  "e_access (recordExtractFailure key uid err e) = e_access e"
  "e_access (refreshTargetSnapshotMetrics now st e) = e_access e"
  "e_access (remove_row st u e) = e_access e"
  by (simp_all add: clearExtractFailure_def recordExtractFailure_def
      refreshTargetSnapshotMetrics_def remove_row_def Let_def split: option.split)

lemma rows_read [simp]: "rows (snd (shardFor ns s)) = rows s"
  by (simp add: fun_eq_iff)

lemma store_helpers [simp]:
  "e_store (clearExtractFailure key uid e) = e_store e"
  "e_store (recordExtractFailure key uid err e) = e_store e"
  "rows (e_store (refreshTargetSnapshotMetrics now st e)) = rows (e_store e)"
  "rows (e_store (remove_row st u e)) ns name uid =
     (if (ns, name, uid) = (t_Namespace (ts_target st), t_Name (ts_target st), GetUID u) then None
      else rows (e_store e) ns name uid)"
  by (auto simp: clearExtractFailure_def recordExtractFailure_def refreshTargetSnapshotMetrics_def remove_row_def
      Let_def read_state rows_Remove split: option.split)

lemma accessErr_helpers [simp]:
  "e_accessErr (clearExtractFailure key uid e) = e_accessErr e"
  "e_accessErr (recordExtractFailure key uid err e) = e_accessErr e"
  "e_accessErr (refreshTargetSnapshotMetrics now st e) = e_accessErr e"
  "e_accessErr (remove_row st u e) = e_accessErr e"
  by (simp_all add: clearExtractFailure_def recordExtractFailure_def
      refreshTargetSnapshotMetrics_def remove_row_def Let_def split: option.split)

lemma config_fields:
  "config e = config e' \<Longrightarrow> e_extractor e = e_extractor e' \<and> e_nsMeta e = e_nsMeta e' \<and> e_targets e = e_targets e'
     \<and> e_targetsByGVR e = e_targetsByGVR e' \<and> e_scrubber e = e_scrubber e' \<and> e_scrubKeys e = e_scrubKeys e'
     \<and> e_defaults e = e_defaults e'"
  by (simp add: config_def)

lemma matchesTarget_config: "config e = config e' \<Longrightarrow> matchesTarget e st gvr u = matchesTarget e' st gvr u"
  by (drule config_fields, elim conjE) (simp only: matchesTarget_def namespaceMatches_def namespaceMetaFor_def
      cong: option.case_cong if_cong)

lemma build_item_config: "config e = config e' \<Longrightarrow> build_item e st u attrs = build_item e' st u attrs"
  by (drule config_fields, elim conjE) (simp only: build_item_def scrubberForProfile_def)

lemma dispatch_states_config: "config e = config e' \<Longrightarrow> dispatch_states gvr e = dispatch_states gvr e'"
  by (drule config_fields) (simp add: dispatch_states_def)

abbreviation tkey :: "targetState \<Rightarrow> string" where
  "tkey st \<equiv> targetKey (t_Namespace (ts_target st)) (t_Name (ts_target st))"

lemma build_item_key [simp]:
  "item_targetNamespace (build_item e st u attrs) = t_Namespace (ts_target st)"
  "item_targetName (build_item e st u attrs) = t_Name (ts_target st)"
  "item_uid (build_item e st u attrs) = GetUID u"
  by (simp_all add: build_item_def Let_def)

section \<open>One target\<close>

definition dispatch_one ::
  "kube option \<Rightarrow> clocks \<Rightarrow> GroupVersionResource \<Rightarrow> unstructured \<Rightarrow> bool \<Rightarrow> targetState \<Rightarrow> Engine \<Rightarrow> Engine" where
  "dispatch_one client clk gvr u deleted st e = (case process_target client clk gvr u deleted st e of
     (None, e') \<Rightarrow> e' | (Some it, e') \<Rightarrow> commit_item clk st it e')"

lemma processDispatch_fold:
  "toUnstructured obj = Some u \<Longrightarrow>
     processDispatch client clk gvr obj deleted e =
       fold (dispatch_one client clk gvr u deleted) (dispatch_states gvr e) e"
  by (simp add: processDispatch_def dispatch_one_def [abs_def])

text \<open>The outcomes of \<open>process_target\<close>.\<close>

lemma process_target_cases:
  assumes "process_target client clk gvr u deleted st e = (r, e')"
  obtains
    (removed) "r = None" "deleted \<or> matchesTarget e st gvr u \<noteq> Match_Accepted
        \<or> (\<exists>err. Extract (e_extractor e) u (Attributes (prof_Spec (ts_profile st))) = Inl err)
        \<or> fst (CanAccess (e_machinery e) (map_option kube_review client) (clk_lookup clk) (clk_store clk)
              (e_access e) gvr (resource_namespace u) ''list'') = Inr False"
      "rows (e_store e') = rows (e_store (remove_row st u e))"
  | (kept) err where "r = None" "\<not> deleted" "matchesTarget e st gvr u = Match_Accepted"
      "fst (CanAccess (e_machinery e) (map_option kube_review client) (clk_lookup clk) (clk_store clk)
              (e_access e) gvr (resource_namespace u) ''list'') = Inl err"
      "e_store e' = e_store e" "map_of (e_accessErr e') (targetKey (t_Namespace (ts_target st)) (t_Name (ts_target st))) = Some ()"
  | (built) attrs where "r = Some (build_item e st u attrs)" "\<not> deleted" "matchesTarget e st gvr u = Match_Accepted"
      "fst (CanAccess (e_machinery e) (map_option kube_review client) (clk_lookup clk) (clk_store clk)
              (e_access e) gvr (resource_namespace u) ''list'') = Inr True"
      "Extract (e_extractor e) u (Attributes (prof_Spec (ts_profile st))) = Inr attrs" "e_store e' = e_store e"
proof -
  let ?can = "CanAccess (e_machinery e) (map_option kube_review client) (clk_lookup clk) (clk_store clk)
              (e_access e) gvr (resource_namespace u) ''list''"
  consider (gone) "deleted \<or> matchesTarget e st gvr u \<noteq> Match_Accepted"
    | (run) "\<not> deleted" "matchesTarget e st gvr u = Match_Accepted" by blast
  then show thesis
  proof cases
    case gone
    then show ?thesis
      using assms by (intro removed) (auto simp: process_target_def Let_def fun_eq_iff split: if_splits)
  next
    case run
    obtain d acc where c: "?can = (d, acc)" by (cases ?can)
    consider (err) err where "d = Inl err" | (no) "d = Inr False" | (yes) "d = Inr True"
      by (cases d) auto
    then show ?thesis
    proof cases
      case err
      then show ?thesis
        using assms run c by (intro kept [of err]) (auto simp: process_target_def Let_def)
    next
      case no
      then show ?thesis
        using assms run c by (intro removed) (auto simp: process_target_def Let_def fun_eq_iff remove_row_def)
    next
      case yes
      show ?thesis
      proof (cases "Extract (e_extractor e) u (Attributes (prof_Spec (ts_profile st)))")
        case (Inl err)
        then show ?thesis
          using assms run c yes
          by (intro removed) (auto simp: process_target_def Let_def fun_eq_iff remove_row_def)
      next
        case (Inr attrs)
        let ?key = "targetKey (t_Namespace (ts_target st)) (t_Name (ts_target st))"
        define e1 where "e1 = e\<lparr>e_access := acc, e_accessErr := AList.delete ?key (e_accessErr e),
            e_forbidden := AList.delete ?key (e_forbidden e)\<rparr>"
        define e2 where "e2 = clearExtractFailure ?key (GetUID u) e1"
        have "config e1 = config e" "e_store e1 = e_store e" by (simp_all add: e1_def config_def)
        then have "config e2 = config e" "e_store e2 = e_store e" by (simp_all add: e2_def)
        moreover have "r = Some (build_item e2 st u attrs)" "e' = e2"
          using assms run c yes Inr by (auto simp: process_target_def Let_def e1_def e2_def)
        ultimately show ?thesis
          using run c yes Inr build_item_config [of e2 e] by (intro built [of attrs]) simp_all
      qed
    qed
  qed
qed

lemma config_process_target: "config (snd (process_target client clk gvr u deleted st e)) = config e"
proof -
  have "config (e\<lparr>e_access := a, e_accessErr := b\<rparr>) = config e"
    "config (e\<lparr>e_access := a, e_accessErr := b, e_forbidden := c\<rparr>) = config e" for a b c
    by (simp_all add: config_def)
  then show ?thesis
    by (auto simp: process_target_def Let_def split: prod.split sum.split bool.split)
qed

lemma config_commit: "config (commit_item clk st it e) = config e"
  by (auto simp: commit_item_def upsertIfRegistered_def Let_def) (simp_all add: config_def)

lemma config_dispatch_one: "config (dispatch_one client clk gvr u deleted st e) = config e"
  using config_process_target [of client clk gvr u deleted st e]
  by (auto simp: dispatch_one_def config_commit split: prod.split option.split)

lemma rows_commit:
  "rows (e_store (commit_item clk st it e)) =
     (if map_of (e_targets e) (tkey st) = None then rows (e_store e) else rows (Upsert it (e_store e)))"
  by (auto simp: commit_item_def upsertIfRegistered_def Let_def read_state)

lemma accessErr_commit [simp]: "e_accessErr (commit_item clk st it e) = e_accessErr e"
  by (auto simp: commit_item_def upsertIfRegistered_def Let_def)

lemma accessErr_process_target:
  "key \<noteq> tkey st \<Longrightarrow>
     map_of (e_accessErr (snd (process_target client clk gvr u deleted st e))) key = map_of (e_accessErr e) key"
  by (auto simp: process_target_def Let_def split: prod.split sum.split bool.split)

lemma dispatch_one_other:
  assumes "(ns, name) \<noteq> (t_Namespace (ts_target st), t_Name (ts_target st)) \<or> uid \<noteq> GetUID u"
  shows "rows (e_store (dispatch_one client clk gvr u deleted st e)) ns name uid = rows (e_store e) ns name uid"
proof (cases "process_target client clk gvr u deleted st e")
  case (Pair r e')
  then show ?thesis using assms
    by (cases rule: process_target_cases [OF Pair]) (auto simp: dispatch_one_def rows_commit rows_Upsert)
qed

lemma accessErr_dispatch_one:
  "key \<noteq> tkey st \<Longrightarrow> map_of (e_accessErr (dispatch_one client clk gvr u deleted st e)) key = map_of (e_accessErr e) key"
  using accessErr_process_target [of key st client clk gvr u deleted e]
  by (auto simp: dispatch_one_def split: prod.split option.split)

text \<open>What a dispatch may leave in the store for one target and object.\<close>

definition may_hold where
  "may_hold e gvr u deleted st before after access_failed \<longleftrightarrow>
     after = None
     \<or> (\<not> deleted \<and> matchesTarget e st gvr u = Match_Accepted
        \<and> ((access_failed \<and> after = before)
           \<or> (\<exists>attrs. Extract (e_extractor e) u (Attributes (prof_Spec (ts_profile st))) = Inr attrs
                \<and> after = Some (build_item e st u attrs))))"

lemma dispatch_one_own:
  fixes client clk gvr u deleted st e
  defines "e' \<equiv> dispatch_one client clk gvr u deleted st e"
  assumes "map_of (e_targets e) (tkey st) \<noteq> None"
  shows "may_hold e gvr u deleted st
    (rows (e_store e) (t_Namespace (ts_target st)) (t_Name (ts_target st)) (GetUID u))
    (rows (e_store e') (t_Namespace (ts_target st)) (t_Name (ts_target st)) (GetUID u))
    (map_of (e_accessErr e') (tkey st) \<noteq> None)"
proof (cases "process_target client clk gvr u deleted st e")
  case (Pair r e1)
  have "e_targets e1 = e_targets e"
    using config_process_target [of client clk gvr u deleted st e] Pair by (simp add: config_def)
  then show ?thesis using assms(2) Pair
    by (cases rule: process_target_cases [OF Pair])
      (auto simp: e'_def dispatch_one_def rows_commit rows_Upsert may_hold_def)
qed

section \<open>The index of targets\<close>

definition wf_engine :: "Engine \<Rightarrow> bool" where
  "wf_engine e \<longleftrightarrow> wf_map (e_targets e)
     \<and> (\<forall>key st. map_of (e_targets e) key = Some st \<longrightarrow> key = tkey st)
     \<and> (\<forall>gvr. distinct (map_get_or [] (e_targetsByGVR e) gvr)
          \<and> set (map_get_or [] (e_targetsByGVR e) gvr)
              = {key. \<exists>st. map_of (e_targets e) key = Some st \<and> profile_gvr e st = gvr})"

lemma wf_engine_key: "wf_engine e \<Longrightarrow> map_of (e_targets e) key = Some st \<Longrightarrow> tkey st = key"
  by (simp add: wf_engine_def)

lemma wf_engine_config: "config e = config e' \<Longrightarrow> wf_engine e = wf_engine e'"
  by (drule config_fields) (simp add: wf_engine_def profile_gvr_def)

lemma dispatch_states_iff:
  assumes "wf_engine e"
  shows "st \<in> set (dispatch_states gvr e) \<longleftrightarrow> map_of (e_targets e) (tkey st) = Some st \<and> profile_gvr e st = gvr"
proof -
  have "st \<in> set (dispatch_states gvr e) \<longleftrightarrow>
      (\<exists>key. (\<exists>st'. map_of (e_targets e) key = Some st' \<and> profile_gvr e st' = gvr) \<and> map_of (e_targets e) key = Some st)"
    using assms by (auto simp: dispatch_states_def wf_engine_def List.map_filter_def image_iff)
  then show ?thesis using wf_engine_key [OF assms] by auto
qed

lemma distinct_dispatch_states:
  assumes "wf_engine e"
  shows "distinct (map tkey (dispatch_states gvr e))"
proof -
  let ?keys = "map_get_or [] (e_targetsByGVR e) gvr"
  have "map tkey (List.map_filter (\<lambda>key. map_of (e_targets e) key) ks)
      = filter (\<lambda>key. map_of (e_targets e) key \<noteq> None) ks" for ks
    using wf_engine_key [OF assms] by (induction ks) (auto simp: List.map_filter_simps split: option.split)
  moreover have "distinct ?keys" using assms by (simp add: wf_engine_def)
  ultimately show ?thesis by (simp add: dispatch_states_def)
qed

lemma fold_dispatch_config: "config (fold (dispatch_one client clk gvr u deleted) sts e) = config e"
  by (induction sts arbitrary: e) (simp_all add: config_dispatch_one)

lemma tkey_neq: "tkey st \<noteq> tkey st' \<Longrightarrow>
   (t_Namespace (ts_target st), t_Name (ts_target st)) \<noteq> (t_Namespace (ts_target st'), t_Name (ts_target st'))"
  by auto

lemma fold_dispatch_other:
  assumes "tkey st \<notin> tkey ` set sts"
  shows "rows (e_store (fold (dispatch_one client clk gvr u deleted) sts e)) (t_Namespace (ts_target st)) (t_Name (ts_target st)) uid
      = rows (e_store e) (t_Namespace (ts_target st)) (t_Name (ts_target st)) uid"
    and "map_of (e_accessErr (fold (dispatch_one client clk gvr u deleted) sts e)) (tkey st)
      = map_of (e_accessErr e) (tkey st)"
proof -
  have "(rows (e_store (fold (dispatch_one client clk gvr u deleted) sts e)) (t_Namespace (ts_target st)) (t_Name (ts_target st)) uid
      = rows (e_store e) (t_Namespace (ts_target st)) (t_Name (ts_target st)) uid)
    \<and> map_of (e_accessErr (fold (dispatch_one client clk gvr u deleted) sts e)) (tkey st)
      = map_of (e_accessErr e) (tkey st)"
    using assms
  proof (induction sts arbitrary: e)
    case (Cons s sts)
    then have ne: "tkey st \<noteq> tkey s" and IH: "tkey st \<notin> tkey ` set sts" by auto
    show ?case
      using Cons.IH [OF IH, of "dispatch_one client clk gvr u deleted s e"]
        dispatch_one_other [OF disjI1 [OF tkey_neq [OF ne]]] accessErr_dispatch_one [OF ne] by simp
  qed simp
  then show "rows (e_store (fold (dispatch_one client clk gvr u deleted) sts e)) (t_Namespace (ts_target st)) (t_Name (ts_target st)) uid
      = rows (e_store e) (t_Namespace (ts_target st)) (t_Name (ts_target st)) uid"
    and "map_of (e_accessErr (fold (dispatch_one client clk gvr u deleted) sts e)) (tkey st)
      = map_of (e_accessErr e) (tkey st)" by blast+
qed

lemma dispatch_states_split:
  assumes "wf_engine e" "map_of (e_targets e) (tkey st) = Some st" "profile_gvr e st = gvr"
  obtains xs ys where "dispatch_states gvr e = xs @ st # ys" "tkey st \<notin> tkey ` set xs" "tkey st \<notin> tkey ` set ys"
proof -
  have "st \<in> set (dispatch_states gvr e)" using dispatch_states_iff [OF assms(1)] assms(2,3) by blast
  then obtain xs ys where s: "dispatch_states gvr e = xs @ st # ys" by (meson split_list)
  have "distinct (map tkey (xs @ st # ys))"
    using distinct_dispatch_states [OF assms(1), of gvr] by (simp only: s)
  then show thesis by (intro that [OF s]) auto
qed

lemma may_hold_config:
  "config e = config e' \<Longrightarrow> may_hold e gvr u deleted st b a f = may_hold e' gvr u deleted st b a f"
  using matchesTarget_config [of e e' st gvr u] build_item_config [of e e' st u] config_fields [of e e']
  by (simp add: may_hold_def)

lemma dispatch_row:
  assumes "wf_engine e" and "map_of (e_targets e) (tkey st) = Some st" and "profile_gvr e st = gvr"
    and "toUnstructured obj = Some u" and "e' = processDispatch client clk gvr obj deleted e"
  shows "may_hold e gvr u deleted st
    (rows (e_store e) (t_Namespace (ts_target st)) (t_Name (ts_target st)) (GetUID u))
    (rows (e_store e') (t_Namespace (ts_target st)) (t_Name (ts_target st)) (GetUID u))
    (HasAccessCheckFailure (t_Namespace (ts_target st)) (t_Name (ts_target st)) e')"
proof -
  let ?one = "dispatch_one client clk gvr u deleted"
  obtain xs ys where split: "dispatch_states gvr e = xs @ st # ys"
      and nx: "tkey st \<notin> tkey ` set xs" and ny: "tkey st \<notin> tkey ` set ys"
    by (rule dispatch_states_split [OF assms(1-3)])
  define e1 where "e1 = fold ?one xs e"
  have c: "config e1 = config e" unfolding e1_def by (rule fold_dispatch_config)
  have e': "e' = fold ?one ys (?one st e1)"
    by (simp add: assms(5) processDispatch_fold [OF assms(4)] split e1_def)
  have reg: "map_of (e_targets e1) (tkey st) \<noteq> None" using config_fields [OF c] assms(2) by simp
  have "may_hold e1 gvr u deleted st
      (rows (e_store e) (t_Namespace (ts_target st)) (t_Name (ts_target st)) (GetUID u))
      (rows (e_store e') (t_Namespace (ts_target st)) (t_Name (ts_target st)) (GetUID u))
      (map_of (e_accessErr e') (tkey st) \<noteq> None)"
    using dispatch_one_own [OF reg, of gvr u deleted client clk]
    by (simp only: e' fold_dispatch_other [OF ny] e1_def fold_dispatch_other [OF nx])
  then show ?thesis by (simp add: may_hold_config [OF c] HasAccessCheckFailure_def)
qed

text \<open>C18. A dispatched object leaves a row for a registered target only if the object exists, the
  target's namespace, rule and watch filters accept it and its attributes extract, in which case
  the row is the one built from this object; an older row survives only while the access review
  itself fails, and then the failure is recorded. In every other case the row is gone.\<close>

theorem dispatch_fail_closed:
  assumes "wf_engine e" and "map_of (e_targets e) (tkey st) = Some st" and "profile_gvr e st = gvr"
    and "toUnstructured obj = Some u" and "e' = processDispatch client clk gvr obj deleted e"
  shows "may_hold e gvr u deleted st
    (rows (e_store e) (t_Namespace (ts_target st)) (t_Name (ts_target st)) (GetUID u))
    (rows (e_store e') (t_Namespace (ts_target st)) (t_Name (ts_target st)) (GetUID u))
    (HasAccessCheckFailure (t_Namespace (ts_target st)) (t_Name (ts_target st)) e')"
  using assms by (rule dispatch_row)

section \<open>Registration keeps the index exact\<close>

abbreviation keys_of :: "Engine \<Rightarrow> GroupVersionResource \<Rightarrow> string list" where
  "keys_of e gvr \<equiv> map_get_or [] (e_targetsByGVR e) gvr"

lemma index_fields [simp]:
  "e_targets (indexTargetLocked key gvr e) = e_targets e"
  "e_targets (unindexTargetLocked key gvr e) = e_targets e"
  "e_extractor (indexTargetLocked key gvr e) = e_extractor e"
  "e_extractor (unindexTargetLocked key gvr e) = e_extractor e"
  "e_store (indexTargetLocked key gvr e) = e_store e"
  "e_store (unindexTargetLocked key gvr e) = e_store e"
  by (simp_all add: indexTargetLocked_def unindexTargetLocked_def Let_def)

lemma keys_of_unindex:
  "keys_of (unindexTargetLocked key gvr e) g = (if g = gvr then remove1 key (keys_of e gvr) else keys_of e g)"
  by (simp add: unindexTargetLocked_def Let_def remove1_idem)

lemma keys_of_index:
  "keys_of (indexTargetLocked key gvr e) g =
     (if g = gvr \<and> key \<notin> set (keys_of e gvr) then keys_of e gvr @ [key] else keys_of e g)"
  by (simp add: indexTargetLocked_def Let_def)

lemma profile_gvr_cong: "e_extractor e = e_extractor e' \<Longrightarrow> profile_gvr e st = profile_gvr e' st"
  by (simp add: profile_gvr_def)

text \<open>The index after taking a key out, whether or not it was registered.\<close>

definition taken_out :: "string \<Rightarrow> Engine \<Rightarrow> Engine" where
  "taken_out key e =
     (case map_of (e_targets e) key of None \<Rightarrow> e | Some st \<Rightarrow> unindexTargetLocked key (profile_gvr e st) e)"

lemma taken_out_fields [simp]:
  "e_targets (taken_out key e) = e_targets e" "e_extractor (taken_out key e) = e_extractor e"
  "e_store (taken_out key e) = e_store e"
  by (simp_all add: taken_out_def split: option.split)

lemma keys_taken_out:
  assumes "wf_engine e"
  shows "distinct (keys_of (taken_out key e) g) \<and> set (keys_of (taken_out key e) g)
    = {k. k \<noteq> key \<and> (\<exists>st. map_of (e_targets e) k = Some st \<and> profile_gvr e st = g)}"
proof -
  have d: "distinct (keys_of e g)" for g using assms by (simp add: wf_engine_def)
  have s: "set (keys_of e g) = {k. \<exists>st. map_of (e_targets e) k = Some st \<and> profile_gvr e st = g}" for g
    using assms unfolding wf_engine_def by blast
  show ?thesis
  proof (cases "map_of (e_targets e) key")
    case None
    then show ?thesis using d s by (auto simp: taken_out_def simp del: map_of_eq_Some_iff)
  next
    case (Some st)
    then show ?thesis using d s
      by (auto simp: taken_out_def keys_of_unindex set_remove1_eq simp del: map_of_eq_Some_iff)
  qed
qed

lemma wf_unregister_locked:
  assumes "wf_engine e"
  shows "wf_engine (unregister_locked ns name e)"
proof -
  let ?key = "targetKey ns name"
  have e': "unregister_locked ns name e = (taken_out ?key e)\<lparr>e_targets := AList.delete ?key (e_targets e),
      e_forbidden := AList.delete ?key (e_forbidden (taken_out ?key e)),
      e_accessErr := AList.delete ?key (e_accessErr (taken_out ?key e)),
      e_extractErr := AList.delete ?key (e_extractErr (taken_out ?key e)),
      e_metricsLastRefresh := AList.delete ?key (e_metricsLastRefresh (taken_out ?key e))\<rparr>"
    by (simp add: unregister_locked_def taken_out_def Let_def split: option.split)
  have p: "profile_gvr (unregister_locked ns name e) st = profile_gvr e st" for st
    by (rule profile_gvr_cong) (simp add: e')
  show ?thesis
    unfolding wf_engine_def p using keys_taken_out [OF assms, of ?key] assms
    by (auto simp: e' wf_engine_def)
qed

lemma wf_register_locked:
  assumes "wf_engine e"
  shows "wf_engine (register_locked (tkey st) st e)"
proof -
  let ?e1 = "taken_out (tkey st) e"
  let ?e2 = "?e1\<lparr>e_targets := AList.update (tkey st) st (e_targets e)\<rparr>"
  let ?e' = "register_locked (tkey st) st e"
  have e': "?e' = indexTargetLocked (tkey st) (profile_gvr e st) ?e2"
    by (simp add: register_locked_def taken_out_def Let_def split: option.split)
  have p: "profile_gvr ?e' s = profile_gvr e s" for s
    by (rule profile_gvr_cong) (simp add: e')
  have k: "keys_of ?e' g = (if g = profile_gvr e st then keys_of ?e1 g @ [tkey st] else keys_of ?e1 g)" for g
    using keys_taken_out [OF assms, of "tkey st"] by (simp add: e' keys_of_index)
  have m: "map_of (e_targets ?e') = (map_of (e_targets e))(tkey st \<mapsto> st)" by (simp add: e')
  have "wf_map (e_targets ?e')" using assms by (simp add: e' wf_engine_def)
  moreover have "\<forall>key s. map_of (e_targets ?e') key = Some s \<longrightarrow> key = tkey s"
    unfolding m using assms by (simp add: wf_engine_def)
  moreover have "\<forall>g. distinct (keys_of ?e' g) \<and> set (keys_of ?e' g)
      = {key. \<exists>s. map_of (e_targets ?e') key = Some s \<and> profile_gvr ?e' s = g}"
    unfolding k m p using keys_taken_out [OF assms, of "tkey st"] by auto
  ultimately show ?thesis unfolding wf_engine_def by blast
qed

lemma config_simple [simp]:
  "wf_engine (dispatch gvr obj deleted e) = wf_engine e"
  "wf_engine (clear_rows ns name e) = wf_engine e"
  "wf_engine (SetScrubKeys keys e) = wf_engine e"
  "wf_engine (SetNamespaceDefaults d e) = wf_engine e"
  "wf_engine (snd (refreshNamespaceCache client e)) = wf_engine e"
  by (simp_all add: wf_engine_def profile_gvr_def dispatch_def clear_rows_def SetScrubKeys_def
      SetNamespaceDefaults_def refreshNamespaceCache_def split: option.split sum.split)

lemma dispatch_fields [simp]:
  "e_store (dispatch gvr obj deleted e) = e_store e" "e_targets (dispatch gvr obj deleted e) = e_targets e"
  "e_nsMeta (dispatch gvr obj deleted e) = e_nsMeta e" "e_defaults (dispatch gvr obj deleted e) = e_defaults e"
  "e_extractor (dispatch gvr obj deleted e) = e_extractor e" "e_started (dispatch gvr obj deleted e) = e_started e"
  "e_informerScopes (dispatch gvr obj deleted e) = e_informerScopes e"
  "e_factories (dispatch gvr obj deleted e) = e_factories e"
  by (simp_all add: dispatch_def)

lemma resync_fields [simp]:
  "wf_engine (resyncInformerStore gvr objs e) = wf_engine e"
  "e_store (resyncInformerStore gvr objs e) = e_store e"
  "e_targets (resyncInformerStore gvr objs e) = e_targets e"
  "e_nsMeta (resyncInformerStore gvr objs e) = e_nsMeta e"
  "e_defaults (resyncInformerStore gvr objs e) = e_defaults e"
  "e_extractor (resyncInformerStore gvr objs e) = e_extractor e"
  "e_started (resyncInformerStore gvr objs e) = e_started e"
  "e_informerScopes (resyncInformerStore gvr objs e) = e_informerScopes e"
  "e_factories (resyncInformerStore gvr objs e) = e_factories e"
  by (induction objs arbitrary: e) (simp_all add: resyncInformerStore_def)

lemma wf_startInformer: "wf_engine e \<Longrightarrow> wf_engine (snd (startInformer k gvr b e))"
proof -
  assume wf: "wf_engine e"
  have "wf_engine (x\<lparr>e_factories := a, e_started := b', e_informerScopes := c\<rparr>) = wf_engine x"
    "wf_engine (x\<lparr>e_backfillDispatches := n\<rparr>) = wf_engine x" for x a b' c n
    by (simp_all add: wf_engine_def profile_gvr_def)
  then show ?thesis using wf by (auto simp: startInformer_def Let_def split: option.split)
qed

section \<open>The ceiling\<close>


section \<open>Informers\<close>

lemma single_namespace_all:
  "single_namespace seen nss = s \<Longrightarrow> s \<noteq> [] \<Longrightarrow>
     (\<forall>x \<in> set nss. x = [s]) \<and> (seen = None \<or> seen = Some s)"
  by (induction seen nss rule: single_namespace.induct) (auto split: option.splits if_splits)

lemma watchNamespace_single:
  assumes "watchNamespaceForGVR gvr e = s" "s \<noteq> []" "(key, st) \<in> set (e_targets e)" "profile_gvr e st = gvr"
  shows "matchedNamespacesForState (e_machinery e) st (e_nsMeta e) (e_defaults e) = [s]"
  using single_namespace_all [OF assms(1) [unfolded watchNamespaceForGVR_def] assms(2)] assms(3,4) by force

lemma watchNamespace_cong:
  "e_targets e = e_targets e' \<Longrightarrow> e_nsMeta e = e_nsMeta e' \<Longrightarrow> e_defaults e = e_defaults e' \<Longrightarrow>
   e_extractor e = e_extractor e' \<Longrightarrow> watchNamespaceForGVR gvr e = watchNamespaceForGVR gvr e'"
  by (simp add: watchNamespaceForGVR_def profile_gvr_def)

lemma startInformer_fields:
  "e_targets (snd (startInformer k gvr b e)) = e_targets e" "e_nsMeta (snd (startInformer k gvr b e)) = e_nsMeta e"
  "e_defaults (snd (startInformer k gvr b e)) = e_defaults e"
  "e_extractor (snd (startInformer k gvr b e)) = e_extractor e"
  "e_store (snd (startInformer k gvr b e)) = e_store e"
  by (auto simp: startInformer_def Let_def split: option.split)

lemma startInformer_scope:
  assumes "startInformer k gvr b e = (None, e')"
  shows "map_get_or False (e_started e') gvr
    \<and> (informerScope gvr e' = [] \<or> informerScope gvr e' = watchNamespaceForGVR gvr e)"
  using assms by (auto simp: startInformer_def Let_def informerScope_def split: if_splits option.splits)

lemma RegisterTarget_started:
  assumes "RegisterTarget k nil_kube target profile opts e = (None, e')" "\<not> t_Suspend (t_Spec target)"
  obtains compiled effective e1 st b where
    "resolve_namespaces (if nil_kube then None else Some k) target opts e = (effective, e1)"
    "st = new_state target profile opts effective compiled"
    "b = (case map_of (e_targets e1) (tkey st) of None \<Rightarrow> True | Some old \<Rightarrow> ts_fingerprint old \<noteq> ts_fingerprint st)"
    "startInformer k (gvrFromProfile (e_machinery e) (TargetGVK (prof_Spec profile))) b
       (register_locked (tkey st) st e1) = (None, e')"
proof -
  obtain compiled where c: "CompileResourceRules (e_machinery e) (ResourceRules (t_Filter (t_Spec target)))
      (celEnv (e_extractor e)) = Inr compiled"
    using assms by (auto simp: RegisterTarget_def Let_def split: sum.splits)
  obtain effective e1 where r: "resolve_namespaces (if nil_kube then None else Some k) target opts e = (effective, e1)"
    by (cases "resolve_namespaces (if nil_kube then None else Some k) target opts e")
  define st where "st = new_state target profile opts effective compiled"
  have t: "ts_target st = target" by (simp add: st_def new_state_def)
  show thesis
    by (rule that [OF r st_def refl])
      (use assms c r in \<open>simp add: RegisterTarget_def Let_def st_def [symmetric] t cong: option.case_cong\<close>)
qed

text \<open>After a successful registration the informer of the target's resource is running and
  covers every registered target of that resource: it watches all namespaces, or the one namespace
  that each of those targets matches.\<close>

theorem informer_covers_targets:
  assumes "RegisterTarget k nil_kube target profile opts e = (None, e')" and "\<not> t_Suspend (t_Spec target)"
    and "gvr = gvrFromProfile (e_machinery e) (TargetGVK (prof_Spec profile))"
  shows "map_get_or False (e_started e') gvr
    \<and> (informerScope gvr e' = []
       \<or> (\<forall>(key, st) \<in> set (e_targets e'). profile_gvr e' st = gvr \<longrightarrow>
            matchedNamespacesForState (e_machinery e') st (e_nsMeta e') (e_defaults e') = [informerScope gvr e']))"
proof -
  obtain st b e1 where s: "startInformer k gvr b (register_locked (tkey st) st e1) = (None, e')"
    by (rule RegisterTarget_started [OF assms(1,2)]) (use assms(3) in blast)
  let ?e2 = "register_locked (tkey st) st e1"
  have "watchNamespaceForGVR gvr ?e2 = watchNamespaceForGVR gvr e'"
    using startInformer_fields [of k gvr b ?e2] s by (intro watchNamespace_cong) simp_all
  then show ?thesis
    using startInformer_scope [OF s] watchNamespace_single [of gvr e' "informerScope gvr e'"] by force
qed

definition job_for :: "GroupVersionResource \<Rightarrow> unstructured \<Rightarrow> dispatchJob" where
  "job_for gvr u = \<lparr>job_gvr = gvr, job_obj = Live u, job_deleted = False\<rparr>"

lemma resync_queue: "e_dispatchCh (resyncInformerStore gvr objs e) = e_dispatchCh e @ map (job_for gvr) objs"
proof -
  have "e_dispatchCh (fold (\<lambda>u. dispatch gvr (Live u) False) objs e) = e_dispatchCh e @ map (job_for gvr) objs"
    by (induction objs arbitrary: e) (simp_all add: dispatch_def job_for_def)
  then show ?thesis by (simp add: resyncInformerStore_def)
qed

lemma startInformer_backfill:
  assumes "startInformer k gvr True e = (None, e')" "map_of (e_factories e') gvr = Some objs"
  shows "set (map (job_for gvr) objs) \<subseteq> set (e_dispatchCh e')"
  using assms by (auto simp: startInformer_def Let_def resync_queue split: if_splits option.splits)

lemma startInformer_quiet:
  assumes "map_get_or False (e_started e) gvr"
    and "map_get_or [] (e_informerScopes e) gvr = [] \<or> map_get_or [] (e_informerScopes e) gvr = watchNamespaceForGVR gvr e"
  shows "startInformer k gvr False e = (None, e)"
  using assms by (auto simp: startInformer_def Let_def split: option.split)

text \<open>A target that is registered for the first time, or whose collection state changed, is
  shown every object of the informer's cache: each one is queued for dispatch.\<close>

theorem new_state_is_backfilled:
  assumes "RegisterTarget k nil_kube target profile opts e = (None, e')" and "\<not> t_Suspend (t_Spec target)"
    and "gvr = gvrFromProfile (e_machinery e) (TargetGVK (prof_Spec profile))"
    and "map_of (e_factories e') gvr = Some objs"
    and "case map_of (e_targets e) (targetKey (t_Namespace target) (t_Name target)) of
           None \<Rightarrow> True
         | Some old \<Rightarrow> ts_fingerprint old \<noteq> targetStateFingerprint target profile
             (fst (resolve_namespaces (if nil_kube then None else Some k) target opts e))"
  shows "set (map (job_for gvr) objs) \<subseteq> set (e_dispatchCh e')"
proof -
  obtain compiled effective e1 st b where r: "resolve_namespaces (if nil_kube then None else Some k) target opts e = (effective, e1)"
      and st: "st = new_state target profile opts effective compiled"
      and b: "b = (case map_of (e_targets e1) (tkey st) of None \<Rightarrow> True | Some old \<Rightarrow> ts_fingerprint old \<noteq> ts_fingerprint st)"
      and s: "startInformer k gvr b (register_locked (tkey st) st e1) = (None, e')"
    by (rule RegisterTarget_started [OF assms(1,2)]) (use assms(3) in blast)
  have "e_targets e1 = e_targets e"
    using r by (auto simp: resolve_namespaces_def refreshNamespaceCache_def Let_def split: if_splits option.splits sum.splits)
  then have "b" using b r st assms(5) by (auto simp: new_state_def split: option.splits)
  then show ?thesis using startInformer_backfill [OF _ assms(4)] s by simp
qed

section \<open>Rows are scrubbed\<close>

lemma scrubbed_Scrub_object: "scrubbed keys (JObject (as_object (Scrub keys (JObject m)) r))"
  using scrubbed_Scrub [of keys "JObject m"] by (simp add: as_object_def)

definition clean_value :: "Scrubber \<Rightarrow> int \<Rightarrow> any \<Rightarrow> bool" where
  "clean_value keys gen v \<longleftrightarrow>
     scrubbed keys v \<or> (\<exists>m. v = JObject (stampCollectedGeneration gen m) \<and> scrubbed keys (JObject m))"

lemma build_item_clean:
  assumes "item_attributes (build_item e st u attrs) = Some vals" "(n, v) \<in> set vals" "wf_map attrs"
  shows "clean_value (scrubberForProfile e (ts_profile st)) (GetGeneration u) v"
proof -
  let ?k = "scrubberForProfile e (ts_profile st)"
  let ?base = "map (\<lambda>(name, val). (name, Scrub ?k val)) attrs"
  have base: "clean_value ?k (GetGeneration u) v" if "(n, v) \<in> set ?base" for n v
    using that by (auto simp: clean_value_def scrubbed_Scrub)
  have wf: "wf_map ?base" using assms(3) by (simp add: comp_def split_beta)
  have res: "clean_value ?k (GetGeneration u) (JObject (PruneResource (GetGeneration u) (u_Object u) ex (Some ?k)))" for ex
    unfolding clean_value_def PruneResource_def Let_def option.case using scrubbed_Scrub_object by blast
  have "vals = ?base \<or> (\<exists>ex. vals = AList.update (AttributeKey (Some ex))
      (JObject (PruneResource (GetGeneration u) (u_Object u) ex (Some ?k))) ?base)"
    using assms(1) by (auto simp: build_item_def Let_def ScrubAttributes_def split: option.splits if_splits)
  then show ?thesis
  proof
    assume "vals = ?base"
    then show ?thesis using assms(2) base by blast
  next
    assume "\<exists>ex. vals = AList.update (AttributeKey (Some ex))
        (JObject (PruneResource (GetGeneration u) (u_Object u) ex (Some ?k))) ?base"
    then obtain ex where "(n, v) \<in> insert (AttributeKey (Some ex),
        JObject (PruneResource (GetGeneration u) (u_Object u) ex (Some ?k))) {p \<in> set ?base. fst p \<noteq> AttributeKey (Some ex)}"
      using assms(2) set_update_wf [OF wf] by blast
    then show ?thesis using base res by blast
  qed
qed

lemma extract_wf: "extract_loop ex u m attrs = Inr m' \<Longrightarrow> wf_map m \<Longrightarrow> wf_map m'"
  by (induction attrs arbitrary: m) (auto split: sum.splits if_splits)

text \<open>Every row a dispatch writes holds only scrubbed values: a full-resource value is scrubbed
  up to the generation stamp that is put on afterwards.\<close>

theorem written_rows_scrubbed:
  assumes "wf_engine e" and "map_of (e_targets e) (tkey st) = Some st" and "profile_gvr e st = gvr"
    and "toUnstructured obj = Some u" and "e' = processDispatch client clk gvr obj deleted e"
    and "rows (e_store e') (t_Namespace (ts_target st)) (t_Name (ts_target st)) (GetUID u) = Some it"
    and "rows (e_store e) (t_Namespace (ts_target st)) (t_Name (ts_target st)) (GetUID u) \<noteq> Some it"
    and "item_attributes it = Some vals" and "(n, v) \<in> set vals"
  shows "clean_value (scrubberForProfile e (ts_profile st)) (GetGeneration u) v"
proof -
  obtain attrs where x: "Extract (e_extractor e) u (Attributes (prof_Spec (ts_profile st))) = Inr attrs"
      and it: "it = build_item e st u attrs"
    using dispatch_row [OF assms(1-5)] assms(6,7) by (auto simp: may_hold_def)
  have "wf_map attrs" using extract_wf [OF x [unfolded Extract_def]] by simp
  then show ?thesis using build_item_clean [of e st u attrs vals n v] assms(8,9) it by blast
qed

section \<open>Rows need a permission\<close>

definition dispatch_call :: "kube \<Rightarrow> clocks \<Rightarrow> GroupVersionResource \<Rightarrow> unstructured \<Rightarrow> access_call" where
  "dispatch_call k clk gvr u = \<lparr>ac_now1 = clk_lookup clk, ac_now2 = clk_store clk, ac_gvr = gvr,
     ac_namespace = resource_namespace u, ac_verb = ''list'', ac_answer = kube_review k gvr (resource_namespace u) ''list''\<rparr>"

lemma access_process_target:
  "e_access (snd (process_target (Some k) clk gvr u deleted st e)) = e_access e
   \<or> e_access (snd (process_target (Some k) clk gvr u deleted st e))
       = snd (access_step (e_machinery e) (dispatch_call k clk gvr u) (e_access e))"
proof -
  have "CanAccess (e_machinery e) (map_option kube_review (Some k)) (clk_lookup clk) (clk_store clk) (e_access e) gvr
      (resource_namespace u) ''list'' = access_step (e_machinery e) (dispatch_call k clk gvr u) (e_access e)"
    by (simp add: access_step_def dispatch_call_def CanAccess_def)
  then show ?thesis
    by (auto simp: process_target_def Let_def split: prod.split sum.split bool.split)
qed

lemma access_commit [simp]: "e_access (commit_item clk st it e) = e_access e"
  by (auto simp: commit_item_def upsertIfRegistered_def Let_def)

lemma access_dispatch_one:
  "\<exists>n. e_access (dispatch_one (Some k) clk gvr u deleted st e)
     = access_run (e_machinery e) (replicate n (dispatch_call k clk gvr u)) (e_access e)"
proof -
  have "e_access (dispatch_one (Some k) clk gvr u deleted st e) = e_access (snd (process_target (Some k) clk gvr u deleted st e))"
    by (auto simp: dispatch_one_def split: prod.split option.split)
  moreover have "e_access e = access_run (e_machinery e) (replicate 0 (dispatch_call k clk gvr u)) (e_access e)"
    "snd (access_step (e_machinery e) (dispatch_call k clk gvr u) (e_access e))
       = access_run (e_machinery e) (replicate 1 (dispatch_call k clk gvr u)) (e_access e)"
    by (simp_all add: access_run_def)
  ultimately show ?thesis using access_process_target by metis
qed

lemma access_run_append: "access_run am (xs @ ys) a = access_run am ys (access_run am xs a)"
  by (simp add: access_run_def)

lemma access_fold:
  "\<exists>n. e_access (fold (dispatch_one (Some k) clk gvr u deleted) sts e)
     = access_run (e_machinery e) (replicate n (dispatch_call k clk gvr u)) (e_access e)"
proof (induction sts arbitrary: e)
  case Nil
  have "e_access e = access_run (e_machinery e) (replicate 0 (dispatch_call k clk gvr u)) (e_access e)"
    by (simp add: access_run_def)
  then show ?case by (metis fold_simps(1))
next
  case (Cons s sts)
  let ?e1 = "dispatch_one (Some k) clk gvr u deleted s e"
  have m: "e_machinery ?e1 = e_machinery e" using config_fields [OF config_dispatch_one] by simp
  obtain i where "e_access ?e1 = access_run (e_machinery e) (replicate i (dispatch_call k clk gvr u)) (e_access e)"
    using access_dispatch_one by blast
  moreover obtain j where "e_access (fold (dispatch_one (Some k) clk gvr u deleted) sts ?e1)
      = access_run (e_machinery e) (replicate j (dispatch_call k clk gvr u)) (e_access ?e1)"
    using Cons.IH [of ?e1] m by auto
  ultimately have "e_access (fold (dispatch_one (Some k) clk gvr u deleted) (s # sts) e)
      = access_run (e_machinery e) (replicate (i + j) (dispatch_call k clk gvr u)) (e_access e)"
    by (simp add: replicate_add access_run_append)
  then show ?case by blast
qed

text \<open>C20. A dispatch writes a row only with the API server's permission to list the resource in the
  object's namespace, answered during this dispatch or, for the same resource and namespace, at
  most thirty seconds before it.\<close>

theorem rows_need_permission:
  assumes "wf_engine e" and "map_of (e_targets e) (tkey st) = Some st" and "profile_gvr e st = gvr"
    and "toUnstructured obj = Some u" and "e' = processDispatch (Some k) clk gvr obj deleted e"
    and "rows (e_store e') (t_Namespace (ts_target st)) (t_Name (ts_target st)) (GetUID u) = Some it"
    and "rows (e_store e) (t_Namespace (ts_target st)) (t_Name (ts_target st)) (GetUID u) \<noteq> Some it"
    and "e_access e = access_run (e_machinery e) calls NewAccessChecker"
    and "prints_group_resources (e_machinery e)" and "request_names gvr (resource_namespace u) ''list''"
    and "list_all (\<lambda>c. request_names (ac_gvr c) (ac_namespace c) (ac_verb c)) calls"
  shows "kube_review k gvr (resource_namespace u) ''list'' = Inr True
    \<or> (\<exists>c \<in> set calls. ac_gvr c = gvr \<and> ac_namespace c = resource_namespace u \<and> ac_verb c = ''list''
         \<and> ac_answer c = Inr True \<and> clk_lookup clk \<le> ac_now2 c + 30 * Second)"
proof -
  let ?one = "dispatch_one (Some k) clk gvr u deleted" and ?call = "dispatch_call k clk gvr u"
  obtain xs ys where split: "dispatch_states gvr e = xs @ st # ys"
      and nx: "tkey st \<notin> tkey ` set xs" and ny: "tkey st \<notin> tkey ` set ys"
    by (rule dispatch_states_split [OF assms(1-3)])
  define e1 where "e1 = fold ?one xs e"
  have m: "e_machinery e1 = e_machinery e" unfolding e1_def using config_fields [OF fold_dispatch_config] by simp
  have "e' = fold ?one ys (?one st e1)"
    by (simp add: assms(5) processDispatch_fold [OF assms(4)] split e1_def)
  then have own: "rows (e_store (?one st e1)) (t_Namespace (ts_target st)) (t_Name (ts_target st)) (GetUID u) = Some it"
      "rows (e_store e1) (t_Namespace (ts_target st)) (t_Name (ts_target st)) (GetUID u) \<noteq> Some it"
    using assms(6,7) by (simp_all add: fold_dispatch_other [OF ny] e1_def fold_dispatch_other [OF nx])
  obtain r e2 where p: "process_target (Some k) clk gvr u deleted st e1 = (r, e2)"
    by (cases "process_target (Some k) clk gvr u deleted st e1")
  have d: "?one st e1 = (case r of None \<Rightarrow> e2 | Some it \<Rightarrow> commit_item clk st it e2)"
    by (simp add: dispatch_one_def p split: option.split)
  obtain n where a: "e_access e1 = access_run (e_machinery e) (calls @ replicate n ?call) NewAccessChecker"
    unfolding e1_def using access_fold [of k clk gvr u deleted xs e] assms(8) by (auto simp: access_run_append)
  have can: "fst (CanAccess (e_machinery e) (Some (kube_review k)) (clk_lookup clk) (clk_store clk)
      (access_run (e_machinery e) (calls @ replicate n ?call) NewAccessChecker) gvr (resource_namespace u) ''list'') = Inr True"
    using own unfolding d by (cases rule: process_target_cases [OF p]) (simp_all add: m a)
  have "list_all (\<lambda>c. request_names (ac_gvr c) (ac_namespace c) (ac_verb c)) (calls @ replicate n ?call)"
    using assms(10,11) by (auto simp: list_all_iff dispatch_call_def)
  note answered = can_access_fresh [OF assms(9,10) this can]
  have "ac_answer ?call = kube_review k gvr (resource_namespace u) ''list''" by (simp add: dispatch_call_def)
  then show ?thesis using answered by (auto split: if_splits)
qed

section \<open>Rules for another kind\<close>

text \<open>
  Targets are indexed by the resource of their profile, so a rule for any other kind never selects
  anything: with only such rules a target collects nothing.
\<close>

lemma foreign_rules_inert:
  assumes "wf_engine e" "st \<in> set (dispatch_states gvr e)" "ts_rules st \<noteq> []"
    and "list_all (\<lambda>c. cr_GVR c \<noteq> profile_gvr e st) (ts_rules st)"
  shows "matchesTarget e st gvr u \<noteq> Match_Accepted"
proof -
  have "profile_gvr e st = gvr" using assms(1,2) dispatch_states_iff by blast
  then have "\<not> ResourceMatchesRules (e_machinery e) u gvr (ts_target st) (ts_profile st) (ts_rules st) (e_nsMeta e)"
    using assms(3,4) by (auto simp: ResourceMatchesRules_def Let_def list_ex_iff list_all_iff rule_matches_def)
  then show ?thesis by (simp add: matchesTarget_def)
qed

section \<open>Examples\<close>

definition example_kube :: kube where
  "example_kube = \<lparr>kube_review = (\<lambda>gvr ns verb. if ns = ''down'' then Inl ''timeout'' else Inr (ns = ''shop'')),
     kube_namespaces = Inr example_namespaces,
     kube_objects = (\<lambda>gvr ns. Some [example_object ''shop'' ''cart'', example_object ''legacy'' ''old''])\<rparr>"

definition example_config :: EngineConfig where
  "example_config = \<lparr>DispatchWorkers = 0, DispatchQueueSize = 0, ResyncPeriod = 0, MetricsSampleInterval = 0,
     DispatchEnqueueWait = - 1\<rparr>"

definition example_state :: "AttributeSpec list \<Rightarrow> targetState" where
  "example_state attrs = \<lparr>ts_target = example_target [], ts_profile = example_profile attrs,
     ts_effective = EffectiveNamespaceSet [''shop''], ts_scopeEnforced = True, ts_rules = [], ts_fingerprint = ''fp''\<rparr>"

definition example_engine :: "AttributeSpec list \<Rightarrow> Engine" where
  "example_engine attrs = (NewEngine example_extractor NewStore example_config)
     \<lparr>e_targets := [(''team/web'', example_state attrs)], e_targetsByGVR := [(example_gvr, [''team/web''])],
      e_nsMeta := example_namespaces\<rparr>"

definition example_clocks :: clocks where
  "example_clocks = \<lparr>clk_lookup = 0, clk_store = 0, clk_metrics = 0\<rparr>"

lemma example_gvr_of: "profile_gvr e (example_state attrs) = example_gvr" if "e_machinery e = example_machinery"
  using that by (simp add: profile_gvr_def example_state_def example_profile_def gvrFromProfile_def example_machinery_def
      TrimSpace_example example_gvr_def)

lemma example_machinery_of [simp]: "e_extractor (example_engine attrs) = example_extractor"
  "e_machinery (example_engine attrs) = example_machinery"
  by (simp_all add: example_engine_def NewEngine_def Let_def example_extractor_def)

lemma machinery_example [simp]: "machinery example_extractor = example_machinery"
  by (simp add: example_extractor_def)

lemma example_tkey: "tkey (example_state attrs) = ''team/web''"
  by (simp add: example_state_def example_target_def targetKey_def)

lemma example_engine_wf: "wf_engine (example_engine attrs)"
proof -
  have "e_targets (example_engine attrs) = [(''team/web'', example_state attrs)]"
    "e_targetsByGVR (example_engine attrs) = [(example_gvr, [''team/web''])]"
    by (simp_all add: example_engine_def)
  then show ?thesis
    using example_gvr_of [of "example_engine attrs" attrs] example_tkey [of attrs]
    by (auto simp: wf_engine_def map_get_or_def)
qed

lemma example_registered:
  "map_of (e_targets (example_engine attrs)) (tkey (example_state attrs)) = Some (example_state attrs)"
  "profile_gvr (example_engine attrs) (example_state attrs) = example_gvr"
  by (simp_all add: example_tkey example_gvr_of) (simp add: example_engine_def)

abbreviation example_attrs :: "AttributeSpec list" where
  "example_attrs \<equiv> [example_attr ''kind'' ''$.kind'' False]"

lemma example_names:
  "t_Namespace (ts_target (example_state attrs)) = ''team''" "t_Name (ts_target (example_state attrs)) = ''web''"
  "GetUID (example_object ns name) = ''uid-'' @ name" "GetNamespace (example_object ns name) = ns"
  by (simp_all add: example_state_def example_target_def example_object_def)

definition example_opts :: RegisterTargetOptions where
  "example_opts = \<lparr>ro_ScopeCeiling = \<lparr>AllowedNamespaces = [''shop''], DeniedNamespaces = []\<rparr>, ro_EffectiveNamespaces = [''shop'']\<rparr>"

lemma example_matches:
  "matchesTarget (example_engine []) (new_state (example_target []) (example_profile [])
      \<lparr>ro_ScopeCeiling = \<lparr>AllowedNamespaces = [''shop''], DeniedNamespaces = []\<rparr>, ro_EffectiveNamespaces = [''shop'']\<rparr>
      [''shop''] []) example_gvr (example_object ''shop'' ''cart'') = Match_Accepted"
proof -
  have "matchesTarget (example_engine []) ((example_state [])\<lparr>ts_fingerprint := f\<rparr>) example_gvr (example_object ''shop'' ''cart'')
      = matchesTarget (example_engine []) (example_state []) example_gvr (example_object ''shop'' ''cart'')" for f
    by (simp add: matchesTarget_def)
  moreover have "matchesTarget (example_engine []) (example_state []) example_gvr (example_object ''shop'' ''cart'') = Match_Accepted"
    by code_simp
  moreover have "new_state (example_target []) (example_profile []) \<lparr>ro_ScopeCeiling = \<lparr>AllowedNamespaces = [''shop''],
      DeniedNamespaces = []\<rparr>, ro_EffectiveNamespaces = [''shop'']\<rparr> [''shop''] [] = (example_state [])\<lparr>ts_fingerprint := f\<rparr>"
    if "f = targetStateFingerprint (example_target []) (example_profile []) [''shop'']" for f
    using that by (simp add: new_state_def example_state_def CeilingRestrictsNamespaces_def)
  ultimately show ?thesis by metis
qed

lemma example_live: "toUnstructured (Live u) = Some u"
  by (simp add: toUnstructured_def)

lemma example_keys:
  "t_Namespace (ts_target (example_state attrs)) = ''team''" "t_Name (ts_target (example_state attrs)) = ''web''"
  "GetUID (example_object ''shop'' ''cart'') = ''uid-cart''"
  by (simp_all add: example_names)

definition cart_item :: item where
  "cart_item = \<lparr>item_targetNamespace = ''team'', item_targetName = ''web'', item_namespace = ''shop'', item_name = ''cart'',
     item_group = ''apps'', item_version = ''v1'', item_kind = ''Deployment'', item_uid = ''uid-cart'',
     item_attributes = Some [(''kind'', JString ''Deployment'')]\<rparr>"

lemma example_processed:
  "rows (e_store (processDispatch (Some example_kube) example_clocks example_gvr (Live (example_object ''shop'' ''cart''))
     False (example_engine example_attrs))) ''team'' ''web'' ''uid-cart'' =
   Some cart_item"
  "rows (e_store (example_engine example_attrs)) ''team'' ''web'' ''uid-cart'' = None"
  by code_simp+

theorem dispatch_fail_closed_witness:
  "rows (e_store (processDispatch (Some example_kube) example_clocks example_gvr (Live (example_object ''legacy'' ''old''))
     False (example_engine example_attrs))) ''team'' ''web'' ''uid-old'' = None"
proof -
  have "matchesTarget (example_engine example_attrs) (example_state example_attrs) example_gvr
      (example_object ''legacy'' ''old'') \<noteq> Match_Accepted" by code_simp
  then show ?thesis
    using dispatch_fail_closed [OF example_engine_wf [of example_attrs] example_registered [of example_attrs] example_live refl,
        where client = "Some example_kube" and clk = example_clocks and deleted = False
          and u = "example_object ''legacy'' ''old''"]
    by (simp add: may_hold_def toUnstructured_def example_names)
qed


lemma example_row_written:
  obtains it where
    "rows (e_store (processDispatch (Some example_kube) example_clocks example_gvr (Live (example_object ''shop'' ''cart''))
       False (example_engine example_attrs))) (t_Namespace (ts_target (example_state example_attrs)))
       (t_Name (ts_target (example_state example_attrs))) (GetUID (example_object ''shop'' ''cart'')) = Some it"
    "rows (e_store (example_engine example_attrs)) (t_Namespace (ts_target (example_state example_attrs)))
       (t_Name (ts_target (example_state example_attrs))) (GetUID (example_object ''shop'' ''cart'')) \<noteq> Some it"
    "item_attributes it = Some [(''kind'', JString ''Deployment'')]"
proof (rule that)
  show "rows (e_store (processDispatch (Some example_kube) example_clocks example_gvr (Live (example_object ''shop'' ''cart''))
       False (example_engine example_attrs))) (t_Namespace (ts_target (example_state example_attrs)))
       (t_Name (ts_target (example_state example_attrs))) (GetUID (example_object ''shop'' ''cart'')) = Some cart_item"
    "rows (e_store (example_engine example_attrs)) (t_Namespace (ts_target (example_state example_attrs)))
       (t_Name (ts_target (example_state example_attrs))) (GetUID (example_object ''shop'' ''cart'')) \<noteq> Some cart_item"
    by (simp_all add: example_keys example_processed)
qed (simp add: cart_item_def)

theorem written_rows_scrubbed_witness:
  "clean_value (scrubberForProfile (example_engine example_attrs) (ts_profile (example_state example_attrs)))
     (GetGeneration (example_object ''shop'' ''cart'')) (JString ''Deployment'')"
proof (rule example_row_written)
  fix it
  assume row: "rows (e_store (processDispatch (Some example_kube) example_clocks example_gvr
       (Live (example_object ''shop'' ''cart'')) False (example_engine example_attrs)))
       (t_Namespace (ts_target (example_state example_attrs)))
       (t_Name (ts_target (example_state example_attrs))) (GetUID (example_object ''shop'' ''cart'')) = Some it"
    and fresh: "rows (e_store (example_engine example_attrs)) (t_Namespace (ts_target (example_state example_attrs)))
       (t_Name (ts_target (example_state example_attrs))) (GetUID (example_object ''shop'' ''cart'')) \<noteq> Some it"
    and vals: "item_attributes it = Some [(''kind'', JString ''Deployment'')]"
  show ?thesis
    by (rule written_rows_scrubbed [OF example_engine_wf example_registered example_live refl row fresh vals]) simp
qed

theorem rows_need_permission_witness:
  "kube_review example_kube example_gvr (resource_namespace (example_object ''shop'' ''cart'')) ''list'' = Inr True"
proof (rule example_row_written)
  fix it
  assume row: "rows (e_store (processDispatch (Some example_kube) example_clocks example_gvr
       (Live (example_object ''shop'' ''cart'')) False (example_engine example_attrs)))
       (t_Namespace (ts_target (example_state example_attrs)))
       (t_Name (ts_target (example_state example_attrs))) (GetUID (example_object ''shop'' ''cart'')) = Some it"
    and fresh: "rows (e_store (example_engine example_attrs)) (t_Namespace (ts_target (example_state example_attrs)))
       (t_Name (ts_target (example_state example_attrs))) (GetUID (example_object ''shop'' ''cart'')) \<noteq> Some it"
  have "e_access (example_engine example_attrs) = access_run (e_machinery (example_engine example_attrs)) [] NewAccessChecker"
    by (simp add: example_engine_def NewEngine_def Let_def access_run_def)
  moreover have "request_names example_gvr (resource_namespace (example_object ''shop'' ''cart'')) ''list''" by code_simp
  moreover have "prints_group_resources (e_machinery (example_engine example_attrs))" by (simp add: example_prints)
  ultimately show ?thesis
    using rows_need_permission [OF example_engine_wf example_registered example_live refl row fresh, of "[]"] by simp
qed

lemma example_fresh:
  "e_extractor (NewEngine ext st cfg) = ext" "e_targets (NewEngine ext st cfg) = []" "\<not> t_Suspend (t_Spec (example_target []))"
  by (simp_all add: NewEngine_def Let_def example_target_def)

lemma example_registers:
  obtains e' where "RegisterTarget example_kube True (example_target []) (example_profile []) example_opts
     (NewEngine example_extractor NewStore example_config) = (None, e')"
    "map_of (e_factories e') (gvrFromProfile example_machinery (TargetGVK (prof_Spec (example_profile []))))
       = Some [example_object ''shop'' ''cart'', example_object ''legacy'' ''old'']"
proof -
  let ?e = "NewEngine example_extractor NewStore example_config"
  have "CompileResourceRules example_machinery (ResourceRules (t_Filter (t_Spec (example_target [])))) cel = Inr []" for cel
    by (simp add: example_target_def example_filter_def CompileResourceRules_def)
  moreover have "resolve_namespaces None (example_target []) example_opts ?e = ([''shop''], ?e)"
    by (simp add: resolve_namespaces_def example_opts_def)
  moreover have "e_started (register_locked key st ?e) = []" "e_factories (register_locked key st ?e) = []" for key st
    by (simp_all add: register_locked_def indexTargetLocked_def NewEngine_def Let_def)
  ultimately show thesis
    by (intro that) (auto simp: RegisterTarget_def Let_def example_fresh startInformer_def map_get_or_def example_kube_def)
qed

theorem informer_covers_targets_witness:
  "\<exists>e'. RegisterTarget example_kube True (example_target []) (example_profile []) example_opts
     (NewEngine example_extractor NewStore example_config) = (None, e')
   \<and> map_get_or False (e_started e') (gvrFromProfile example_machinery (TargetGVK (prof_Spec (example_profile []))))"
proof (rule example_registers)
  fix e' assume "RegisterTarget example_kube True (example_target []) (example_profile []) example_opts
     (NewEngine example_extractor NewStore example_config) = (None, e')"
  then show ?thesis
    using informer_covers_targets [of example_kube True "example_target []" "example_profile []" example_opts
        "NewEngine example_extractor NewStore example_config" e'] by (simp add: example_fresh)
qed

theorem new_state_is_backfilled_witness:
  "\<exists>e'. RegisterTarget example_kube True (example_target []) (example_profile []) example_opts
     (NewEngine example_extractor NewStore example_config) = (None, e')
   \<and> job_for (gvrFromProfile example_machinery (TargetGVK (prof_Spec (example_profile [])))) (example_object ''legacy'' ''old'')
       \<in> set (e_dispatchCh e')"
proof (rule example_registers)
  fix e' assume "RegisterTarget example_kube True (example_target []) (example_profile []) example_opts
     (NewEngine example_extractor NewStore example_config) = (None, e')"
    "map_of (e_factories e') (gvrFromProfile example_machinery (TargetGVK (prof_Spec (example_profile []))))
       = Some [example_object ''shop'' ''cart'', example_object ''legacy'' ''old'']"
  then show ?thesis
    using new_state_is_backfilled [of example_kube True "example_target []" "example_profile []" example_opts
        "NewEngine example_extractor NewStore example_config" e' _
        "[example_object ''shop'' ''cart'', example_object ''legacy'' ''old'']", OF _ _ refl]
    by (simp add: example_fresh)
qed

section \<open>Empty namespace sets without a ceiling\<close>

text \<open>
  When a target's included and excluded namespaces leave nothing and no scope restricts it, the
  engine falls back to the namespace selector alone: the target then collects from every namespace
  the selector accepts, the excluded ones too.
\<close>

definition open_opts :: RegisterTargetOptions where
  "open_opts = \<lparr>ro_ScopeCeiling = \<lparr>AllowedNamespaces = [], DeniedNamespaces = []\<rparr>, ro_EffectiveNamespaces = []\<rparr>"

definition narrow_target :: KollectTarget where
  "narrow_target = (example_target [])\<lparr>t_Spec := (t_Spec (example_target []))
     \<lparr>t_Filter := (example_filter [])\<lparr>IncludedNamespaces := [''missing'']\<rparr>\<rparr>\<rparr>"

lemma matches_without_fingerprint:
  "matchesTarget e (new_state t p opts eff c) gvr u = matchesTarget e ((new_state t p opts eff c)\<lparr>ts_fingerprint := []\<rparr>) gvr u"
  by (simp add: matchesTarget_def)

lemma new_state_without_fingerprint:
  "(new_state t p opts eff c)\<lparr>ts_fingerprint := []\<rparr> = \<lparr>ts_target = t, ts_profile = p, ts_effective = EffectiveNamespaceSet eff,
      ts_scopeEnforced = CeilingRestrictsNamespaces (ro_ScopeCeiling opts), ts_rules = c, ts_fingerprint = []\<rparr>"
  by (simp add: new_state_def)

theorem excluded_namespace_collected:
  "fst (resolve_namespaces None narrow_target open_opts (example_engine [])) = []
   \<and> IncludedNamespaces (t_Filter (t_Spec narrow_target)) = [''missing'']
   \<and> ''kube-system'' \<in> set (ExcludedNamespaces (t_Filter (t_Spec narrow_target)))
   \<and> matchesTarget (example_engine []) (new_state narrow_target (example_profile []) open_opts [] []) example_gvr
       (example_object ''kube-system'' ''dns'') = Match_Accepted"
proof -
  have "fst (resolve_namespaces None narrow_target open_opts (example_engine [])) = []" by code_simp
  moreover have "matchesTarget (example_engine []) (new_state narrow_target (example_profile []) open_opts [] []) example_gvr
       (example_object ''kube-system'' ''dns'') = Match_Accepted"
    unfolding matches_without_fingerprint new_state_without_fingerprint by code_simp
  ultimately show ?thesis by (simp add: narrow_target_def example_filter_def)
qed

text \<open>
  The fingerprint that decides about a backfill does not cover the ceiling, so lifting a ceiling
  that left a target nothing changes what the target accepts but not its fingerprint.
\<close>

theorem fingerprint_misses_ceiling:
  "ts_fingerprint (new_state narrow_target (example_profile []) (open_opts\<lparr>ro_ScopeCeiling :=
       \<lparr>AllowedNamespaces = [''missing''], DeniedNamespaces = []\<rparr>\<rparr>) [] [])
     = ts_fingerprint (new_state narrow_target (example_profile []) open_opts [] [])
   \<and> matchesTarget (example_engine []) (new_state narrow_target (example_profile []) (open_opts\<lparr>ro_ScopeCeiling :=
       \<lparr>AllowedNamespaces = [''missing''], DeniedNamespaces = []\<rparr>\<rparr>) [] []) example_gvr
       (example_object ''shop'' ''cart'') = Match_Namespace_Mismatch
   \<and> matchesTarget (example_engine []) (new_state narrow_target (example_profile []) open_opts [] []) example_gvr
       (example_object ''shop'' ''cart'') = Match_Accepted"
proof -
  have "matchesTarget (example_engine []) (new_state narrow_target (example_profile []) (open_opts\<lparr>ro_ScopeCeiling :=
       \<lparr>AllowedNamespaces = [''missing''], DeniedNamespaces = []\<rparr>\<rparr>) [] []) example_gvr
       (example_object ''shop'' ''cart'') = Match_Namespace_Mismatch"
    "matchesTarget (example_engine []) (new_state narrow_target (example_profile []) open_opts [] []) example_gvr
       (example_object ''shop'' ''cart'') = Match_Accepted"
    unfolding matches_without_fingerprint new_state_without_fingerprint by code_simp+
  then show ?thesis by (simp add: new_state_def)
qed

end
