(* ===== verification/Engine_Steps.thy ===== *)
theory Engine_Steps
  imports Engine_Dispatch
begin

text \<open>
  The engine under concurrency. Reconcilers register and unregister targets, informers deliver
  events and dispatch workers process them, in any interleaving. A step is one section the code
  runs under a lock of the engine or of the store, with two sections grouped: the decision of
  \<open>processDispatch\<close> for one target, up to the row it wants to write, is one step. Writing that row
  is a later step, and so is the clearing of rows after \<open>UnregisterTarget\<close> released the lock.
\<close>

section \<open>States and steps\<close>

record worker =
  w_gvr :: GroupVersionResource
  w_object :: unstructured
  w_deleted :: bool
  w_states :: "targetState list"
  w_pending :: "(targetState \<times> item) option"

record engine_sys =
  es_engine :: Engine
  es_workers :: "worker list"
  es_clearing :: "(string \<times> string) list"

text \<open>The name of a Kubernetes namespace holds no slash, so target keys are unambiguous.\<close>

definition plain_ns :: "string \<Rightarrow> bool" where
  "plain_ns ns \<longleftrightarrow> CHR ''/'' \<notin> set ns"

inductive engine_step :: "engine_sys \<Rightarrow> engine_sys \<Rightarrow> bool" where
  register: "plain_ns (t_Namespace (ts_target st)) \<Longrightarrow>
    engine_step s (s\<lparr>es_engine := register_locked (tkey st) st (es_engine s)\<rparr>)"
| informer: "engine_step s (s\<lparr>es_engine := snd (startInformer k gvr backfill (es_engine s))\<rparr>)"
| namespaces: "engine_step s (s\<lparr>es_engine := snd (refreshNamespaceCache client (es_engine s))\<rparr>)"
| namespace_defaults: "engine_step s (s\<lparr>es_engine := SetNamespaceDefaults defaults (es_engine s)\<rparr>)"
| scrub_keys: "engine_step s (s\<lparr>es_engine := SetScrubKeys keys (es_engine s)\<rparr>)"
| unregister: "plain_ns ns \<Longrightarrow>
    engine_step s (s\<lparr>es_engine := unregister_locked ns name (es_engine s), es_clearing := (ns, name) # es_clearing s\<rparr>)"
| clear: "es_clearing s = xs @ (ns, name) # ys \<Longrightarrow>
    engine_step s (s\<lparr>es_engine := clear_rows ns name (es_engine s), es_clearing := xs @ ys\<rparr>)"
| event: "engine_step s (s\<lparr>es_engine := dispatch gvr obj deleted (es_engine s)\<rparr>)"
| take_job: "e_dispatchCh (es_engine s) = job # jobs \<Longrightarrow> toUnstructured (job_obj job) = Some u \<Longrightarrow>
    engine_step s (s\<lparr>es_engine := (es_engine s)\<lparr>e_dispatchCh := jobs\<rparr>,
      es_workers := \<lparr>w_gvr = job_gvr job, w_object = u, w_deleted = job_deleted job,
        w_states = dispatch_states (job_gvr job) (es_engine s), w_pending = None\<rparr> # es_workers s\<rparr>)"
| skip_job: "e_dispatchCh (es_engine s) = job # jobs \<Longrightarrow> toUnstructured (job_obj job) = None \<Longrightarrow>
    engine_step s (s\<lparr>es_engine := (es_engine s)\<lparr>e_dispatchCh := jobs\<rparr>\<rparr>)"
| decide: "es_workers s = xs @ w # ys \<Longrightarrow> w_pending w = None \<Longrightarrow> w_states w = st # sts \<Longrightarrow>
    process_target client clk (w_gvr w) (w_object w) (w_deleted w) st (es_engine s) = (r, e') \<Longrightarrow>
    engine_step s (s\<lparr>es_engine := e',
      es_workers := xs @ w\<lparr>w_states := sts, w_pending := map_option (Pair st) r\<rparr> # ys\<rparr>)"
| commit: "es_workers s = xs @ w # ys \<Longrightarrow> w_pending w = Some (st, it) \<Longrightarrow>
    engine_step s (s\<lparr>es_engine := commit_item clk st it (es_engine s), es_workers := xs @ w\<lparr>w_pending := None\<rparr> # ys\<rparr>)"
| finish: "es_workers s = xs @ w # ys \<Longrightarrow> w_pending w = None \<Longrightarrow> w_states w = [] \<Longrightarrow>
    engine_step s (s\<lparr>es_workers := xs @ ys\<rparr>)"

inductive engine_reachable :: "Extractor \<Rightarrow> EngineConfig \<Rightarrow> engine_sys \<Rightarrow> bool" for ext cfg where
  start: "engine_reachable ext cfg \<lparr>es_engine = NewEngine ext NewStore cfg, es_workers = [], es_clearing = []\<rparr>"
| step: "engine_reachable ext cfg s \<Longrightarrow> engine_step s s' \<Longrightarrow> engine_reachable ext cfg s'"

section \<open>Scrubbing with more keys\<close>

lemma isSensitiveKey_mono: "set keys \<subseteq> set keys' \<Longrightarrow> isSensitiveKey keys k \<Longrightarrow> isSensitiveKey keys' k"
  by (auto simp: isSensitiveKey_def Let_def split: if_splits)

definition clean_entry :: "Scrubber \<Rightarrow> string \<times> any \<Rightarrow> bool" where
  "clean_entry keys kv \<longleftrightarrow> (if isSensitiveKey keys (fst kv) then snd kv = redactedValue
     else snd kv = redactedValue \<or> \<not> isCredentialCarrier (fst kv) (snd kv) \<and> scrubbed keys (snd kv))"

lemma scrubbed_object: "scrubbed keys (JObject m) \<longleftrightarrow> (\<forall>kv \<in> set m. clean_entry keys kv)"
  by (simp add: clean_entry_def)

declare scrubbed.simps(1) [simp del]

lemma scrubbed_mono: "set keys \<subseteq> set keys' \<Longrightarrow> scrubbed keys' v \<Longrightarrow> scrubbed keys v"
proof (induction keys v rule: scrubbed.induct)
  case (1 keys m)
  have "clean_entry keys kv" if "kv \<in> set m" for kv
  proof -
    have "clean_entry keys' kv" using 1(3) that by (simp add: scrubbed_object)
    then show ?thesis
      using 1(1) [OF that _ 1(2)] isSensitiveKey_mono [OF 1(2), of "fst kv"]
      by (auto simp: clean_entry_def split: if_splits)
  qed
  then show ?case by (simp add: scrubbed_object)
qed auto

lemma NewScrubber_mono: "set (NewScrubber []) \<subseteq> set (NewScrubber keys)"
  by (auto simp: NewScrubber_def)

abbreviation default_clean :: "any \<Rightarrow> bool" where
  "default_clean \<equiv> scrubbed (NewScrubber [])"

lemma stamp_keys:
  "\<not> isSensitiveKey (NewScrubber []) ''metadata''" "\<not> isSensitiveKey (NewScrubber []) ''annotations''"
  "\<not> isSensitiveKey (NewScrubber []) AnnotationCollectedGeneration"
  "normalizeScrubKey ''metadata'' = ''metadata''" "normalizeScrubKey ''annotations'' = ''annotations''"
  by code_simp+

lemma clean_member:
  assumes "default_clean (JObject m)" "map_of m k = Some (JObject x)"
  shows "default_clean (JObject x)"
proof -
  have "\<not> isSensitiveKey (NewScrubber []) ''redacted''" "\<not> isSensitiveKey (NewScrubber []) ''reason''" by code_simp+
  then have red: "default_clean redactedValue"
    using scrubbed_Scrub [of "NewScrubber []" redactedValue] by (simp only: Scrub_redactedValue not_False_eq_True)
  have "clean_entry (NewScrubber []) (k, JObject x)"
    using assms(1) map_of_SomeD [OF assms(2)] unfolding scrubbed_object by blast
  then have "JObject x = redactedValue \<or> default_clean (JObject x)"
    by (auto simp: clean_entry_def split: if_splits)
  then show ?thesis using red by (elim disjE) simp_all
qed

lemma clean_update:
  assumes "default_clean (JObject m)" "default_clean v" "\<not> isSensitiveKey (NewScrubber []) k" "\<not> isCredentialCarrier k v"
  shows "default_clean (JObject (AList.update k v m))"
proof -
  have "set (AList.update k v m) \<subseteq> insert (k, v) (set m)" by (induction m) auto
  moreover have "clean_entry (NewScrubber []) (k, v)" using assms by (simp add: clean_entry_def)
  ultimately show ?thesis using assms(1) unfolding scrubbed_object by blast
qed

lemma clean_stamp: "default_clean (JObject m) \<Longrightarrow> default_clean (JObject (stampCollectedGeneration gen m))"
proof -
  assume m: "default_clean (JObject m)"
  show ?thesis
  proof (cases "map_of m ''metadata''")
    case (Some v)
    show ?thesis
    proof (cases v)
      case (JObject meta)
      define ann where "ann = (case map_of meta ''annotations'' of Some (JObject a) \<Rightarrow> a | _ \<Rightarrow> [])"
      have c: "default_clean (JObject meta)" using clean_member [OF m] Some JObject by simp
      then have a: "default_clean (JObject ann)"
        using clean_member [OF c, of "''annotations''"] by (auto simp: ann_def scrubbed_object [of _ "[]"] split: option.split any.split)
      have "default_clean (JObject (AList.update AnnotationCollectedGeneration (JString (show_int gen)) ann))"
        using a by (rule clean_update) (simp_all add: stamp_keys isCredentialCarrier_def)
      then have "default_clean (JObject (AList.update ''metadata'' (JObject (AList.update ''annotations''
          (JObject (AList.update AnnotationCollectedGeneration (JString (show_int gen)) ann)) meta)) m))"
        by (rule clean_update [OF m clean_update [OF c]]) (simp_all add: stamp_keys isCredentialCarrier_def)
      then show ?thesis using Some JObject by (simp add: stampCollectedGeneration_def ann_def)
    qed (use m Some in \<open>simp_all add: stampCollectedGeneration_def\<close>)
  qed (use m in \<open>simp add: stampCollectedGeneration_def\<close>)
qed

lemma clean_value_default: "clean_value (NewScrubber keys) gen v \<Longrightarrow> default_clean v"
  using scrubbed_mono [OF NewScrubber_mono] clean_stamp by (auto simp: clean_value_def)

section \<open>The invariant\<close>

definition row_clean :: "item \<Rightarrow> bool" where
  "row_clean it \<longleftrightarrow> (case item_attributes it of None \<Rightarrow> True | Some vals \<Rightarrow> list_all (\<lambda>(n, v). default_clean v) vals)"

definition worker_ok :: "worker \<Rightarrow> bool" where
  "worker_ok w \<longleftrightarrow> list_all (\<lambda>st. plain_ns (t_Namespace (ts_target st))) (w_states w)
     \<and> (case w_pending w of
          None \<Rightarrow> True
        | Some (st, it) \<Rightarrow> plain_ns (t_Namespace (ts_target st)) \<and> item_targetNamespace it = t_Namespace (ts_target st)
            \<and> item_targetName it = t_Name (ts_target st) \<and> row_clean it)"

definition registered_plain :: "Engine \<Rightarrow> bool" where
  "registered_plain e \<longleftrightarrow> (\<forall>key st. map_of (e_targets e) key = Some st \<longrightarrow> plain_ns (t_Namespace (ts_target st)))"

definition scrubber_ok :: "Engine \<Rightarrow> bool" where
  "scrubber_ok e \<longleftrightarrow> (\<exists>keys. e_scrubber e = NewScrubber keys)"

definition rows_owned :: "Engine \<Rightarrow> (string \<times> string) list \<Rightarrow> bool" where
  "rows_owned e clearing \<longleftrightarrow> (\<forall>ns name uid it. rows (e_store e) ns name uid = Some it \<longrightarrow>
     plain_ns ns \<and> row_clean it \<and> (map_of (e_targets e) (targetKey ns name) \<noteq> None \<or> (ns, name) \<in> set clearing))"

definition engine_inv :: "engine_sys \<Rightarrow> bool" where
  "engine_inv s \<longleftrightarrow> wf_engine (es_engine s) \<and> registered_plain (es_engine s) \<and> scrubber_ok (es_engine s)
     \<and> wf_store (e_store (es_engine s)) \<and> rows_owned (es_engine s) (es_clearing s) \<and> list_all worker_ok (es_workers s)"

lemmas engine_inv_defs = engine_inv_def registered_plain_def scrubber_ok_def rows_owned_def

lemma targetKey_inj: "plain_ns ns \<Longrightarrow> plain_ns ns' \<Longrightarrow> targetKey ns name = targetKey ns' name' \<longleftrightarrow> ns = ns' \<and> name = name'"
  using cut_unique [of "CHR ''/''" ns ns'] by (auto simp: targetKey_def plain_ns_def)

text \<open>A step that keeps the targets and adds only rows of registered targets keeps the invariant.\<close>

lemma inv_same_targets:
  assumes "engine_inv s" "e_targets e' = e_targets (es_engine s)" "wf_engine e'" "scrubber_ok e'" "wf_store (e_store e')"
    and "list_all worker_ok ws"
    and "\<And>ns name uid it. rows (e_store e') ns name uid = Some it \<Longrightarrow> rows (e_store (es_engine s)) ns name uid \<noteq> Some it \<Longrightarrow>
      plain_ns ns \<and> row_clean it \<and> map_of (e_targets e') (targetKey ns name) \<noteq> None"
  shows "engine_inv (s\<lparr>es_engine := e', es_workers := ws\<rparr>)"
proof -
  have "rows_owned e' (es_clearing s)"
    unfolding rows_owned_def
  proof (intro allI impI)
    fix ns name uid it assume r: "rows (e_store e') ns name uid = Some it"
    show "plain_ns ns \<and> row_clean it \<and> (map_of (e_targets e') (targetKey ns name) \<noteq> None \<or> (ns, name) \<in> set (es_clearing s))"
    proof (cases "rows (e_store (es_engine s)) ns name uid = Some it")
      case True
      then show ?thesis using assms(1,2) by (simp add: engine_inv_def rows_owned_def)
    next
      case False
      then show ?thesis using assms(7) [OF r] by blast
    qed
  qed
  moreover have "registered_plain e'" using assms(1,2) by (simp add: engine_inv_def registered_plain_def)
  ultimately show ?thesis using assms(3-6) by (simp add: engine_inv_def)
qed

lemma inv_engine_only:
  assumes "engine_inv s" "e_targets e' = e_targets (es_engine s)" "wf_engine e'" "e_scrubber e' = e_scrubber (es_engine s)"
    and "e_store e' = e_store (es_engine s)"
  shows "engine_inv (s\<lparr>es_engine := e'\<rparr>)"
  using inv_same_targets [OF assms(1,2,3), of "es_workers s"] assms(1,4,5) by (simp add: engine_inv_def scrubber_ok_def)

lemma wf_store_refresh: "wf_store (e_store e) \<Longrightarrow> wf_store (e_store (refreshTargetSnapshotMetrics now st e))"
  by (simp add: refreshTargetSnapshotMetrics_def Let_def read_state wf_store_shardFor)

lemma wf_store_remove_row: "wf_store (e_store e) \<Longrightarrow> wf_store (e_store (remove_row st u e))"
  by (simp add: remove_row_def wf_store_Remove)

lemma wf_store_process:
  "wf_store (e_store e) \<Longrightarrow> wf_store (e_store (snd (process_target client clk gvr u deleted st e)))"
  by (auto simp: process_target_def Let_def wf_store_refresh wf_store_remove_row split: prod.split sum.split bool.split)

lemma wf_store_commit: "wf_store (e_store e) \<Longrightarrow> wf_store (e_store (commit_item clk st it e))"
  by (auto simp: commit_item_def upsertIfRegistered_def Let_def read_state intro!: wf_store_refresh
      wf_store_shardFor wf_store_Upsert)

lemma scrubberForProfile_keys: "scrubber_ok e \<Longrightarrow> \<exists>keys. scrubberForProfile e p = NewScrubber keys"
  by (auto simp: scrubber_ok_def scrubberForProfile_def Let_def)

lemma build_item_row_clean:
  assumes "scrubber_ok e" "Extract (e_extractor e) u (Attributes (prof_Spec (ts_profile st))) = Inr attrs"
  shows "row_clean (build_item e st u attrs)"
proof -
  have "wf_map attrs" using extract_wf [OF assms(2) [unfolded Extract_def]] by simp
  moreover obtain keys where "scrubberForProfile e (ts_profile st) = NewScrubber keys"
    using scrubberForProfile_keys [OF assms(1)] by blast
  ultimately have "default_clean v" if "item_attributes (build_item e st u attrs) = Some vals" "(n, v) \<in> set vals" for vals n v
    using build_item_clean [OF that] clean_value_default by metis
  then show ?thesis by (auto simp: row_clean_def list_all_iff split: option.split)
qed

lemma process_item:
  assumes "process_target client clk gvr u deleted st e = (Some it, e')"
  obtains attrs where "it = build_item e st u attrs"
    "Extract (e_extractor e) u (Attributes (prof_Spec (ts_profile st))) = Inr attrs"
  using that by (cases rule: process_target_cases [OF assms]) simp_all

lemma process_rows:
  assumes "process_target client clk gvr u deleted st e = (r, e')" "rows (e_store e') ns name uid = Some it"
  shows "rows (e_store e) ns name uid = Some it"
  using assms(2) by (cases rule: process_target_cases [OF assms(1)]) (simp_all split: if_splits)

lemma decide_inv:
  assumes inv: "engine_inv s" and w: "es_workers s = xs @ w # ys" "w_states w = st # sts"
    and p: "process_target client clk (w_gvr w) (w_object w) (w_deleted w) st (es_engine s) = (r, e')"
  shows "engine_inv (s\<lparr>es_engine := e', es_workers := xs @ w\<lparr>w_states := sts, w_pending := map_option (Pair st) r\<rparr> # ys\<rparr>)"
proof (rule inv_same_targets [OF inv])
  have c: "config e' = config (es_engine s)" using config_process_target p by (metis snd_conv)
  then show "e_targets e' = e_targets (es_engine s)" "wf_engine e'" "scrubber_ok e'"
    using inv config_fields [OF c] wf_engine_config [OF c] by (simp_all add: engine_inv_def scrubber_ok_def)
  show "wf_store (e_store e')" using inv wf_store_process p unfolding engine_inv_def by (metis snd_conv)
  have plain: "plain_ns (t_Namespace (ts_target st))" and ok: "list_all worker_ok (xs @ w # ys)"
    using inv w by (auto simp: engine_inv_def worker_ok_def)
  have "worker_ok (w\<lparr>w_states := sts, w_pending := map_option (Pair st) r\<rparr>)"
  proof (cases r)
    case None
    then show ?thesis using ok w by (simp add: worker_ok_def)
  next
    case (Some it)
    obtain attrs where it: "it = build_item (es_engine s) st (w_object w) attrs"
        and x: "Extract (e_extractor (es_engine s)) (w_object w) (Attributes (prof_Spec (ts_profile st))) = Inr attrs"
      using p unfolding Some by (rule process_item)
    have "row_clean it" unfolding it by (rule build_item_row_clean [OF _ x]) (use inv in \<open>simp add: engine_inv_def\<close>)
    moreover have "item_targetNamespace it = t_Namespace (ts_target st)" "item_targetName it = t_Name (ts_target st)"
      by (simp_all add: it)
    ultimately show ?thesis using ok w plain Some by (simp add: worker_ok_def)
  qed
  then show "list_all worker_ok (xs @ w\<lparr>w_states := sts, w_pending := map_option (Pair st) r\<rparr> # ys)" using ok by simp
  show "plain_ns ns \<and> row_clean it \<and> map_of (e_targets e') (targetKey ns name) \<noteq> None"
    if "rows (e_store e') ns name uid = Some it" "rows (e_store (es_engine s)) ns name uid \<noteq> Some it" for ns name uid it
    using that process_rows [OF p] by blast
qed

lemma commit_inv:
  assumes inv: "engine_inv s" and w: "es_workers s = xs @ w # ys" "w_pending w = Some (st, it)"
  shows "engine_inv (s\<lparr>es_engine := commit_item clk st it (es_engine s), es_workers := xs @ w\<lparr>w_pending := None\<rparr> # ys\<rparr>)"
proof (rule inv_same_targets [OF inv])
  let ?e' = "commit_item clk st it (es_engine s)"
  have c: "config ?e' = config (es_engine s)" by (rule config_commit)
  then show "e_targets ?e' = e_targets (es_engine s)" "wf_engine ?e'" "scrubber_ok ?e'"
    using inv config_fields [OF c] wf_engine_config [OF c] by (simp_all add: engine_inv_def scrubber_ok_def)
  show "wf_store (e_store ?e')" using inv wf_store_commit by (simp add: engine_inv_def)
  have ok: "list_all worker_ok (xs @ w # ys)" using inv w by (simp add: engine_inv_def)
  then show "list_all worker_ok (xs @ w\<lparr>w_pending := None\<rparr> # ys)" by (simp add: worker_ok_def)
  show "plain_ns ns \<and> row_clean it' \<and> map_of (e_targets ?e') (targetKey ns name) \<noteq> None"
    if "rows (e_store ?e') ns name uid = Some it'" "rows (e_store (es_engine s)) ns name uid \<noteq> Some it'" for ns name uid it'
    using that ok w config_fields [OF c] by (auto simp: rows_commit rows_Upsert worker_ok_def split: if_splits)
qed

lemma register_fields:
  "e_targets (register_locked key st e) = AList.update key st (e_targets e)"
  "e_store (register_locked key st e) = e_store e" "e_scrubber (register_locked key st e) = e_scrubber e"
  by (auto simp: register_locked_def Let_def indexTargetLocked_def unindexTargetLocked_def split: option.split)

lemma unregister_fields:
  "e_targets (unregister_locked ns name e) = AList.delete (targetKey ns name) (e_targets e)"
  "e_store (unregister_locked ns name e) = e_store e" "e_scrubber (unregister_locked ns name e) = e_scrubber e"
  by (auto simp: unregister_locked_def Let_def unindexTargetLocked_def split: option.split)

lemma inv_row:
  assumes "engine_inv s" "rows (e_store (es_engine s)) ns name uid = Some it"
  shows "plain_ns ns" "row_clean it"
    "map_of (e_targets (es_engine s)) (targetKey ns name) \<noteq> None \<or> (ns, name) \<in> set (es_clearing s)"
  using assms unfolding engine_inv_def rows_owned_def by blast+

lemma register_inv:
  assumes inv: "engine_inv s" and plain: "plain_ns (t_Namespace (ts_target st))"
  shows "engine_inv (s\<lparr>es_engine := register_locked (tkey st) st (es_engine s)\<rparr>)"
proof -
  let ?e' = "register_locked (tkey st) st (es_engine s)"
  have m: "map_of (e_targets ?e') = (map_of (e_targets (es_engine s)))(tkey st \<mapsto> st)"
    by (simp add: register_fields update_conv')
  have "rows_owned ?e' (es_clearing s)"
    unfolding rows_owned_def m register_fields(2)
  proof (intro allI impI)
    fix ns name uid it assume "rows (e_store (es_engine s)) ns name uid = Some it"
    from inv_row [OF inv this]
    show "plain_ns ns \<and> row_clean it \<and> (((map_of (e_targets (es_engine s)))(tkey st \<mapsto> st)) (targetKey ns name) \<noteq> None
        \<or> (ns, name) \<in> set (es_clearing s))" by simp
  qed
  moreover have "registered_plain ?e'" using inv plain unfolding engine_inv_def registered_plain_def m by auto
  ultimately show ?thesis using inv wf_register_locked
    by (simp add: engine_inv_def scrubber_ok_def register_fields)
qed

lemma unregister_inv:
  assumes inv: "engine_inv s" and plain: "plain_ns ns"
  shows "engine_inv (s\<lparr>es_engine := unregister_locked ns name (es_engine s), es_clearing := (ns, name) # es_clearing s\<rparr>)"
proof -
  let ?e' = "unregister_locked ns name (es_engine s)"
  have m: "map_of (e_targets ?e') = (map_of (e_targets (es_engine s)))(targetKey ns name := None)"
    by (simp add: unregister_fields delete_conv')
  have "rows_owned ?e' ((ns, name) # es_clearing s)"
    unfolding rows_owned_def m unregister_fields(2)
  proof (intro allI impI)
    fix ns' name' uid it assume "rows (e_store (es_engine s)) ns' name' uid = Some it"
    from inv_row [OF inv this] show "plain_ns ns' \<and> row_clean it
        \<and> (((map_of (e_targets (es_engine s)))(targetKey ns name := None)) (targetKey ns' name') \<noteq> None
           \<or> (ns', name') \<in> set ((ns, name) # es_clearing s))"
      using targetKey_inj [OF plain, of ns' name name'] by auto
  qed
  moreover have "registered_plain ?e'" using inv unfolding engine_inv_def registered_plain_def m by auto
  ultimately show ?thesis using inv wf_unregister_locked
    by (simp add: engine_inv_def scrubber_ok_def unregister_fields)
qed

lemma clear_inv:
  assumes inv: "engine_inv s" and c: "es_clearing s = xs @ (ns, name) # ys"
  shows "engine_inv (s\<lparr>es_engine := clear_rows ns name (es_engine s), es_clearing := xs @ ys\<rparr>)"
proof -
  let ?e' = "clear_rows ns name (es_engine s)"
  have f: "e_targets ?e' = e_targets (es_engine s)" "e_scrubber ?e' = e_scrubber (es_engine s)"
    "e_store ?e' = RemoveTarget ns name (e_store (es_engine s))"
    by (simp_all add: clear_rows_def)
  have "rows_owned ?e' (xs @ ys)"
    using inv c unfolding engine_inv_def rows_owned_def f by (auto simp: rows_RemoveTarget split: if_splits)
  moreover have "registered_plain ?e'" using inv unfolding engine_inv_def registered_plain_def f by simp
  ultimately show ?thesis using inv wf_store_RemoveTarget by (simp add: engine_inv_def scrubber_ok_def f)
qed

lemma startInformer_scrubber: "e_scrubber (snd (startInformer k gvr b e)) = e_scrubber e"
proof -
  have "e_scrubber (resyncInformerStore gvr objs e) = e_scrubber e" for objs e
    by (induction objs arbitrary: e) (simp_all add: resyncInformerStore_def dispatch_def)
  then show ?thesis by (auto simp: startInformer_def Let_def split: option.split)
qed

lemma refresh_fields:
  "e_targets (snd (refreshNamespaceCache client e)) = e_targets e" "e_store (snd (refreshNamespaceCache client e)) = e_store e"
  "e_scrubber (snd (refreshNamespaceCache client e)) = e_scrubber e"
  by (auto simp: refreshNamespaceCache_def split: option.split sum.split)

lemma worker_taken:
  assumes "engine_inv s"
  shows "worker_ok \<lparr>w_gvr = gvr, w_object = u, w_deleted = d, w_states = dispatch_states g (es_engine s), w_pending = None\<rparr>"
proof -
  have "plain_ns (t_Namespace (ts_target st))" if "st \<in> set (dispatch_states g (es_engine s))" for st
  proof -
    have "\<exists>key. map_of (e_targets (es_engine s)) key = Some st"
      using that by (auto simp: dispatch_states_def List.map_filter_def)
    then show ?thesis using assms by (auto simp: engine_inv_def registered_plain_def)
  qed
  then show ?thesis by (simp add: worker_ok_def list_all_iff)
qed

lemma wf_queue [simp]: "wf_engine (e\<lparr>e_dispatchCh := q\<rparr>) = wf_engine e"
  by (simp add: wf_engine_def profile_gvr_def)

lemma engine_step_inv: "engine_step s s' \<Longrightarrow> engine_inv s \<Longrightarrow> engine_inv s'"
proof (induction rule: engine_step.induct)
  case (informer s k gvr backfill)
  then show ?case
    by (intro inv_engine_only) (simp_all add: startInformer_fields startInformer_scrubber engine_inv_def wf_startInformer)
next
  case (scrub_keys s keys)
  have "engine_inv (s\<lparr>es_engine := SetScrubKeys keys (es_engine s), es_workers := es_workers s\<rparr>)"
    by (rule inv_same_targets [OF scrub_keys])
      (use scrub_keys in \<open>simp_all add: engine_inv_def, auto simp: SetScrubKeys_def scrubber_ok_def\<close>)
  then show ?case by simp
next
  case (take_job s job jobs u)
  have "engine_inv (s\<lparr>es_engine := (es_engine s)\<lparr>e_dispatchCh := jobs\<rparr>\<rparr>)"
    by (rule inv_engine_only [OF take_job(3)]) (use take_job in \<open>simp_all add: engine_inv_def\<close>)
  then show ?case using worker_taken [OF take_job(3)] by (simp add: engine_inv_def)
next
  case (finish s xs w ys)
  then show ?case by (simp add: engine_inv_def)
next
  case (namespaces s client)
  then show ?case by (intro inv_engine_only) (simp_all add: refresh_fields engine_inv_def)
next
  case (namespace_defaults s defaults)
  then show ?case
    by (intro inv_engine_only) (simp_all add: engine_inv_def, simp_all add: SetNamespaceDefaults_def)
next
  case (event s gvr obj deleted)
  then show ?case by (intro inv_engine_only) (simp_all add: engine_inv_def, simp add: dispatch_def)
next
  case (skip_job s job jobs)
  then show ?case by (intro inv_engine_only) (simp_all add: engine_inv_def)
qed (simp_all only: register_inv unregister_inv clear_inv decide_inv commit_inv)

lemma engine_reachable_inv: "engine_reachable ext cfg s \<Longrightarrow> engine_inv s"
proof (induction rule: engine_reachable.induct)
  case start
  show ?case
    by (auto simp: engine_inv_defs NewEngine_def Let_def wf_engine_def map_get_or_def rows_NewStore wf_store_NewStore)
qed (rule engine_step_inv)

section \<open>Reachable states\<close>

text \<open>C21. Whatever the interleaving of reconcilers, informers and workers, the index of targets by
  resource lists exactly the registered targets, each once under the resource of its profile, and
  the store keeps its shard and bucket invariant.\<close>

theorem engine_index_invariant:
  assumes "engine_reachable ext cfg s"
  shows "wf_engine (es_engine s) \<and> wf_store (e_store (es_engine s))"
  using engine_reachable_inv [OF assms] by (simp add: engine_inv_def)

text \<open>C22. No row outlives its target: once every \<open>UnregisterTarget\<close> call has returned, each row in
  the store belongs to a registered target, also when workers held a snapshot of an older target
  while it was unregistered.\<close>

theorem rows_never_outlive_targets:
  assumes "engine_reachable ext cfg s" and "es_clearing s = []"
    and "rows (e_store (es_engine s)) ns name uid = Some it"
  shows "map_of (e_targets (es_engine s)) (targetKey ns name) \<noteq> None"
  using inv_row(3) [OF engine_reachable_inv [OF assms(1)] assms(3)] assms(2) by simp

section \<open>Example runs\<close>

definition example_worker :: "targetState \<Rightarrow> unstructured \<Rightarrow> worker" where
  "example_worker st u = \<lparr>w_gvr = example_gvr, w_object = u, w_deleted = False, w_states = [st], w_pending = None\<rparr>"

definition registered_engine :: "targetState \<Rightarrow> Engine" where
  "registered_engine st = register_locked (tkey st) st (NewEngine example_extractor NewStore example_config)"

lemma dispatched_reachable:
  assumes "st = (example_state attrs)\<lparr>ts_effective := eff\<rparr>"
  shows "engine_reachable example_extractor example_config
    \<lparr>es_engine = registered_engine st, es_workers = [example_worker st u], es_clearing = []\<rparr>"
proof -
  let ?e = "registered_engine st"
  have k: "tkey st = ''team/web''" and ns: "t_Namespace (ts_target st) = ''team''"
    by (simp_all add: assms example_state_def example_target_def targetKey_def)
  have gvr: "profile_gvr e st = example_gvr" if "e_extractor e = example_extractor" for e
    using example_gvr_of [of e attrs] that by (simp add: assms profile_gvr_def)
  have reg: "?e = indexTargetLocked (tkey st) example_gvr
      ((NewEngine example_extractor NewStore example_config)\<lparr>e_targets := [(tkey st, st)]\<rparr>)"
    using gvr [of "NewEngine example_extractor NewStore example_config"]
    by (simp add: registered_engine_def register_locked_def example_fresh Let_def)
  then have e: "e_targets ?e = [(tkey st, st)]" "e_targetsByGVR ?e = [(example_gvr, [tkey st])]" "e_dispatchCh ?e = []"
    by (simp_all add: indexTargetLocked_def NewEngine_def Let_def map_get_or_def)
  have queue: "?e\<lparr>e_dispatchCh := []\<rparr> = ?e" using e(3) by (cases ?e) simp
  note start = engine_reachable.start [of example_extractor example_config]
  have "plain_ns (t_Namespace (ts_target st))" by (simp add: ns plain_ns_def)
  from engine_reachable.step [OF start engine_step.register [OF this]]
  have "engine_reachable example_extractor example_config \<lparr>es_engine = ?e, es_workers = [], es_clearing = []\<rparr>"
    by (simp add: registered_engine_def)
  from engine_reachable.step [OF this engine_step.event [of _ example_gvr "Live u" False]]
  have r: "engine_reachable example_extractor example_config
      \<lparr>es_engine = dispatch example_gvr (Live u) False ?e, es_workers = [], es_clearing = []\<rparr>" by simp
  have "dispatch_states example_gvr (dispatch example_gvr (Live u) False ?e) = [st]"
    by (simp add: dispatch_states_def dispatch_def e map_get_or_def List.map_filter_def)
  with engine_reachable.step [OF r engine_step.take_job [of _ "job_for example_gvr u" "[]" u]]
  show ?thesis using e(3) queue by (simp add: dispatch_def job_for_def toUnstructured_def example_worker_def)
qed

lemma example_decided:
  "fst (process_target (Some example_kube) example_clocks example_gvr (example_object ''shop'' ''cart'') False
     (example_state example_attrs) (registered_engine (example_state example_attrs))) = Some cart_item"
  by code_simp

lemma example_run:
  obtains s where "engine_reachable example_extractor example_config s" "es_clearing s = []"
    "\<And>ns tn uid. rows (e_store (es_engine s)) ns tn uid
       = (if (ns, tn, uid) = (''team'', ''web'', ''uid-cart'') then Some cart_item else None)"
proof -
  let ?st = "example_state example_attrs" and ?u = "example_object ''shop'' ''cart''"
  have "?st = (example_state example_attrs)\<lparr>ts_effective := ts_effective ?st\<rparr>" by simp
  note r = dispatched_reachable [OF this, of ?u]
  obtain e' where p: "process_target (Some example_kube) example_clocks example_gvr ?u False ?st (registered_engine ?st)
      = (Some cart_item, e')"
    using example_decided by (metis prod.collapse)
  have "engine_reachable example_extractor example_config \<lparr>es_engine = e',
      es_workers = [(example_worker ?st ?u)\<lparr>w_states := [], w_pending := Some (?st, cart_item)\<rparr>], es_clearing = []\<rparr>"
    using engine_reachable.step [OF r engine_step.decide [where xs = "[]" and ys = "[]" and w = "example_worker ?st ?u"
          and st = ?st and sts = "[]" and client = "Some example_kube" and clk = example_clocks]] p
    by (simp add: example_worker_def)
  from engine_reachable.step [OF this engine_step.commit [where xs = "[]" and ys = "[]" and st = ?st and it = cart_item
        and w = "(example_worker ?st ?u)\<lparr>w_states := [], w_pending := Some (?st, cart_item)\<rparr>" and clk = example_clocks]]
  have c: "engine_reachable example_extractor example_config \<lparr>es_engine = commit_item example_clocks ?st cart_item e',
      es_workers = [(example_worker ?st ?u)\<lparr>w_states := [], w_pending := None\<rparr>], es_clearing = []\<rparr>"
    by simp
  have "e_targets e' = e_targets (registered_engine ?st)"
    using config_process_target [of "Some example_kube" example_clocks example_gvr ?u False ?st "registered_engine ?st"] p
    by (simp add: config_def)
  then have "map_of (e_targets e') (tkey ?st) = Some ?st"
    by (simp add: registered_engine_def register_fields update_conv')
  moreover have none: "rows (e_store e') ns tn uid = None" for ns tn uid
    using process_rows [OF p, of ns tn uid]
    by (cases "rows (e_store e') ns tn uid") (simp_all add: registered_engine_def register_fields rows_NewStore NewEngine_def Let_def)
  ultimately show thesis by (intro that [OF c]) (simp_all add: rows_commit rows_Upsert none cart_item_def)
qed

theorem engine_index_invariant_witness:
  "wf_engine (registered_engine (example_state []))"
proof -
  have "example_state [] = (example_state [])\<lparr>ts_effective := ts_effective (example_state [])\<rparr>" by simp
  from engine_index_invariant [OF dispatched_reachable [OF this, of "example_object ''shop'' ''cart''"]]
  show ?thesis by simp
qed

theorem rows_never_outlive_targets_witness:
  "\<exists>s. engine_reachable example_extractor example_config s
     \<and> rows (e_store (es_engine s)) ''team'' ''web'' ''uid-cart'' = Some cart_item
     \<and> map_of (e_targets (es_engine s)) ''team/web'' \<noteq> None"
proof (rule example_run)
  fix s assume s: "engine_reachable example_extractor example_config s" "es_clearing s = []"
    "\<And>ns tn uid. rows (e_store (es_engine s)) ns tn uid
       = (if (ns, tn, uid) = (''team'', ''web'', ''uid-cart'') then Some cart_item else None)"
  from rows_never_outlive_targets [OF s(1,2), of "''team''" "''web''" "''uid-cart''" cart_item]
  show ?thesis using s by (intro exI [of _ s]) (simp add: targetKey_def)
qed

section \<open>Failure records can outlive a target\<close>

text \<open>
  Rows are written only while their target is registered, but the failure records of
  \<open>processDispatch\<close> are not: a worker that took its snapshot before \<open>UnregisterTarget\<close> records a
  denied permission for a target that no longer exists, and nothing removes the record.
\<close>

theorem forbidden_outlives_target:
  "\<exists>s. engine_reachable example_extractor example_config s \<and> e_targets (es_engine s) = [] \<and> es_clearing s = []
     \<and> e_dispatchCh (es_engine s) = [] \<and> list_all (\<lambda>w. w_states w = [] \<and> w_pending w = None) (es_workers s)
     \<and> HasForbiddenScope ''team'' ''web'' (es_engine s)"
proof -
  let ?st = "(example_state [])\<lparr>ts_effective := EffectiveNamespaceSet [''legacy'']\<rparr>" and ?u = "example_object ''legacy'' ''old''"
  let ?e = "registered_engine ?st" and ?w = "example_worker ?st ?u"
  let ?e2 = "clear_rows ''team'' ''web'' (unregister_locked ''team'' ''web'' ?e)"
  have "plain_ns ''team''" by (simp add: plain_ns_def)
  from engine_reachable.step [OF dispatched_reachable [OF refl, where attrs = "[]" and u = ?u
        and eff = "EffectiveNamespaceSet [''legacy'']"] engine_step.unregister [OF this, of _ "''web''"]]
  have "engine_reachable example_extractor example_config \<lparr>es_engine = unregister_locked ''team'' ''web'' ?e,
      es_workers = [?w], es_clearing = [(''team'', ''web'')]\<rparr>" by simp
  from engine_reachable.step [OF this engine_step.clear [where xs = "[]" and ys = "[]" and ns = "''team''" and name = "''web''"]]
  have r: "engine_reachable example_extractor example_config \<lparr>es_engine = ?e2, es_workers = [?w], es_clearing = []\<rparr>" by simp
  define p where "p = process_target (Some example_kube) example_clocks example_gvr ?u False ?st ?e2"
  have f: "fst p = None" "HasForbiddenScope ''team'' ''web'' (snd p)" "e_targets (snd p) = []" "e_dispatchCh (snd p) = []"
    unfolding p_def by code_simp+
  have p: "process_target (Some example_kube) example_clocks (w_gvr ?w) (w_object ?w) (w_deleted ?w) ?st ?e2 = (None, snd p)"
    using f(1) by (simp add: p_def [symmetric] example_worker_def prod_eq_iff)
  have "engine_reachable example_extractor example_config
      \<lparr>es_engine = snd p, es_workers = [?w\<lparr>w_states := [], w_pending := None\<rparr>], es_clearing = []\<rparr>"
    using engine_reachable.step [OF r engine_step.decide [where xs = "[]" and ys = "[]" and w = ?w and st = ?st and sts = "[]"
          and client = "Some example_kube" and clk = example_clocks and r = None and e' = "snd p"]] p
    by (simp add: example_worker_def)
  then show ?thesis
    using f by (intro exI [where x = "\<lparr>es_engine = snd p, es_workers = [?w\<lparr>w_states := [], w_pending := None\<rparr>],
        es_clearing = []\<rparr>"]) simp
qed

end
