(* ===== verification/Admission.thy ===== *)
theory Admission
  imports Extractor Go_Time
begin

text \<open>
  Validation of specs at admission: \<open>ref.go\<close>, \<open>collection_filter.go\<close>, \<open>target.go\<close>,
  \<open>clustertarget.go\<close>, \<open>export_interval.go\<close>, \<open>inventory.go\<close> and \<open>clusterinventory.go\<close> of
  \<open>src/internal/validation\<close>. A field error carries its path, the bad value and what is wrong;
  texts built with \<open>fmt.Sprintf\<close> are constructors with their arguments. The DNS-1123 checks of
  \<open>k8s.io/apimachinery/pkg/util/validation\<close> are the argument \<open>dns\<close>, the result of creating the CEL
  environment is the argument \<open>env\<close>, and the operator's byte cap is the argument \<open>capBytes\<close>.
\<close>

section \<open>Field errors\<close>

datatype path_elem = Child string | Index nat

type_synonym fpath = "path_elem list"

datatype bad_value = Bad_String string | Bad_Int int | Bad_Duration duration

datatype detail =
    Detail string
  | Above_Max_Interval
  | Below_Floor duration
  | At_Most_Entries nat
  | Above_Global_Cap int
  | Duplicate_Entry string
  | Messages "string list"

datatype field_error =
    Field_Required fpath string
  | Field_Invalid fpath bad_value detail
  | Field_Forbidden fpath string
  | Field_Duplicate fpath string
  | Field_NotSupported fpath string "string list"

text \<open>The UTF-8 bytes of an em dash.\<close>

definition em_dash :: string where "em_dash = [CHR 0xE2, CHR 0x80, CHR 0x94]"

record dns_checks =
  IsDNS1123Label :: "string \<Rightarrow> string list"
  IsDNS1123Subdomain :: "string \<Rightarrow> string list"

section \<open>References\<close>

definition ValidateNamespacedObjectRef :: "dns_checks \<Rightarrow> NamespacedObjectReference \<Rightarrow> fpath \<Rightarrow> bool \<Rightarrow> field_error list" where
  "ValidateNamespacedObjectRef dns ref fldPath requireNamespace =
     (let namePath = fldPath @ [Child ''name'']; nsPath = fldPath @ [Child ''namespace''];
          nameErrs =
            (if TrimSpace (ref_Name ref) = [] then [Field_Required namePath ''name is required'']
             else if Contains (ref_Name ref) ''/'' then
               [Field_Invalid namePath (Bad_String (ref_Name ref)) (Detail ''name must be a single object name, not namespace/name'')]
             else if IsDNS1123Subdomain dns (ref_Name ref) \<noteq> [] then
               [Field_Invalid namePath (Bad_String (ref_Name ref)) (Messages (IsDNS1123Subdomain dns (ref_Name ref)))]
             else []);
          nsErrs =
            (if TrimSpace (ref_Namespace ref) = [] then
               (if requireNamespace
                then [Field_Required nsPath (''namespace is required on cluster-scoped references '' @ em_dash @ '' no implicit default'')] else [])
             else if IsDNS1123Label dns (ref_Namespace ref) \<noteq> [] then
               [Field_Invalid nsPath (Bad_String (ref_Namespace ref)) (Messages (IsDNS1123Label dns (ref_Namespace ref)))]
             else [])
      in nameErrs @ nsErrs)"

definition validateNameOnlyRef :: "string \<Rightarrow> fpath \<Rightarrow> string \<Rightarrow> field_error list" where
  "validateNameOnlyRef ref fldPath kind =
     (if TrimSpace ref = [] then [Field_Required fldPath (kind @ '' must be a non-empty name'')]
      else if Contains ref ''/'' then
        [Field_Invalid fldPath (Bad_String ref) (Detail (kind @ '' must be a name only, not namespace/name''))]
      else [])"

definition validateSameNamespaceRef :: "string \<Rightarrow> fpath \<Rightarrow> string \<Rightarrow> field_error list" where
  "validateSameNamespaceRef ref fldPath kind =
     (if TrimSpace ref = [] then [Field_Required fldPath (kind @ '' ref is required'')]
      else if Contains ref ''/'' then
        [Field_Invalid fldPath (Bad_String ref)
           (Detail (kind @ '' ref must be a name in the same namespace, not namespace/name''))]
      else [])"

section \<open>Collection filters and targets\<close>

fun unique_errors :: "fpath \<Rightarrow> string list \<Rightarrow> nat \<Rightarrow> string list \<Rightarrow> field_error list" where
  "unique_errors path seen i [] = []"
| "unique_errors path seen i (value # values') =
     (if value = [] then
        Field_Invalid (path @ [Index i]) (Bad_String value) (Detail ''must not be empty'')
          # unique_errors path seen (Suc i) values'
      else if value \<in> set seen then
        Field_Invalid (path @ [Index i]) (Bad_String value) (Duplicate_Entry value) # unique_errors path seen (Suc i) values'
      else unique_errors path (value # seen) (Suc i) values')"

definition validateUniqueNonEmptyStringsField :: "string list \<Rightarrow> fpath \<Rightarrow> field_error list" where
  "validateUniqueNonEmptyStringsField vals path = unique_errors path [] 0 vals"

definition rule_errors :: "string + cel_env \<Rightarrow> fpath \<Rightarrow> ResourceRule \<Rightarrow> field_error list" where
  "rule_errors env rulePath rule =
     (if gvk_Version (rule_GVK rule) = [] \<or> gvk_Kind (rule_GVK rule) = []
      then [Field_Required (rulePath @ [Child ''gvk'']) ''version and kind are required''] else [])
     @ (if TrimSpace (rule_MatchPolicy rule) \<noteq> [] then
          (case ValidateMatchPolicyExpression env (rule_MatchPolicy rule) of
             None \<Rightarrow> []
           | Some err \<Rightarrow> [Field_Invalid (rulePath @ [Child ''matchPolicy'']) (Bad_String (rule_MatchPolicy rule)) (Detail err)])
        else [])"

definition ValidateCollectionFilterSpec :: "string + cel_env \<Rightarrow> CollectionFilterSpec \<Rightarrow> fpath \<Rightarrow> field_error list" where
  "ValidateCollectionFilterSpec env flt basePath =
     validateUniqueNonEmptyStringsField (IncludedNamespaces flt) (basePath @ [Child ''includedNamespaces''])
     @ validateUniqueNonEmptyStringsField (ExcludedNamespaces flt) (basePath @ [Child ''excludedNamespaces''])
     @ concat (map (\<lambda>(i, rule). rule_errors env (basePath @ [Child ''resourceRules'', Index i]) rule)
         (enumerate 0 (ResourceRules flt)))"

definition namespaceSelectorEmpty :: "LabelSelector option \<Rightarrow> bool" where
  "namespaceSelectorEmpty sel = (case sel of
     None \<Rightarrow> True
   | Some s \<Rightarrow> ls_MatchLabels s = [] \<and> ls_MatchExpressions s = [])"

definition ValidateTargetSpec :: "string + cel_env \<Rightarrow> KollectTargetSpec \<Rightarrow> field_error list" where
  "ValidateTargetSpec env spec =
     validateSameNamespaceRef (ProfileRef spec) [Child ''spec'', Child ''profileRef''] ''profileRef''
     @ ValidateCollectionFilterSpec env (t_Filter spec) [Child ''spec'']"

definition ValidateClusterTargetSpec :: "dns_checks \<Rightarrow> string + cel_env \<Rightarrow> KollectClusterTargetSpec \<Rightarrow> field_error list" where
  "ValidateClusterTargetSpec dns env spec =
     ValidateNamespacedObjectRef dns (ct_ProfileRef spec) [Child ''spec'', Child ''profileRef''] True
     @ (if namespaceSelectorEmpty (ct_NamespaceSelector spec)
        then [Field_Required [Child ''spec'', Child ''namespaceSelector'']
                (''namespaceSelector is required '' @ em_dash @ '' empty selector would collect cluster-wide'')] else [])
     @ ValidateCollectionFilterSpec env (ct_Filter spec) [Child ''spec'']"

section \<open>Export intervals\<close>

definition Hour :: duration where "Hour = 60 * Minute"

definition DefaultExportMinInterval :: duration where "DefaultExportMinInterval = 30 * Second"
definition MaxExportInterval :: duration where "MaxExportInterval = 24 * Hour"
definition ZeroIntervalWatchdog :: duration where "ZeroIntervalWatchdog = 30 * Second"
definition MaxInventorySinkRefs :: nat where "MaxInventorySinkRefs = 20"

definition ValidateDurationInterval :: "duration \<Rightarrow> fpath \<Rightarrow> field_error list" where
  "ValidateDurationInterval d path =
     (if d < 0 then [Field_Invalid path (Bad_Duration d) (Detail ''must be non-negative'')]
      else if MaxExportInterval < d then [Field_Invalid path (Bad_Duration d) Above_Max_Interval]
      else [])"

definition ValidateOptionalDurationInterval :: "duration option \<Rightarrow> fpath \<Rightarrow> field_error list" where
  "ValidateOptionalDurationInterval d path = (case d of None \<Rightarrow> [] | Some d' \<Rightarrow> ValidateDurationInterval d' path)"

definition ValidateScopeCeilingSpec :: "ScopeCeilingSpec \<Rightarrow> fpath \<Rightarrow> field_error list" where
  "ValidateScopeCeilingSpec spec basePath =
     concat (map (\<lambda>(i, gvk). if gvk_Version gvk = [] \<or> gvk_Kind gvk = []
         then [Field_Required (basePath @ [Child ''allowedGVKs'', Index i]) ''version and kind are required''] else [])
       (enumerate 0 (AllowedGVKs spec)))
     @ validateUniqueNonEmptyStringsField (sc_AllowedNamespaces spec) (basePath @ [Child ''allowedNamespaces''])
     @ validateUniqueNonEmptyStringsField (sc_DeniedNamespaces spec) (basePath @ [Child ''deniedNamespaces''])
     @ ValidateOptionalDurationInterval (MinExportInterval spec) (basePath @ [Child ''minExportInterval''])"

definition validateSinkRefMaxExportBytes :: "int \<Rightarrow> int option \<Rightarrow> fpath \<Rightarrow> field_error list" where
  "validateSinkRefMaxExportBytes capBytes maxExportBytes path = (case maxExportBytes of
     None \<Rightarrow> []
   | Some b \<Rightarrow>
       (if b \<le> 0 then [Field_Invalid path (Bad_Int b) (Detail ''must be positive when set'')]
        else if capBytes < b then [Field_Invalid path (Bad_Int b) (Above_Global_Cap capBytes)]
        else []))"

definition validateInventorySinkRefNamespace :: "dns_checks \<Rightarrow> string \<Rightarrow> fpath \<Rightarrow> bool \<Rightarrow> field_error list" where
  "validateInventorySinkRefNamespace dns namespace nsPath allowNamespace =
     (if TrimSpace namespace = [] then []
      else if \<not> allowNamespace then [Field_Forbidden nsPath
        ''namespace is not allowed on namespaced inventory sink refs; sinks resolve in the inventory's namespace'']
      else if IsDNS1123Label dns namespace \<noteq> []
      then [Field_Invalid nsPath (Bad_String namespace) (Messages (IsDNS1123Label dns namespace))]
      else [])"

fun ref_errors :: "dns_checks \<Rightarrow> int \<Rightarrow> bool \<Rightarrow> fpath \<Rightarrow> string list \<Rightarrow> nat \<Rightarrow> InventorySinkRef list \<Rightarrow> field_error list" where
  "ref_errors dns capBytes allowNamespace basePath seen i [] = []"
| "ref_errors dns capBytes allowNamespace basePath seen i (ref # refs) =
     (let refPath = basePath @ [Index i]; name = isr_Name ref in
      validateSameNamespaceRef name (refPath @ [Child ''name'']) ''sinkRef''
      @ (if name \<noteq> [] \<and> name \<in> set seen then [Field_Duplicate (refPath @ [Child ''name'']) name] else [])
      @ validateInventorySinkRefNamespace dns (isr_Namespace ref) (refPath @ [Child ''namespace'']) allowNamespace
      @ ValidateOptionalDurationInterval (isr_ExportMinInterval ref) (refPath @ [Child ''exportMinInterval''])
      @ validateSinkRefMaxExportBytes capBytes (isr_MaxExportBytes ref) (refPath @ [Child ''maxExportBytes''])
      @ ref_errors dns capBytes allowNamespace basePath (if name \<noteq> [] then name # seen else seen) (Suc i) refs)"

definition validateInventorySinkRefs :: "dns_checks \<Rightarrow> int \<Rightarrow> InventorySinkRefList \<Rightarrow> fpath \<Rightarrow> bool \<Rightarrow> field_error list" where
  "validateInventorySinkRefs dns capBytes refs basePath allowNamespace =
     (if MaxInventorySinkRefs < length refs
      then [Field_Invalid basePath (Bad_Int (int (length refs))) (At_Most_Entries MaxInventorySinkRefs)] else [])
     @ ref_errors dns capBytes allowNamespace basePath [] 0 refs"

definition ValidateInventorySinkRefs :: "dns_checks \<Rightarrow> int \<Rightarrow> InventorySinkRefList \<Rightarrow> fpath \<Rightarrow> field_error list" where
  "ValidateInventorySinkRefs dns capBytes refs basePath = validateInventorySinkRefs dns capBytes refs basePath False"

definition ValidateClusterInventorySinkRefs :: "dns_checks \<Rightarrow> int \<Rightarrow> InventorySinkRefList \<Rightarrow> fpath \<Rightarrow> field_error list" where
  "ValidateClusterInventorySinkRefs dns capBytes refs basePath = validateInventorySinkRefs dns capBytes refs basePath True"

definition InventoryDefaultInterval :: "KollectInventorySpec option \<Rightarrow> duration \<Rightarrow> duration" where
  "InventoryDefaultInterval spec fallback = (case Option.bind spec inv_ExportMinInterval of
     Some d \<Rightarrow> d
   | None \<Rightarrow> (if 0 < fallback then fallback else DefaultExportMinInterval))"

definition ClusterInventoryDefaultInterval :: "KollectClusterInventorySpec option \<Rightarrow> duration \<Rightarrow> duration" where
  "ClusterInventoryDefaultInterval spec fallback = (case Option.bind spec cinv_ExportMinInterval of
     Some d \<Rightarrow> d
   | None \<Rightarrow> (if 0 < fallback then fallback else DefaultExportMinInterval))"

definition ScopeCeilingMinExportInterval :: "ScopeCeilingSpec option \<Rightarrow> duration" where
  "ScopeCeilingMinExportInterval ceiling = (case Option.bind ceiling MinExportInterval of None \<Rightarrow> 0 | Some d \<Rightarrow> d)"

definition ScopeMinExportInterval :: "KollectScope option \<Rightarrow> duration" where
  "ScopeMinExportInterval scope = ScopeCeilingMinExportInterval (map_option (ks_Ceiling \<circ> ks_Spec) scope)"

definition ResolveSinkExportInterval :: "InventorySinkRef \<Rightarrow> duration option \<Rightarrow> duration \<Rightarrow> duration \<Rightarrow> duration" where
  "ResolveSinkExportInterval ref sinkExportMinInterval inventoryDefault scopeFloor =
     (let chosen = (case isr_ExportMinInterval ref of
                      Some d \<Rightarrow> d
                    | None \<Rightarrow> (case sinkExportMinInterval of Some d \<Rightarrow> d | None \<Rightarrow> inventoryDefault))
      in if 0 < scopeFloor \<and> (chosen = 0 \<or> chosen < scopeFloor) then scopeFloor else chosen)"

definition intervalBelowFloor :: "duration \<Rightarrow> duration \<Rightarrow> bool" where
  "intervalBelowFloor interval flr \<longleftrightarrow> interval < flr"

definition ValidateIntervalsAgainstScopeFloor ::
  "duration option \<Rightarrow> InventorySinkRefList list \<Rightarrow> duration \<Rightarrow> field_error list" where
  "ValidateIntervalsAgainstScopeFloor inventoryDefault refLists flr =
     (if flr \<le> 0 then []
      else (case inventoryDefault of
              Some d \<Rightarrow> (if intervalBelowFloor d flr
                then [Field_Invalid [Child ''spec'', Child ''exportMinInterval''] (Bad_Duration d) (Below_Floor flr)] else [])
            | None \<Rightarrow> [])
        @ concat (map (\<lambda>refs. concat (map (\<lambda>(i, ref). case isr_ExportMinInterval ref of
              None \<Rightarrow> []
            | Some d \<Rightarrow> (if intervalBelowFloor d flr
                then [Field_Invalid [Child ''spec'', Child ''sinkRefs'', Index i, Child ''exportMinInterval'']
                        (Bad_Duration d) (Below_Floor flr)] else []))
            (enumerate 0 refs))) refLists))"

definition ValidateSinkIntervalAgainstScopeFloor :: "duration option \<Rightarrow> duration \<Rightarrow> field_error list" where
  "ValidateSinkIntervalAgainstScopeFloor interval flr = (case interval of
     None \<Rightarrow> []
   | Some d \<Rightarrow> (if 0 < flr \<and> intervalBelowFloor d flr
       then [Field_Invalid [Child ''spec'', Child ''exportMinInterval''] (Bad_Duration d) (Below_Floor flr)] else []))"

definition RequeueAfterForZeroInterval :: "duration \<Rightarrow> duration" where
  "RequeueAfterForZeroInterval interval = (if 0 < interval then interval else ZeroIntervalWatchdog)"

section \<open>Inventories\<close>

definition defaultMaxExportBytesGlobal :: int where "defaultMaxExportBytesGlobal = 1572864"

definition SetMaxExportBytesGlobal :: "int \<Rightarrow> int \<Rightarrow> int" where
  "SetMaxExportBytesGlobal bytes capBytes = (if 0 < bytes then bytes else capBytes)"

definition ResolveBindingMaxExportBytes :: "int option \<Rightarrow> int \<Rightarrow> int" where
  "ResolveBindingMaxExportBytes override fallback = (case override of
     Some b \<Rightarrow> (if 0 < b then b else fallback) | None \<Rightarrow> fallback)"

definition validateInventoryFamilySinkRefs :: "dns_checks \<Rightarrow> int \<Rightarrow> KollectInventorySpec \<Rightarrow> field_error list" where
  "validateInventoryFamilySinkRefs dns capBytes spec =
     (let total = TotalInventorySinkRefCount (Some spec) in
      if MaxInventorySinkRefs < total
      then [Field_Invalid [Child ''spec''] (Bad_Int (int total)) (At_Most_Entries MaxInventorySinkRefs)]
      else ValidateInventorySinkRefs dns capBytes (inv_SnapshotSinkRefs spec) [Child ''spec'', Child ''snapshotSinkRefs'']
        @ ValidateInventorySinkRefs dns capBytes (inv_DatabaseSinkRefs spec) [Child ''spec'', Child ''databaseSinkRefs'']
        @ ValidateInventorySinkRefs dns capBytes (inv_EventSinkRefs spec) [Child ''spec'', Child ''eventSinkRefs''])"

definition ValidateInventorySpec :: "dns_checks \<Rightarrow> int \<Rightarrow> KollectInventorySpec \<Rightarrow> field_error list" where
  "ValidateInventorySpec dns capBytes spec =
     validateInventoryFamilySinkRefs dns capBytes spec
     @ ValidateOptionalDurationInterval (inv_ExportMinInterval spec) [Child ''spec'', Child ''exportMinInterval'']
     @ (case inv_MaxExportBytes spec of
          None \<Rightarrow> []
        | Some b \<Rightarrow>
            (let fld = [Child ''spec'', Child ''maxExportBytes''] in
             if b \<le> 0 then [Field_Invalid fld (Bad_Int b) (Detail ''must be positive when set'')]
             else if capBytes < b then [Field_Invalid fld (Bad_Int b) (Above_Global_Cap capBytes)]
             else []))"

fun namespace_errors :: "dns_checks \<Rightarrow> fpath \<Rightarrow> string list \<Rightarrow> nat \<Rightarrow> string list \<Rightarrow> field_error list" where
  "namespace_errors dns path seen i [] = []"
| "namespace_errors dns path seen i (ns # rest) =
     (let idxPath = path @ [Index i] in
      if TrimSpace ns = [] then
        Field_Required idxPath ''namespace name must be non-empty'' # namespace_errors dns path seen (Suc i) rest
      else if TrimSpace ns \<noteq> ns then
        Field_Invalid idxPath (Bad_String ns) (Detail ''namespace name must not contain leading/trailing whitespace'')
          # namespace_errors dns path seen (Suc i) rest
      else (if ns \<in> set seen then [Field_Duplicate idxPath ns] else [])
        @ (if IsDNS1123Label dns ns \<noteq> [] then [Field_Invalid idxPath (Bad_String ns) (Messages (IsDNS1123Label dns ns))] else [])
        @ namespace_errors dns path (if ns \<in> set seen then seen else ns # seen) (Suc i) rest)"

definition ClusterInventoryDedupeKeepAll :: string where "ClusterInventoryDedupeKeepAll = ''keepAll''"
definition ClusterInventoryDedupeByResourceUID :: string where "ClusterInventoryDedupeByResourceUID = ''byResourceUID''"

definition validateClusterInventoryFamilySinkRefs :: "dns_checks \<Rightarrow> int \<Rightarrow> KollectClusterInventorySpec \<Rightarrow> field_error list" where
  "validateClusterInventoryFamilySinkRefs dns capBytes spec =
     (let total = TotalClusterInventorySinkRefCount (Some spec) in
      if MaxInventorySinkRefs < total
      then [Field_Invalid [Child ''spec''] (Bad_Int (int total)) (At_Most_Entries MaxInventorySinkRefs)]
      else ValidateClusterInventorySinkRefs dns capBytes (cinv_SnapshotSinkRefs spec) [Child ''spec'', Child ''snapshotSinkRefs'']
        @ ValidateClusterInventorySinkRefs dns capBytes (cinv_DatabaseSinkRefs spec) [Child ''spec'', Child ''databaseSinkRefs'']
        @ ValidateClusterInventorySinkRefs dns capBytes (cinv_EventSinkRefs spec) [Child ''spec'', Child ''eventSinkRefs''])"

definition ValidateClusterInventorySpec :: "dns_checks \<Rightarrow> int \<Rightarrow> KollectClusterInventorySpec \<Rightarrow> field_error list" where
  "ValidateClusterInventorySpec dns capBytes spec =
     (case cinv_ProfileRef spec of
        None \<Rightarrow> [] | Some ref \<Rightarrow> ValidateNamespacedObjectRef dns ref [Child ''spec'', Child ''profileRef''] True)
     @ concat (map (\<lambda>(i, ref). validateNameOnlyRef ref [Child ''spec'', Child ''targetRefs'', Index i] ''targetRef'')
         (enumerate 0 (cinv_TargetRefs spec)))
     @ namespace_errors dns [Child ''spec'', Child ''namespaces''] [] 0 (cinv_Namespaces spec)
     @ (if namespaceSelectorEmpty (cinv_NamespaceSelector spec)
        then [Field_Required [Child ''spec'', Child ''namespaceSelector'']
                (''namespaceSelector is required '' @ em_dash @ '' empty selector would rollup cluster-wide'')] else [])
     @ validateClusterInventoryFamilySinkRefs dns capBytes spec
     @ (if TrimSpace (cinv_SinkNamespace spec) \<noteq> [] \<and> Contains (cinv_SinkNamespace spec) ''/''
        then [Field_Invalid [Child ''spec'', Child ''sinkNamespace''] (Bad_String (cinv_SinkNamespace spec))
                (Detail ''sinkNamespace must be a single namespace name, not namespace/name'')] else [])
     @ ValidateOptionalDurationInterval (cinv_ExportMinInterval spec) [Child ''spec'', Child ''exportMinInterval'']
     @ (if cinv_Dedupe spec \<in> {[], ClusterInventoryDedupeKeepAll, ClusterInventoryDedupeByResourceUID} then []
        else [Field_NotSupported [Child ''spec'', Child ''dedupe''] (cinv_Dedupe spec)
                [ClusterInventoryDedupeKeepAll, ClusterInventoryDedupeByResourceUID]])"

section \<open>What admission guarantees\<close>

lemma unique_errors_Nil:
  "unique_errors path seen i vals = [] \<longleftrightarrow> [] \<notin> set vals \<and> distinct vals \<and> set vals \<inter> set seen = {}"
  by (induction path seen i vals rule: unique_errors.induct) auto

lemma unique_field_Nil: "validateUniqueNonEmptyStringsField vals path = [] \<longleftrightarrow> [] \<notin> set vals \<and> distinct vals"
  by (simp add: validateUniqueNonEmptyStringsField_def unique_errors_Nil)

lemma duration_Nil: "ValidateDurationInterval d path = [] \<longleftrightarrow> 0 \<le> d \<and> d \<le> MaxExportInterval"
  by (auto simp: ValidateDurationInterval_def)

lemma optional_duration_Nil:
  "ValidateOptionalDurationInterval d path = [] \<longleftrightarrow> (\<forall>x. d = Some x \<longrightarrow> 0 \<le> x \<and> x \<le> MaxExportInterval)"
  by (auto simp: ValidateOptionalDurationInterval_def duration_Nil split: option.split)

definition ref_ok :: "int \<Rightarrow> InventorySinkRef \<Rightarrow> bool" where
  "ref_ok capBytes ref \<longleftrightarrow> TrimSpace (isr_Name ref) \<noteq> []
     \<and> (case isr_ExportMinInterval ref of None \<Rightarrow> True | Some d \<Rightarrow> 0 \<le> d \<and> d \<le> MaxExportInterval)
     \<and> (case isr_MaxExportBytes ref of None \<Rightarrow> True | Some b \<Rightarrow> 0 < b \<and> b \<le> capBytes)"

lemma ref_errors_Nil:
  "ref_errors dns capBytes allow path seen i refs = [] \<Longrightarrow>
     list_all (ref_ok capBytes) refs \<and> distinct (map isr_Name refs) \<and> set (map isr_Name refs) \<inter> set seen = {}"
proof (induction dns capBytes allow path seen i refs rule: ref_errors.induct)
  case (2 dns capBytes allow path seen i ref refs)
  let ?name = "isr_Name ref"
  have name: "TrimSpace ?name \<noteq> []" "?name \<notin> set seen"
    and iv: "ValidateOptionalDurationInterval (isr_ExportMinInterval ref) (path @ [Index i] @ [Child ''exportMinInterval'']) = []"
    and byt: "validateSinkRefMaxExportBytes capBytes (isr_MaxExportBytes ref) (path @ [Index i] @ [Child ''maxExportBytes'']) = []"
    and rest: "ref_errors dns capBytes allow path (if ?name \<noteq> [] then ?name # seen else seen) (Suc i) refs = []"
    using 2(2) by (auto simp: Let_def validateSameNamespaceRef_def split: if_splits)
  have "ref_ok capBytes ref"
    using name(1) iv byt by (auto simp: ref_ok_def optional_duration_Nil validateSinkRefMaxExportBytes_def split: option.splits if_splits)
  moreover have "?name \<noteq> []" using name(1) by auto
  ultimately show ?case using 2(1) [OF refl refl rest] name(2) by auto
qed simp

lemma family_refs_ok:
  assumes "ValidateInventorySpec dns capBytes spec = []"
  shows "TotalInventorySinkRefCount (Some spec) \<le> MaxInventorySinkRefs"
    "refs \<in> {inv_SnapshotSinkRefs spec, inv_DatabaseSinkRefs spec, inv_EventSinkRefs spec} \<Longrightarrow>
       list_all (ref_ok capBytes) refs \<and> distinct (map isr_Name refs)"
    "inv_ExportMinInterval spec = Some d \<Longrightarrow> 0 \<le> d \<and> d \<le> MaxExportInterval"
proof -
  have v: "validateInventoryFamilySinkRefs dns capBytes spec = []" using assms by (simp add: ValidateInventorySpec_def)
  then show "TotalInventorySinkRefCount (Some spec) \<le> MaxInventorySinkRefs"
    by (auto simp: validateInventoryFamilySinkRefs_def Let_def split: if_splits)
  show "list_all (ref_ok capBytes) refs \<and> distinct (map isr_Name refs)"
    if "refs \<in> {inv_SnapshotSinkRefs spec, inv_DatabaseSinkRefs spec, inv_EventSinkRefs spec}"
  proof -
    have "\<exists>path. ref_errors dns capBytes False path [] 0 refs = []"
      using that v by (auto simp: validateInventoryFamilySinkRefs_def Let_def ValidateInventorySinkRefs_def
          validateInventorySinkRefs_def split: if_splits)
    then show ?thesis using ref_errors_Nil by blast
  qed
  show "0 \<le> d \<and> d \<le> MaxExportInterval" if "inv_ExportMinInterval spec = Some d"
    using assms that by (simp add: ValidateInventorySpec_def optional_duration_Nil)
qed

lemma binding_ref:
  "b \<in> set (CollectInventorySinkBindings spec) \<Longrightarrow>
   \<exists>refs \<in> {inv_SnapshotSinkRefs spec, inv_DatabaseSinkRefs spec, inv_EventSinkRefs spec}. isb_Ref b \<in> set refs"
  by (auto simp: CollectInventorySinkBindings_def collectSinkBindings_def append_bindings_def)


text \<open>A target that passed admission fails to register only for a label selector that cannot be
  converted: kinds and match policies of its resource rules are known to compile.\<close>

theorem admitted_rules_compile:
  assumes "ValidateTargetSpec (Inr env) spec = []"
    and "CompileResourceRules am (ResourceRules (t_Filter spec)) env = Inl err"
  shows "\<exists>i msg. err = Rule_NamespaceSelector i msg \<or> err = Rule_Labels i msg"
proof -
  obtain j where j: "j < length (ResourceRules (t_Filter spec))"
      and err: "compile_rule am env j (ResourceRules (t_Filter spec) ! j) = Inl err"
    using assms(2) by (auto simp: CompileResourceRules_def compile_rules_Inl)
  let ?rule = "ResourceRules (t_Filter spec) ! j"
  have "(j, ?rule) \<in> set (enumerate 0 (ResourceRules (t_Filter spec)))" using j by (simp add: in_set_enumerate_eq)
  then have "rule_errors (Inr env) ([Child ''spec''] @ [Child ''resourceRules'', Index j]) ?rule = []"
    using assms(1) unfolding ValidateTargetSpec_def ValidateCollectionFilterSpec_def by fastforce
  then have "\<not> (gvk_Version (rule_GVK ?rule) = [] \<or> gvk_Kind (rule_GVK ?rule) = [])"
    "TrimSpace (rule_MatchPolicy ?rule) \<noteq> [] \<Longrightarrow> \<exists>prog. compileMatchPolicy env (rule_MatchPolicy ?rule) = Inr prog"
    by (auto simp: rule_errors_def ValidateMatchPolicyExpression_def split: if_splits option.splits sum.splits)
  then show ?thesis using err by (auto simp: compile_rule_def Let_def split: sum.splits if_splits)
qed

section \<open>Examples\<close>

definition example_dns :: dns_checks where
  "example_dns = \<lparr>IsDNS1123Label = (\<lambda>s. if list_all (\<lambda>c. c \<noteq> CHR ''.'' \<and> c \<noteq> CHR ''/'') s then [] else [''bad label'']),
     IsDNS1123Subdomain = (\<lambda>s. if list_all (\<lambda>c. c \<noteq> CHR ''/'') s then [] else [''bad name''])\<rparr>"

definition example_ref :: InventorySinkRef where
  "example_ref = \<lparr>isr_Name = ''lake'', isr_Namespace = [], isr_ExportMinInterval = Some (10 * Second), isr_MaxExportBytes = None\<rparr>"

definition example_inventory :: KollectInventorySpec where
  "example_inventory = \<lparr>inv_SnapshotSinkRefs = [example_ref], inv_DatabaseSinkRefs = [], inv_EventSinkRefs = [],
     inv_ExportMinInterval = None, inv_MaxExportBytes = None, inv_Suspend = False\<rparr>"

definition example_ceiling :: ScopeCeilingSpec where
  "example_ceiling = \<lparr>AllowedGVKs = [], sc_AllowedNamespaces = [], sc_DeniedNamespaces = [], MinExportInterval = Some (60 * Second)\<rparr>"


definition example_bad_selector :: ResourceRule where
  "example_bad_selector = (example_rule ''Deployment'' ''true'')\<lparr>rule_MatchExpressions :=
     [\<lparr>lsr_Key = ''tier'', lsr_Operator = ''Like'', lsr_Values = []\<rparr>]\<rparr>"

theorem admitted_rules_compile_witness:
  "\<exists>i msg. Rule_Labels 1 ''bad operator'' = Rule_NamespaceSelector i msg \<or> Rule_Labels 1 ''bad operator'' = Rule_Labels i msg"
proof (rule admitted_rules_compile)
  let ?rules = "[example_rule ''Deployment'' ''true'', example_bad_selector]"
  show "ValidateTargetSpec (Inr example_cel) (t_Spec (example_target ?rules)) = []" by code_simp
  have "CompileResourceRules example_machinery ?rules example_cel = Inl (Rule_Labels 1 ''bad operator'')"
    by (simp add: CompileResourceRules_def compile_rule_def example_rule_def selectorFromOptional_def
        resourceLabelSelector_def example_machinery_def compileMatchPolicy_def TrimSpace_example
        example_cel_def Let_def example_bad_selector_def)
  then show "CompileResourceRules example_machinery (ResourceRules (t_Filter (t_Spec (example_target ?rules)))) example_cel
      = Inl (Rule_Labels 1 ''bad operator'')"
    by (simp add: example_target_def example_filter_def)
qed

end
