(* ===== verification/Go_Regexp.thy ===== *)
theory Go_Regexp
  imports Go_Strings
begin

text \<open>
  The part of Go's \<open>regexp\<close> the sources use. A match is searched from the left, and among the
  matches at one position the one a backtracking matcher finds first is taken: \<open>match_lens\<close> lists the
  lengths of the matches at a position in that order. A pattern is split at its one capture group.
  Characters are bytes; the case folding of \<open>(?i)\<close> and the classes are the ASCII ones.
\<close>

datatype regexp =
    Empty
  | Class "char \<Rightarrow> bool"
  | Cat regexp regexp
  | Alt regexp regexp
  | Star regexp
  | Word_Boundary

definition is_word_char :: "char option \<Rightarrow> bool" where
  "is_word_char p = (case p of None \<Rightarrow> False | Some c \<Rightarrow>
     (let b = (of_char c :: nat) in 48 \<le> b \<and> b \<le> 57 \<or> 65 \<le> b \<and> b \<le> 90 \<or> 97 \<le> b \<and> b \<le> 122 \<or> b = 95))"

definition first_char :: "string \<Rightarrow> char option" where
  "first_char s = (case s of [] \<Rightarrow> None | c # _ \<Rightarrow> Some c)"

text \<open>The character before position \<open>i\<close> of \<open>s\<close>, where \<open>p\<close> is the one before \<open>s\<close>.\<close>

definition char_before :: "char option \<Rightarrow> string \<Rightarrow> nat \<Rightarrow> char option" where
  "char_before p s i = (if i = 0 then p else first_char (drop (i - 1) s))"

text \<open>A greedy repetition; every round but the last consumes a character, so the length is enough fuel.\<close>

primrec star_lens :: "(char option \<Rightarrow> string \<Rightarrow> nat list) \<Rightarrow> nat \<Rightarrow> char option \<Rightarrow> string \<Rightarrow> nat list" where
  "star_lens f 0 p s = [0]"
| "star_lens f (Suc n) p s =
     concat (map (\<lambda>i. if i = 0 then [] else map ((+) i) (star_lens f n (char_before p s i) (drop i s))) (f p s)) @ [0]"

primrec match_lens :: "regexp \<Rightarrow> char option \<Rightarrow> string \<Rightarrow> nat list" where
  "match_lens Empty p s = [0]"
| "match_lens (Class P) p s = (case s of [] \<Rightarrow> [] | c # _ \<Rightarrow> if P c then [1] else [])"
| "match_lens (Cat a b) p s =
     concat (map (\<lambda>i. map ((+) i) (match_lens b (char_before p s i) (drop i s))) (match_lens a p s))"
| "match_lens (Alt a b) p s = match_lens a p s @ match_lens b p s"
| "match_lens (Star a) p s = star_lens (match_lens a) (length s) p s"
| "match_lens Word_Boundary p s = (if is_word_char p \<noteq> is_word_char (first_char s) then [0] else [])"

definition Plus :: "regexp \<Rightarrow> regexp" where
  "Plus a = Cat a (Star a)"

primrec Cats :: "regexp list \<Rightarrow> regexp" where
  "Cats [] = Empty"
| "Cats (a # as) = Cat a (Cats as)"

fun Alts :: "regexp list \<Rightarrow> regexp" where
  "Alts [] = Class (\<lambda>_. False)"
| "Alts [a] = a"
| "Alts (a # as) = Alt a (Alts as)"

text \<open>A literal under \<open>(?i)\<close>.\<close>

definition Lit :: "string \<Rightarrow> regexp" where
  "Lit w = Cats (map (\<lambda>c. Class (\<lambda>d. lower_char d = lower_char c)) w)"

definition One_Of :: "string \<Rightarrow> regexp" where
  "One_Of cs = Class (\<lambda>c. c \<in> set cs)"

definition None_Of :: "string \<Rightarrow> regexp" where
  "None_Of cs = Class (\<lambda>c. c \<notin> set cs)"

text \<open>The class \<open>\s\<close>.\<close>

definition spaces :: string where
  "spaces = [CHR 0x09, CHR 0x0A, CHR 0x0C, CHR 0x0D, CHR '' '']"

record pattern =
  pat_before :: regexp
  pat_group :: regexp
  pat_after :: regexp

text \<open>The first match at a position: the lengths of the three parts.\<close>

definition match_at :: "pattern \<Rightarrow> char option \<Rightarrow> string \<Rightarrow> (nat \<times> nat \<times> nat) option" where
  "match_at pat p s =
     (let all = concat (map (\<lambda>i.
            concat (map (\<lambda>j. map (\<lambda>k. (i, j, k)) (match_lens (pat_after pat) (char_before p s (i + j)) (drop (i + j) s)))
              (match_lens (pat_group pat) (char_before p s i) (drop i s))))
            (match_lens (pat_before pat) p s))
      in case all of [] \<Rightarrow> None | x # _ \<Rightarrow> Some x)"

text \<open>\<open>ReplaceAllString\<close>: \<open>repl\<close> builds the replacement from the text of the group.\<close>

fun replace_matches :: "pattern \<Rightarrow> (string \<Rightarrow> string) \<Rightarrow> nat \<Rightarrow> char option \<Rightarrow> string \<Rightarrow> string" where
  "replace_matches pat repl 0 p s = s"
| "replace_matches pat repl (Suc n) p [] = []"
| "replace_matches pat repl (Suc n) p (c # s) = (case match_at pat p (c # s) of
     None \<Rightarrow> c # replace_matches pat repl n (Some c) s
   | Some (i, j, k) \<Rightarrow>
       (if i + j + k = 0 then c # replace_matches pat repl n (Some c) s
        else repl (take j (drop i (c # s)))
          @ replace_matches pat repl n (char_before p (c # s) (i + j + k)) (drop (i + j + k) (c # s))))"

definition ReplaceAllString :: "pattern \<Rightarrow> (string \<Rightarrow> string) \<Rightarrow> string \<Rightarrow> string" where
  "ReplaceAllString pat repl s = replace_matches pat repl (length s) None s"

text \<open>Matches stay inside the text, and the fuel of a replacement is never used up early.\<close>

lemma star_lens_bound: "(\<And>p s i. i \<in> set (f p s) \<Longrightarrow> i \<le> length s) \<Longrightarrow> i \<in> set (star_lens f n p s) \<Longrightarrow> i \<le> length s"
proof (induction n arbitrary: p s i)
  case (Suc n)
  show ?case
  proof (cases "i = 0")
    case False
    then obtain j k where "j \<in> set (f p s)" "i = j + k" "k \<in> set (star_lens f n (char_before p s j) (drop j s))"
      using Suc.prems(2) by (auto split: if_splits)
    then show ?thesis using Suc.IH [OF Suc.prems(1)] Suc.prems(1) by fastforce
  qed simp
qed simp

lemma match_lens_bound: "i \<in> set (match_lens r p s) \<Longrightarrow> i \<le> length s"
proof (induction r arbitrary: p s i)
  case (Cat a b)
  then obtain j k where "j \<in> set (match_lens a p s)" "i = j + k" "k \<in> set (match_lens b (char_before p s j) (drop j s))"
    by auto
  then show ?case using Cat.IH by fastforce
next
  case (Star a)
  then show ?case using star_lens_bound [of "match_lens a"] by simp
qed (auto split: list.splits if_splits)

lemma replace_fuel:
  "length s \<le> n \<Longrightarrow> replace_matches pat repl n p s = replace_matches pat repl (length s) p s"
proof (induction "length s" arbitrary: n p s rule: less_induct)
  case less
  show ?case
  proof (cases s)
    case Nil
    then show ?thesis by (cases n) simp_all
  next
    case (Cons c s')
    then obtain m where m: "n = Suc m" "length s' \<le> m" using less.prems by (cases n) auto
    have rec: "replace_matches pat repl m p' (drop k s) = replace_matches pat repl (length s') p' (drop k s)"
      if "0 < k" for p' k
    proof -
      have "length (drop k s) < length s" "length (drop k s) \<le> m" "length (drop k s) \<le> length s'" using that Cons m by auto
      then show ?thesis using less.hyps [of "drop k s" m p'] less.hyps [of "drop k s" "length s'" p'] by simp
    qed
    have "replace_matches pat repl m p' s' = replace_matches pat repl (length s') p' s'" for p'
      using less.hyps [of s' m p'] Cons m by simp
    then show ?thesis using rec by (auto simp: Cons m(1) simp del: drop.simps split: option.split)
  qed
qed

end
