(* ===== verification/Error_Classes.thy ===== *)
theory Error_Classes
  imports Go_Strings
begin

text \<open>
  The reconcile error classes, \<open>src/internal/errors/errors.go\<close>, and the aggregation of per-sink
  failures of \<open>src/internal/controller/per_sink_export.go\<close>. A Go error is a value of \<open>go_error\<close>:
  the sentinels, an error with a text only, the wrapper types of the source and \<open>errors.Join\<close>.
  \<open>err_is\<close> and \<open>as_class\<close> are \<open>errors.Is\<close> and \<open>errors.As\<close> of the standard library on these values.
  The predicates of \<open>k8s.io/apimachinery/pkg/api/errors\<close> are a parameter.
\<close>

section \<open>Errors\<close>

datatype sentinel = ErrTransient | ErrTerminal | ErrForbidden | ErrInventoryScoped | ErrSpillRequired

datatype go_error =
    Sentinel sentinel
  | Message string
  | ClassError "go_error option" go_error
  | InventoryScopedError go_error
  | Joined "go_error list"

datatype err_class = ClassTransient | ClassTerminal | ClassForbidden

record api_errors =
  IsNotFound :: "go_error \<Rightarrow> bool"
  IsInvalid :: "go_error \<Rightarrow> bool"
  IsBadRequest :: "go_error \<Rightarrow> bool"
  api_IsForbidden :: "go_error \<Rightarrow> bool"

fun sentinel_text :: "sentinel \<Rightarrow> string" where
  "sentinel_text ErrTransient = ''transient''"
| "sentinel_text ErrTerminal = ''terminal''"
| "sentinel_text ErrForbidden = ''forbidden''"
| "sentinel_text ErrInventoryScoped = ''inventory-scoped''"
| "sentinel_text ErrSpillRequired = ''export payload requires object-store spill''"

fun lines_joined :: "string list \<Rightarrow> string" where
  "lines_joined [] = []"
| "lines_joined [s] = s"
| "lines_joined (s # ss) = s @ CHR 0x0A # lines_joined ss"

text \<open>The \<open>Error\<close> methods.\<close>

fun error_text :: "go_error \<Rightarrow> string" where
  "error_text (Sentinel s) = sentinel_text s"
| "error_text (Message m) = m"
| "error_text (ClassError c e) = error_text e"
| "error_text (InventoryScopedError e) = error_text e"
| "error_text (Joined es) = lines_joined (map error_text es)"

text \<open>\<open>errors.Is\<close> with the \<open>Is\<close> methods of the wrapper types.\<close>

fun err_is :: "go_error \<Rightarrow> sentinel \<Rightarrow> bool" where
  "err_is (Sentinel s) target = (s = target)"
| "err_is (Message m) target = False"
| "err_is (ClassError None e) target = err_is e target"
| "err_is (ClassError (Some c) e) target = (err_is c target \<or> err_is e target)"
| "err_is (InventoryScopedError e) target = (target = ErrInventoryScoped \<or> err_is e target)"
| "err_is (Joined es) target = list_ex (\<lambda>e. err_is e target) es"

text \<open>\<open>errors.As\<close> for \<open>*ClassError\<close>: the class of the first one, depth first.\<close>

fun as_class :: "go_error \<Rightarrow> go_error option option" and as_class_list :: "go_error list \<Rightarrow> go_error option option" where
  "as_class (Sentinel s) = None"
| "as_class (Message m) = None"
| "as_class (ClassError c e) = Some c"
| "as_class (InventoryScopedError e) = as_class e"
| "as_class (Joined es) = as_class_list es"
| "as_class_list [] = None"
| "as_class_list (e # es) = (case as_class e of Some c \<Rightarrow> Some c | None \<Rightarrow> as_class_list es)"

section \<open>Classes\<close>

definition Transient :: "go_error option \<Rightarrow> go_error option" where
  "Transient err = map_option (ClassError (Some (Sentinel ErrTransient))) err"

definition Terminal :: "go_error option \<Rightarrow> go_error option" where
  "Terminal err = map_option (ClassError (Some (Sentinel ErrTerminal))) err"

definition Forbidden :: "go_error option \<Rightarrow> go_error option" where
  "Forbidden err = map_option (ClassError (Some (Sentinel ErrForbidden))) err"

definition ClassOf :: "api_errors \<Rightarrow> go_error \<Rightarrow> err_class" where
  "ClassOf api err = (case as_class err of
     Some (Some c) \<Rightarrow>
       (if err_is c ErrTerminal then ClassTerminal else if err_is c ErrForbidden then ClassForbidden else ClassTransient)
   | _ \<Rightarrow>
       (if IsNotFound api err \<or> IsInvalid api err \<or> IsBadRequest api err then ClassTerminal
        else if api_IsForbidden api err then ClassForbidden
        else ClassTransient))"

definition IsTransient :: "api_errors \<Rightarrow> go_error \<Rightarrow> bool" where
  "IsTransient api err \<longleftrightarrow> ClassOf api err = ClassTransient"

definition IsTerminal :: "api_errors \<Rightarrow> go_error \<Rightarrow> bool" where
  "IsTerminal api err \<longleftrightarrow> ClassOf api err = ClassTerminal"

definition IsForbidden :: "api_errors \<Rightarrow> go_error \<Rightarrow> bool" where
  "IsForbidden api err \<longleftrightarrow> ClassOf api err = ClassForbidden"

definition ClassifyAPI :: "api_errors \<Rightarrow> go_error option \<Rightarrow> go_error option" where
  "ClassifyAPI api err = (case err of
     None \<Rightarrow> None
   | Some e \<Rightarrow>
       (if IsNotFound api e \<or> IsInvalid api e \<or> IsBadRequest api e then Terminal err
        else if api_IsForbidden api e then Forbidden err
        else Transient err))"

text \<open>\<open>Format\<close> with the formatted message as its argument.\<close>

definition Format_error :: "go_error option \<Rightarrow> string \<Rightarrow> go_error" where
  "Format_error class msg = (case class of None \<Rightarrow> Message msg | Some c \<Rightarrow> ClassError class (Message msg))"

definition InventoryScoped :: "go_error option \<Rightarrow> go_error option" where
  "InventoryScoped err = (case err of None \<Rightarrow> None | Some e \<Rightarrow> Terminal (Some (InventoryScopedError e)))"

definition IsInventoryScoped :: "go_error \<Rightarrow> bool" where
  "IsInventoryScoped err \<longleftrightarrow> err_is err ErrInventoryScoped"

section \<open>Aggregation\<close>

definition aggregateExportErrs :: "api_errors \<Rightarrow> go_error list \<Rightarrow> go_error option" where
  "aggregateExportErrs api errs = (case errs of
     [] \<Rightarrow> None
   | [e] \<Rightarrow> Some e
   | _ \<Rightarrow> (if list_ex (\<lambda>e. \<not> IsTerminal api e) errs then Transient (Some (Joined errs))
          else Terminal (Some (Joined errs))))"

section \<open>Properties\<close>

lemma class_of_classified:
  "ClassOf api (ClassError (Some (Sentinel ErrTransient)) e) = ClassTransient"
  "ClassOf api (ClassError (Some (Sentinel ErrTerminal)) e) = ClassTerminal"
  "ClassOf api (ClassError (Some (Sentinel ErrForbidden)) e) = ClassForbidden"
  by (simp_all add: ClassOf_def)

lemma inventory_scoped_terminal:
  "InventoryScoped (Some e) = Some e' \<Longrightarrow> IsTerminal api e' \<and> IsInventoryScoped e' \<and> error_text e' = error_text e"
  by (auto simp: InventoryScoped_def Terminal_def IsTerminal_def IsInventoryScoped_def class_of_classified)

lemma classify_agrees: "ClassifyAPI api (Some e) = Some e' \<Longrightarrow> as_class e = None \<Longrightarrow> ClassOf api e' = ClassOf api e"
  by (auto simp: ClassifyAPI_def Terminal_def Forbidden_def Transient_def ClassOf_def split: if_splits)

text \<open>An aggregate keeps every sentinel of its parts, and stops retries only if all parts do.\<close>

lemma err_is_aggregate:
  "aggregateExportErrs api errs = Some e \<Longrightarrow> e' \<in> set errs \<Longrightarrow> err_is e' target \<Longrightarrow> err_is e target"
  by (auto simp: aggregateExportErrs_def Transient_def Terminal_def list_ex_iff split: list.splits if_splits)

lemma aggregate_terminal_iff:
  assumes "aggregateExportErrs api errs = Some e"
  shows "IsTerminal api e \<longleftrightarrow> list_all (IsTerminal api) errs"
proof -
  consider (one) x where "errs = [x]" | (more) x y zs where "errs = x # y # zs"
    using assms by (cases errs rule: remdups_adj.cases) (auto simp: aggregateExportErrs_def)
  then show ?thesis
  proof cases
    case one
    then show ?thesis using assms by (simp add: aggregateExportErrs_def)
  next
    case more
    then show ?thesis
      using assms by (auto simp: aggregateExportErrs_def Transient_def Terminal_def IsTerminal_def class_of_classified
          list_ex_iff list_all_iff split: if_splits)
  qed
qed

end
