(* ===== verification/Redact.thy ===== *)
theory Redact
  imports Go_Regexp Error_Classes
begin

text \<open>
  Redaction of error texts before they reach a status condition or an event,
  \<open>src/internal/redact/redact.go\<close>. The regular expressions are values of \<open>Go_Regexp\<close>, split at
  their capture group.
\<close>

section \<open>Patterns\<close>

definition Placeholder :: string where "Placeholder = ''***''"

definition letter :: regexp where
  "letter = Class (\<lambda>c. let b = (of_char (lower_char c) :: nat) in 97 \<le> b \<and> b \<le> 122)"

definition scheme_char :: regexp where
  "scheme_char = Class (\<lambda>c. let b = (of_char (lower_char c) :: nat) in 97 \<le> b \<and> b \<le> 122 \<or> is_digit c \<or> c \<in> set ''+.-'')"

text \<open>The group \<open>([a-z][a-z0-9+.\-]*://)\<close>.\<close>

definition scheme_group :: regexp where
  "scheme_group = Cats [letter, Star scheme_char, Lit ''://'']"

definition quotes :: string where "quotes = [CHR 0x27, CHR 0x22]"

definition urlUserinfoRE :: pattern where
  "urlUserinfoRE = \<lparr>pat_before = Word_Boundary, pat_group = scheme_group,
     pat_after = Cat (Plus (None_Of (''/'' @ spaces @ quotes))) (Lit ''@'')\<rparr>"

definition dqURLUserinfoRE :: pattern where
  "dqURLUserinfoRE = \<lparr>pat_before = One_Of [CHR 0x22], pat_group = scheme_group,
     pat_after = Cat (Star (Alt (None_Of [CHR 0x22, CHR 0x5C, CHR ''@'', CHR ''/'', CHR 0x0A])
         (Cat (One_Of [CHR 0x5C]) (None_Of [CHR 0x0A])))) (Lit ''@'')\<rparr>"

definition sqURLUserinfoRE :: pattern where
  "sqURLUserinfoRE = \<lparr>pat_before = One_Of [CHR 0x27], pat_group = scheme_group,
     pat_after = Cat (Star (None_Of [CHR 0x27, CHR ''@'', CHR ''/'', CHR 0x0A])) (Lit ''@'')\<rparr>"

definition queryCredentialRE :: pattern where
  "queryCredentialRE = \<lparr>pat_before = Empty,
     pat_group = Cats [One_Of ''?&;'', Alts (map Lit [''access_token'', ''refresh_token'', ''id_token'', ''private_token'',
       ''token'', ''password'', ''passwd'', ''pwd'', ''secret'', ''client_secret'', ''api_key'', ''apikey'', ''sig'',
       ''signature'']), Lit ''=''],
     pat_after = Plus (None_Of (''&;#'' @ spaces @ quotes))\<rparr>"

definition authHeaderRE :: pattern where
  "authHeaderRE = \<lparr>pat_before = Word_Boundary,
     pat_group = Cats [Lit ''authorization'', Star (One_Of spaces), One_Of '':='', Star (One_Of spaces),
       Alts (map Lit [''bearer'', ''basic'', ''token'', ''digest'']), Plus (One_Of spaces)],
     pat_after = Plus (None_Of (spaces @ quotes @ '',;''))\<rparr>"

definition dsnPasswordRE :: pattern where
  "dsnPasswordRE = \<lparr>pat_before = Word_Boundary,
     pat_group = Cats [Alts (map Lit [''password'', ''passwd'', ''pwd'']), Star (One_Of spaces), Lit ''='', Star (One_Of spaces)],
     pat_after = Alts [Cats [One_Of [CHR 0x27], Star (None_Of [CHR 0x27]), One_Of [CHR 0x27]],
       Cats [One_Of [CHR 0x22], Star (None_Of [CHR 0x22]), One_Of [CHR 0x22]],
       Plus (None_Of (spaces @ '';&'' @ quotes))]\<rparr>"

section \<open>Redaction\<close>

definition mask_patterns :: "string \<Rightarrow> string" where
  "mask_patterns msg =
     (let m1 = ReplaceAllString dqURLUserinfoRE (\<lambda>g. CHR 0x22 # g @ Placeholder @ ''@'') msg;
          m2 = ReplaceAllString sqURLUserinfoRE (\<lambda>g. CHR 0x27 # g @ Placeholder @ ''@'') m1;
          m3 = ReplaceAllString urlUserinfoRE (\<lambda>g. g @ Placeholder @ ''@'') m2;
          m4 = ReplaceAllString queryCredentialRE (\<lambda>g. g @ Placeholder) m3;
          m5 = ReplaceAllString authHeaderRE (\<lambda>g. g @ Placeholder) m4
      in ReplaceAllString dsnPasswordRE (\<lambda>g. g @ Placeholder) m5)"

definition mask_secret :: "string \<Rightarrow> string \<Rightarrow> string" where
  "mask_secret secret msg = (if secret = [] then msg else ReplaceAll msg secret Placeholder)"

definition Text :: "string \<Rightarrow> string list \<Rightarrow> string" where
  "Text msg secrets = fold mask_secret secrets (mask_patterns msg)"

record redactedError =
  re_msg :: string
  re_err :: go_error

definition redact_Error :: "go_error option \<Rightarrow> string list \<Rightarrow> redactedError option" where
  "redact_Error err secrets = map_option (\<lambda>e. \<lparr>re_msg = Text (error_text e) secrets, re_err = e\<rparr>) err"

section \<open>Supplied secrets\<close>

text \<open>
  What occurs after a replacement and holds no \<open>*\<close> occurred before it: the placeholder cannot be
  part of it.
\<close>

lemma HasPrefix_Cons_Cons: "HasPrefix (c # s) (d # p) \<longleftrightarrow> c = d \<and> HasPrefix s p"
  by (simp add: HasPrefix_def)

lemma HasPrefix_Nil [simp]: "HasPrefix s []"
  by (simp add: HasPrefix_def)

lemma prefix_ReplaceAll:
  "HasPrefix (ReplaceAll s old Placeholder) p \<Longrightarrow> CHR ''*'' \<notin> set p \<Longrightarrow> HasPrefix s p"
proof (induction s old Placeholder arbitrary: p rule: ReplaceAll.induct)
  case (2 c s old)
  show ?case
  proof (cases p)
    case (Cons d p')
    show ?thesis
    proof (cases "old \<noteq> [] \<and> HasPrefix (c # s) old")
      case True
      then have "HasPrefix (Placeholder @ ReplaceAll (drop (length old) (c # s)) old Placeholder) (d # p')"
        using "2.prems"(1) Cons by simp
      then have "d = CHR ''*''" by (simp add: Placeholder_def HasPrefix_Cons_Cons)
      then show ?thesis using "2.prems"(2) Cons by simp
    next
      case False
      then have "HasPrefix (c # ReplaceAll s old Placeholder) (d # p')"
        using "2.prems"(1) Cons by (simp only: ReplaceAll.simps if_False)
      then have "c = d" "HasPrefix s p'" using "2.hyps"(2) [OF False, of p'] "2.prems"(2) Cons by (simp_all add: HasPrefix_Cons_Cons)
      then show ?thesis using Cons by (simp add: HasPrefix_Cons_Cons)
    qed
  qed simp
qed simp

lemma Contains_drop: "Contains (drop n s) p \<Longrightarrow> Contains s p"
  by (auto simp: Contains_iff) (metis append.assoc append_take_drop_id)

lemma Contains_placeholder:
  assumes "p \<noteq> []" "CHR ''*'' \<notin> set p"
  shows "Contains (Placeholder @ s) p \<longleftrightarrow> Contains s p"
proof -
  have "\<not> HasPrefix (CHR ''*'' # t) p" for t using assms by (cases p) (auto simp: HasPrefix_Cons_Cons)
  then show ?thesis by (simp add: Placeholder_def)
qed

lemma Contains_ReplaceAll:
  assumes "p \<noteq> []" "CHR ''*'' \<notin> set p"
  shows "Contains (ReplaceAll s old Placeholder) p \<Longrightarrow> Contains s p"
proof (induction s old Placeholder rule: ReplaceAll.induct)
  case (2 c s old)
  show ?case
  proof (cases "old \<noteq> [] \<and> HasPrefix (c # s) old")
    case True
    then have "Contains (ReplaceAll (drop (length old) (c # s)) old Placeholder) p"
      using "2.prems" by (simp add: Contains_placeholder [OF assms])
    then show ?thesis using "2.hyps"(1) [OF True] Contains_drop by blast
  next
    case False
    have "HasPrefix (c # ReplaceAll s old Placeholder) p \<Longrightarrow> HasPrefix (c # s) p"
      using prefix_ReplaceAll [of "c # s" old p] False assms(2) by simp
    then show ?thesis using "2.prems" "2.hyps"(2) [OF False] False by auto
  qed
qed simp

lemma ReplaceAll_removes:
  assumes "p \<noteq> []" "CHR ''*'' \<notin> set p"
  shows "\<not> Contains (ReplaceAll s p Placeholder) p"
proof (induction "length s" arbitrary: s rule: less_induct)
  case less
  show ?case
  proof (cases s)
    case Nil
    then show ?thesis using assms(1) by simp
  next
    case (Cons c s')
    show ?thesis
    proof (cases "HasPrefix (c # s') p")
      case True
      have "length (drop (length p) (c # s')) < length s" using assms(1) Cons by (cases p) auto
      then have "\<not> Contains (ReplaceAll (drop (length p) (c # s')) p Placeholder) p" by (rule less.hyps)
      then show ?thesis using True assms(1) Cons by (simp add: Contains_placeholder [OF assms])
    next
      case False
      have "\<not> HasPrefix (c # ReplaceAll s' p Placeholder) p"
        using prefix_ReplaceAll [of "c # s'" p p] False assms(2) by auto
      moreover have "\<not> Contains (ReplaceAll s' p Placeholder) p" using less.hyps [of s'] Cons by simp
      ultimately show ?thesis using Cons False by simp
    qed
  qed
qed

lemma Contains_fold_secrets:
  assumes "p \<noteq> []" "CHR ''*'' \<notin> set p"
  shows "Contains (fold mask_secret secrets msg) p \<Longrightarrow> Contains msg p"
proof (induction secrets arbitrary: msg)
  case (Cons s secrets)
  then have "Contains (mask_secret s msg) p" by simp
  then show ?case using Contains_ReplaceAll [OF assms, of msg s] by (cases "s = []") (simp_all add: mask_secret_def)
qed simp

text \<open>C25. No secret value handed to \<open>redact.Text\<close> survives in the text it returns, as long as the
  value is not empty and holds no asterisk; replacing one secret never uncovers another.\<close>

theorem supplied_secrets_never_survive:
  assumes "secret \<in> set secrets" and "secret \<noteq> []" and "CHR ''*'' \<notin> set secret"
  shows "\<not> Contains (Text msg secrets) secret"
proof -
  obtain xs ys where xs: "secrets = xs @ secret # ys" using split_list [OF assms(1)] by blast
  let ?msg = "mask_secret secret (fold mask_secret xs (mask_patterns msg))"
  have "\<not> Contains ?msg secret"
    using ReplaceAll_removes [OF assms(2,3)] assms(2) by (simp only: mask_secret_def if_False not_False_eq_True)
  moreover have "Text msg secrets = fold mask_secret ys ?msg" by (simp add: Text_def xs)
  ultimately show ?thesis using Contains_fold_secrets [OF assms(2,3), of ys ?msg] by argo
qed

theorem supplied_secrets_never_survive_witness:
  "\<not> Contains (Text ''login s3cr3t failed: s3cr3ts3cr3t'' [''failed'', ''s3cr3t'']) ''s3cr3t''"
  by (rule supplied_secrets_never_survive) simp_all


section \<open>Redacting twice\<close>

text \<open>
  The package comment says that \<open>Text\<close> is idempotent. It is not: masking a password can remove the
  slash that kept a quoted URL from matching, and the second pass then masks its userinfo.
\<close>

definition dial_error :: string where
  "dial_error = [CHR 0x22] @ ''a://pwd=/ @h''"

lemma redact_not_idempotent:
  "Text dial_error [] = [CHR 0x22] @ ''a://pwd=*** @h''
   \<and> Text (Text dial_error []) [] = [CHR 0x22] @ ''a://***@h''"
proof -
  have "Text dial_error [] = [CHR 0x22] @ ''a://pwd=*** @h''" by code_simp
  moreover have "Text ([CHR 0x22] @ ''a://pwd=*** @h'') [] = [CHR 0x22] @ ''a://***@h''"
    by code_simp
  ultimately show ?thesis by simp
qed

end
