(* ===== verification/Sink_Secrets.thy ===== *)
theory Sink_Secrets
  imports Digest Go_Time
begin

text \<open>
  The Secrets a sink backend is built from: \<open>secret_refs.go\<close>, \<open>build_context.go\<close>, \<open>ca_source.go\<close>,
  \<open>credentials.go\<close> and \<open>gitauth.go\<close> of \<open>src/internal/sink\<close>. Reading a Secret from the API server is
  the argument \<open>reader\<close>, a function from references to a Secret or an error; texts built with
  \<open>fmt.Errorf\<close> are constructors with their arguments. The data of a Secret is \<open>None\<close> where Go has a
  nil map.
\<close>

section \<open>Specs and Secrets\<close>

record SecretReference =
  sr_Name :: string
  sr_Namespace :: string

record TLSSpec =
  tls_InsecureSkipVerify :: bool
  tls_CABundle :: string
  tls_CASecretRef :: "SecretReference option"

record GitAuthSpec =
  ga_Type :: string
  ga_SecretRef :: "SecretReference option"

text \<open>The fields of a sink spec that name Secrets; the specs of the backends are reduced to theirs.\<close>

record KollectSinkSpec =
  ss_Type :: string
  ss_SecretRef :: "SecretReference option"
  ss_TLS :: "TLSSpec option"
  ss_Postgres_DatabaseRef :: "SecretReference option option"
  ss_BigQuery_SecretRef :: "SecretReference option option"
  ss_MongoDB_DatabaseRef :: "SecretReference option option"
  ss_Kafka_SecretRef :: "SecretReference option option"
  ss_Nats_SecretRef :: "SecretReference option option"
  ss_Git_Auth :: "GitAuthSpec option option"

type_synonym secret_data = "(string, string) gomap option"

record Secret =
  sec_UID :: string
  sec_ResourceVersion :: string
  sec_Data :: secret_data

record secretUse =
  su_Namespace :: string
  su_Name :: string

record secretVersion =
  sv_Namespace :: string
  sv_Name :: string
  sv_UID :: string
  sv_ResourceVersion :: string

datatype get_error = Get_NotFound | Get_Failed string

type_synonym reader = "secretUse \<Rightarrow> get_error + Secret"

datatype secret_error =
    Secret_NotFound secretUse
  | Secret_Read secretUse string
  | Api_Error string
  | Secret_Empty secretUse
  | CA_Key_Missing string
  | CA_Both_Sources
  | Not_Read_For_Build secretUse

text \<open>An error of the acquire path; \<open>SecretReadError\<close> is \<open>secretReadError\<close> with its fields.\<close>

datatype read_failure =
    SecretReadError secretUse (sre_notFound: bool) (sre_empty: bool) secret_error
  | Plain secret_error

definition DefaultSecretNamespace :: string where "DefaultSecretNamespace = ''kollect-system''"

section \<open>References\<close>

definition secretRefNamespace :: "SecretReference \<Rightarrow> string \<Rightarrow> string" where
  "secretRefNamespace ref defaultNamespace = (if sr_Namespace ref \<noteq> [] then sr_Namespace ref else defaultNamespace)"

definition use_of :: "string \<Rightarrow> SecretReference \<Rightarrow> secretUse" where
  "use_of defaultNamespace ref = \<lparr>su_Namespace = secretRefNamespace ref defaultNamespace, su_Name = sr_Name ref\<rparr>"

definition kafkaSecretRef :: "KollectSinkSpec \<Rightarrow> SecretReference option" where
  "kafkaSecretRef spec =
     (if ss_Type spec \<noteq> ''kafka'' then None
      else case ss_Kafka_SecretRef spec of None \<Rightarrow> None | Some (Some ref) \<Rightarrow> Some ref | Some None \<Rightarrow> ss_SecretRef spec)"

definition natsSecretRef :: "KollectSinkSpec \<Rightarrow> SecretReference option" where
  "natsSecretRef spec =
     (if ss_Type spec \<noteq> ''nats'' then None
      else case ss_Nats_SecretRef spec of None \<Rightarrow> None | Some (Some ref) \<Rightarrow> Some ref | Some None \<Rightarrow> ss_SecretRef spec)"

definition databaseSecretRef :: "KollectSinkSpec \<Rightarrow> SecretReference option" where
  "databaseSecretRef spec =
     (if ss_Type spec = ''postgres'' then Option.bind (ss_Postgres_DatabaseRef spec) id
      else if ss_Type spec = ''bigquery'' then Option.bind (ss_BigQuery_SecretRef spec) id
      else if ss_Type spec = ''mongodb'' then Option.bind (ss_MongoDB_DatabaseRef spec) id
      else None)"

definition gitAuthSecretRef :: "KollectSinkSpec \<Rightarrow> SecretReference option" where
  "gitAuthSecretRef spec =
     (if ss_Type spec \<noteq> ''git'' then None else Option.bind (Option.bind (ss_Git_Auth spec) id) ga_SecretRef)"

definition containsSecretUse :: "secretUse list \<Rightarrow> secretUse \<Rightarrow> bool" where
  "containsSecretUse uses use = list_ex (\<lambda>u. u = use) uses"

definition tls_refs :: "KollectSinkSpec \<Rightarrow> SecretReference option list" where
  "tls_refs spec = (case ss_TLS spec of None \<Rightarrow> [] | Some tls \<Rightarrow> if tls_CABundle tls = [] then [tls_CASecretRef tls] else [])"

text \<open>The references in their fixed order; an absent pointer is \<open>None\<close>.\<close>

definition spec_refs :: "KollectSinkSpec \<Rightarrow> SecretReference option list" where
  "spec_refs spec =
     [ss_SecretRef spec]
     @ (if ss_Type spec = ''postgres'' then (case ss_Postgres_DatabaseRef spec of None \<Rightarrow> [] | Some ref \<Rightarrow> [ref])
        else if ss_Type spec = ''bigquery'' then (case ss_BigQuery_SecretRef spec of None \<Rightarrow> [] | Some ref \<Rightarrow> [ref])
        else if ss_Type spec = ''mongodb'' then (case ss_MongoDB_DatabaseRef spec of None \<Rightarrow> [] | Some ref \<Rightarrow> [ref])
        else if ss_Type spec = ''kafka'' then [kafkaSecretRef spec]
        else if ss_Type spec = ''nats'' then [natsSecretRef spec]
        else [])
     @ [gitAuthSecretRef spec]
     @ tls_refs spec"

definition add_use :: "string \<Rightarrow> SecretReference option \<Rightarrow> secretUse list \<Rightarrow> secretUse list" where
  "add_use defaultNamespace ref uses = (case ref of
     None \<Rightarrow> uses
   | Some ref \<Rightarrow>
       (if sr_Name ref = [] then uses
        else let use = use_of defaultNamespace ref in if containsSecretUse uses use then uses else uses @ [use]))"

definition effective_namespace :: "string \<Rightarrow> string" where
  "effective_namespace defaultNamespace = (if defaultNamespace = [] then DefaultSecretNamespace else defaultNamespace)"

definition referencedSecretRefs :: "KollectSinkSpec \<Rightarrow> string \<Rightarrow> secretUse list" where
  "referencedSecretRefs spec defaultNamespace =
     fold (add_use (effective_namespace defaultNamespace)) (spec_refs spec) []"

section \<open>Reading Secrets\<close>

definition SecretDataEmpty :: "secret_data \<Rightarrow> bool" where
  "SecretDataEmpty data = (case data of None \<Rightarrow> True | Some m \<Rightarrow> list_all (\<lambda>(_, v). v = []) m)"

definition getSecret :: "reader \<Rightarrow> secretUse \<Rightarrow> read_failure + Secret" where
  "getSecret c use = (case c use of
     Inl Get_NotFound \<Rightarrow> Inl (Plain (Secret_NotFound use))
   | Inl (Get_Failed err) \<Rightarrow> Inl (Plain (Api_Error err))
   | Inr secret \<Rightarrow> if SecretDataEmpty (sec_Data secret) then Inl (Plain (Secret_Empty use)) else Inr secret)"

definition getSecretObject :: "reader \<Rightarrow> secretUse \<Rightarrow> read_failure + Secret" where
  "getSecretObject reader use = (case reader use of
     Inl Get_NotFound \<Rightarrow> Inl (SecretReadError use True False (Secret_NotFound use))
   | Inl (Get_Failed err) \<Rightarrow> Inl (SecretReadError use False False (Secret_Read use err))
   | Inr obj \<Rightarrow> Inr obj)"

definition version_of :: "secretUse \<Rightarrow> Secret \<Rightarrow> secretVersion" where
  "version_of use s = \<lparr>sv_Namespace = su_Namespace use, sv_Name = su_Name use, sv_UID = sec_UID s,
     sv_ResourceVersion = sec_ResourceVersion s\<rparr>"

fun secretMeta :: "reader \<Rightarrow> secretUse list \<Rightarrow> read_failure + secretVersion list" where
  "secretMeta reader [] = Inr []"
| "secretMeta reader (use # uses) = (case getSecretObject reader use of
     Inl err \<Rightarrow> Inl err
   | Inr meta \<Rightarrow> (case secretMeta reader uses of Inl err \<Rightarrow> Inl err | Inr out \<Rightarrow> Inr (version_of use meta # out)))"

definition read_full :: "reader \<Rightarrow> secretUse \<Rightarrow> read_failure + Secret" where
  "read_full reader use = (case getSecretObject reader use of
     Inl err \<Rightarrow> Inl err
   | Inr secret \<Rightarrow>
       if SecretDataEmpty (sec_Data secret) then Inl (SecretReadError use False True (Secret_Empty use)) else Inr secret)"

fun fetch_loop :: "reader \<Rightarrow> secretUse list \<Rightarrow> (secretUse, Secret) gomap \<Rightarrow> read_failure + (secretUse, Secret) gomap" where
  "fetch_loop reader [] out = Inr out"
| "fetch_loop reader (use # uses) out = (case read_full reader use of
     Inl err \<Rightarrow> Inl err
   | Inr secret \<Rightarrow> fetch_loop reader uses (AList.update use secret out))"

definition fetchSecrets :: "reader \<Rightarrow> secretUse list \<Rightarrow> read_failure + (secretUse, Secret) gomap" where
  "fetchSecrets reader uses = fetch_loop reader uses []"

text \<open>\<open>None\<close> is the panic of a Secret that was not fetched.\<close>

fun versionsOf :: "secretUse list \<Rightarrow> (secretUse, Secret) gomap \<Rightarrow> secretVersion list option" where
  "versionsOf [] secrets = Some []"
| "versionsOf (use # uses) secrets = (case map_of secrets use of
     None \<Rightarrow> None
   | Some s \<Rightarrow> map_option ((#) (version_of use s)) (versionsOf uses secrets))"

definition isSecretGone :: "read_failure \<Rightarrow> bool" where
  "isSecretGone err = (case err of SecretReadError use gone vacant e \<Rightarrow> gone \<or> vacant | Plain e \<Rightarrow> False)"

section \<open>Keys\<close>

definition key_text :: "string \<Rightarrow> secretVersion list \<Rightarrow> string" where
  "key_text specHash versions = specHash @ concat (map (\<lambda>v. concat (map (\<lambda>part. CHR 0x00 # part)
     [sv_Namespace v, sv_Name v, sv_UID v, sv_ResourceVersion v])) versions)"

definition poolEntryKey :: "string \<Rightarrow> secretVersion list \<Rightarrow> string" where
  "poolEntryKey specHash versions = EncodeToString (Sum256 (key_text specHash versions))"

text \<open>\<open>specFingerprint\<close> of a spec with the JSON text \<open>b\<close>.\<close>

definition specFingerprint :: "string \<Rightarrow> string" where
  "specFingerprint b = EncodeToString (Sum256 b)"

definition version_use :: "secretVersion \<Rightarrow> secretUse" where
  "version_use v = \<lparr>su_Namespace = sv_Namespace v, su_Name = sv_Name v\<rparr>"

definition changedSecrets :: "secretVersion list \<Rightarrow> secretVersion list \<Rightarrow> string list" where
  "changedSecrets before after =
     (let prev = fold (\<lambda>v. AList.update (version_use v) v) before []
      in map (\<lambda>v. sv_Namespace v @ ''/'' @ sv_Name v)
           (filter (\<lambda>v. map_of prev (version_use v) \<noteq> Some v) after))"

section \<open>Build context\<close>

definition caKeys :: "string list" where
  "caKeys = [''tls.crt'', ''ca.crt'', ''ca.pem'']"

fun first_key :: "string list \<Rightarrow> secret_data \<Rightarrow> string option" where
  "first_key [] data = None"
| "first_key (k # ks) data = (case Option.bind data (\<lambda>m. map_of m k) of
     Some v \<Rightarrow> if v \<noteq> [] then Some v else first_key ks data
   | None \<Rightarrow> first_key ks data)"

definition SelectCAKey :: "string \<Rightarrow> secret_data \<Rightarrow> read_failure + string" where
  "SelectCAKey secretName data = (case first_key caKeys data of
     Some v \<Rightarrow> Inr v
   | None \<Rightarrow> Inl (Plain (CA_Key_Missing secretName)))"

definition CheckCASources :: "TLSSpec option \<Rightarrow> read_failure option" where
  "CheckCASources tlsSpec = (case tlsSpec of
     None \<Rightarrow> None
   | Some tls \<Rightarrow> if tls_CABundle tls \<noteq> [] \<and> tls_CASecretRef tls \<noteq> None then Some (Plain CA_Both_Sources) else None)"

definition caSecretUse :: "KollectSinkSpec \<Rightarrow> string \<Rightarrow> secretUse option" where
  "caSecretUse spec defaultNamespace = (case ss_TLS spec of
     None \<Rightarrow> None
   | Some tls \<Rightarrow>
       (if tls_CABundle tls \<noteq> [] then None else map_option (use_of defaultNamespace) (tls_CASecretRef tls)))"

definition checkCASecret ::
  "KollectSinkSpec \<Rightarrow> string \<Rightarrow> (secretUse \<Rightarrow> read_failure + Secret) \<Rightarrow> read_failure + (secretUse \<times> Secret) option" where
  "checkCASecret spec defaultNamespace read = (case caSecretUse spec defaultNamespace of
     None \<Rightarrow> Inr None
   | Some use \<Rightarrow>
       (if su_Name use = [] then (case SelectCAKey [] None of Inl err \<Rightarrow> Inl err | Inr _ \<Rightarrow> Inr None)
        else case read use of
          Inl err \<Rightarrow> Inl err
        | Inr secret \<Rightarrow> (case SelectCAKey (su_Name use) (sec_Data secret) of
            Inl err \<Rightarrow> Inl err
          | Inr _ \<Rightarrow> Inr (Some (use, secret)))))"

record BuildContext =
  bc_CAPEM :: string
  bc_SecretData :: secret_data
  bc_DatabaseSecretData :: secret_data

definition ref_data :: "string \<Rightarrow> (secretUse, Secret) gomap \<Rightarrow> SecretReference option \<Rightarrow> read_failure + secret_data" where
  "ref_data defaultNamespace secrets ref = (case ref of
     None \<Rightarrow> Inr None
   | Some ref \<Rightarrow>
       (if sr_Name ref = [] then Inr None
        else case map_of secrets (use_of defaultNamespace ref) of
          None \<Rightarrow> Inl (Plain (Not_Read_For_Build (use_of defaultNamespace ref)))
        | Some secret \<Rightarrow> Inr (sec_Data secret)))"

definition resolveCAPEM :: "TLSSpec option \<Rightarrow> (SecretReference option \<Rightarrow> read_failure + secret_data) \<Rightarrow> read_failure + string" where
  "resolveCAPEM tlsSpec data = (case CheckCASources tlsSpec of
     Some err \<Rightarrow> Inl err
   | None \<Rightarrow> (case tlsSpec of
       None \<Rightarrow> Inr []
     | Some tls \<Rightarrow>
         (if tls_CABundle tls \<noteq> [] then Inr (tls_CABundle tls)
          else case tls_CASecretRef tls of
            None \<Rightarrow> Inr []
          | Some ref \<Rightarrow> (case data (Some ref) of
              Inl err \<Rightarrow> Inl err
            | Inr caData \<Rightarrow> SelectCAKey (sr_Name ref) caData))))"

text \<open>The loop over the overriding references.\<close>

fun override_data ::
  "(SecretReference option \<Rightarrow> read_failure + secret_data) \<Rightarrow> SecretReference option list \<Rightarrow> secret_data \<Rightarrow> read_failure + secret_data" where
  "override_data data [] d = Inr d"
| "override_data data (None # refs) d = override_data data refs d"
| "override_data data (Some ref # refs) d = (case data (Some ref) of
     Inl err \<Rightarrow> Inl err
   | Inr d' \<Rightarrow> override_data data refs d')"

definition buildContextFromSecrets :: "KollectSinkSpec \<Rightarrow> string \<Rightarrow> (secretUse, Secret) gomap \<Rightarrow> read_failure + BuildContext" where
  "buildContextFromSecrets spec defaultNamespace secrets =
     (let data = ref_data (effective_namespace defaultNamespace) secrets in
      case resolveCAPEM (ss_TLS spec) data of
        Inl err \<Rightarrow> Inl err
      | Inr caPEM \<Rightarrow> (case data (ss_SecretRef spec) of
          Inl err \<Rightarrow> Inl err
        | Inr d1 \<Rightarrow> (case data (databaseSecretRef spec) of
            Inl err \<Rightarrow> Inl err
          | Inr d2 \<Rightarrow> (case override_data data [kafkaSecretRef spec, gitAuthSecretRef spec, natsSecretRef spec] d1 of
              Inl err \<Rightarrow> Inl err
            | Inr d3 \<Rightarrow> Inr \<lparr>bc_CAPEM = caPEM, bc_SecretData = d3, bc_DatabaseSecretData = d2\<rparr>))))"

text \<open>The reading loop of \<open>BuildContextFromSpec\<close>.\<close>

fun read_missing :: "reader \<Rightarrow> secretUse list \<Rightarrow> (secretUse, Secret) gomap \<Rightarrow> read_failure + (secretUse, Secret) gomap" where
  "read_missing c [] secrets = Inr secrets"
| "read_missing c (use # uses) secrets =
     (if map_of secrets use \<noteq> None then read_missing c uses secrets
      else case getSecret c use of
        Inl err \<Rightarrow> Inl err
      | Inr secret \<Rightarrow> read_missing c uses (AList.update use secret secrets))"

definition BuildContextFromSpec :: "reader \<Rightarrow> KollectSinkSpec \<Rightarrow> string \<Rightarrow> read_failure + BuildContext" where
  "BuildContextFromSpec c spec defaultNamespace =
     (let ns = effective_namespace defaultNamespace in
      case CheckCASources (ss_TLS spec) of
        Some err \<Rightarrow> Inl err
      | None \<Rightarrow> (case checkCASecret spec ns (getSecret c) of
          Inl err \<Rightarrow> Inl err
        | Inr ca \<Rightarrow> (case read_missing c (referencedSecretRefs spec ns)
              (case ca of None \<Rightarrow> [] | Some (caUse, caSecret) \<Rightarrow> [(caUse, caSecret)]) of
            Inl err \<Rightarrow> Inl err
          | Inr secrets \<Rightarrow> buildContextFromSecrets spec ns secrets)))"

definition caRulesFirst :: "reader \<Rightarrow> KollectSinkSpec \<Rightarrow> string \<Rightarrow> read_failure \<Rightarrow> read_failure" where
  "caRulesFirst reader spec defaultNamespace readErr = (case caSecretUse spec defaultNamespace of
     None \<Rightarrow> readErr
   | Some caUse \<Rightarrow>
       (if (case readErr of SecretReadError use _ _ _ \<Rightarrow> use = caUse | Plain _ \<Rightarrow> False) then readErr
        else case checkCASecret spec defaultNamespace (read_full reader) of
          Inl caErr \<Rightarrow> caErr
        | Inr _ \<Rightarrow> readErr))"

text \<open>
  What an acquire that misses the pool does with the Secrets: read them in full and assemble the
  context, with the metadata of the very objects that were read. A failed read comes beside the
  error that is reported for it.
\<close>

datatype rebuilt =
    Fetch_Failed read_failure read_failure
  | Versions_Panic
  | Context_Failed read_failure
  | Rebuilt "secretVersion list" BuildContext

definition rebuild_context :: "reader \<Rightarrow> KollectSinkSpec \<Rightarrow> string \<Rightarrow> secretUse list \<Rightarrow> rebuilt" where
  "rebuild_context reader spec defaultNamespace uses = (case fetchSecrets reader uses of
     Inl err \<Rightarrow> Fetch_Failed err (caRulesFirst reader spec defaultNamespace err)
   | Inr secrets \<Rightarrow> (case versionsOf uses secrets of
       None \<Rightarrow> Versions_Panic
     | Some built \<Rightarrow> (case buildContextFromSecrets spec defaultNamespace secrets of
         Inl err \<Rightarrow> Context_Failed err
       | Inr ctx \<Rightarrow> Rebuilt built ctx)))"

section \<open>Credentials\<close>

record Credentials =
  cr_Username :: string
  cr_Password :: string
  cr_Token :: string
  cr_Data :: secret_data

definition data_value :: "secret_data \<Rightarrow> string \<Rightarrow> string option" where
  "data_value data k = Option.bind data (\<lambda>m. map_of m k)"

definition no_credentials :: Credentials where
  "no_credentials = \<lparr>cr_Username = [], cr_Password = [], cr_Token = [], cr_Data = None\<rparr>"

definition ResolveSecret :: "reader \<Rightarrow> SecretReference option \<Rightarrow> string \<Rightarrow> read_failure + Credentials" where
  "ResolveSecret c ref defaultNamespace = (case ref of
     None \<Rightarrow> Inr no_credentials
   | Some ref \<Rightarrow>
       (if sr_Name ref = [] then Inr no_credentials
        else case getSecret c (use_of defaultNamespace ref) of
          Inl err \<Rightarrow> Inl err
        | Inr secret \<Rightarrow>
            (let data = sec_Data secret;
                 text = (\<lambda>k. case data_value data k of None \<Rightarrow> [] | Some v \<Rightarrow> v);
                 token = text ''token''; password = text ''password''
             in Inr \<lparr>cr_Username = text ''username'', cr_Password = password,
                  cr_Token = (if token = [] \<and> password \<noteq> [] then password else token), cr_Data = data\<rparr>)))"

datatype auth_type = AuthTypeUnset | AuthTypeToken | AuthTypeSSH

record Auth =
  au_Username :: string
  au_Password :: string
  au_Token :: string
  au_SSHPrivateKey :: string
  au_AuthType :: auth_type

definition sshPrivateKeyFromSecret :: "secret_data \<Rightarrow> string" where
  "sshPrivateKeyFromSecret data =
     (case first_key [''ssh-privatekey'', ''identity'', ''id_rsa''] data of None \<Rightarrow> [] | Some v \<Rightarrow> v)"

definition gitAuthType :: "string \<Rightarrow> auth_type" where
  "gitAuthType authType = (if authType = ''ssh'' then AuthTypeSSH else AuthTypeToken)"

definition gitAuthTypeFromSpec :: "KollectSinkSpec \<Rightarrow> string" where
  "gitAuthTypeFromSpec spec = (case Option.bind (ss_Git_Auth spec) id of None \<Rightarrow> [] | Some auth \<Rightarrow> ga_Type auth)"

definition GitAuthFromSecretData :: "secret_data \<Rightarrow> string \<Rightarrow> Auth" where
  "GitAuthFromSecretData data authType =
     (if data = None then \<lparr>au_Username = [], au_Password = [], au_Token = [], au_SSHPrivateKey = [], au_AuthType = AuthTypeUnset\<rparr>
      else let text = (\<lambda>k. case data_value data k of None \<Rightarrow> [] | Some v \<Rightarrow> v)
        in \<lparr>au_Username = text ''username'', au_Password = text ''password'', au_Token = text ''token'',
             au_SSHPrivateKey = sshPrivateKeyFromSecret data, au_AuthType = gitAuthType authType\<rparr>)"

definition GitSSHKnownHostsFromSecretData :: "secret_data \<Rightarrow> string" where
  "GitSSHKnownHostsFromSecretData data = (case data_value data ''known_hosts'' of None \<Rightarrow> [] | Some v \<Rightarrow> v)"

text \<open>A Secret that resolves always carries a value, and a password stands in for a missing token.\<close>

lemma ResolveSecret_nonempty:
  assumes "ResolveSecret c (Some ref) ns = Inr creds" "sr_Name ref \<noteq> []"
  shows "\<not> SecretDataEmpty (cr_Data creds) \<and> (cr_Password creds \<noteq> [] \<longrightarrow> cr_Token creds \<noteq> [])"
  using assms by (auto simp: ResolveSecret_def getSecret_def Let_def split: sum.splits get_error.splits if_splits)

section \<open>Keys determine what was read\<close>

abbreviation clean_part :: "string \<Rightarrow> bool" where
  "clean_part s \<equiv> CHR 0x00 \<notin> set s"

definition clean_version :: "secretVersion \<Rightarrow> bool" where
  "clean_version v \<longleftrightarrow> clean_part (sv_Namespace v) \<and> clean_part (sv_Name v) \<and> clean_part (sv_UID v) \<and> clean_part (sv_ResourceVersion v)"

lemma parts_inj:
  assumes "list_all (\<lambda>p. c \<notin> set p) ps" "list_all (\<lambda>p. c \<notin> set p) qs" "c \<notin> set p" "c \<notin> set q"
    "p @ concat (map ((#) c) ps) = q @ concat (map ((#) c) qs)"
  shows "p = q \<and> ps = qs"
  using assms
proof (induction ps arbitrary: p q qs)
  case Nil
  show ?case
  proof (cases qs)
    case (Cons b qs')
    then have "p = q @ c # b @ concat (map ((#) c) qs')" using Nil.prems by simp
    then have "c \<in> set p" by simp
    then show ?thesis using Nil.prems by simp
  qed (use Nil.prems in simp)
next
  case (Cons a ps)
  show ?case
  proof (cases qs)
    case Nil
    then have "q = p @ c # a @ concat (map ((#) c) ps)" using Cons.prems by simp
    then have "c \<in> set q" by simp
    then show ?thesis using Cons.prems by simp
  next
    case qs: (Cons b qs')
    have "p @ c # a @ concat (map ((#) c) ps) = q @ c # b @ concat (map ((#) c) qs')" using Cons.prems(5) qs by simp
    then have "p = q \<and> a @ concat (map ((#) c) ps) = b @ concat (map ((#) c) qs')"
      using cut_unique [OF Cons.prems(3,4)] by blast
    then show ?thesis using Cons.IH [of qs' a b] Cons.prems(1,2) qs by simp
  qed
qed

definition version_parts :: "secretVersion \<Rightarrow> string list" where
  "version_parts v = [sv_Namespace v, sv_Name v, sv_UID v, sv_ResourceVersion v]"

lemma key_text_parts: "key_text h vs = h @ concat (map ((#) (CHR 0x00)) (concat (map version_parts vs)))"
  by (induction vs) (simp_all add: key_text_def version_parts_def)

lemma version_parts_inj: "concat (map version_parts vs) = concat (map version_parts ws) \<Longrightarrow> vs = ws"
proof (induction vs arbitrary: ws)
  case (Cons v vs)
  then show ?case by (cases ws) (auto simp: version_parts_def)
qed (auto simp: version_parts_def)

lemma clean_version_parts: "list_all clean_version vs \<Longrightarrow> list_all clean_part (concat (map version_parts vs))"
  by (induction vs) (auto simp: clean_version_def version_parts_def)

lemma key_text_inj:
  assumes "key_text h vs = key_text h' ws" "clean_part h" "clean_part h'" "list_all clean_version vs" "list_all clean_version ws"
  shows "h = h' \<and> vs = ws"
  using parts_inj [OF clean_version_parts [OF assms(4)] clean_version_parts [OF assms(5)] assms(2,3)] assms(1)
    version_parts_inj by (simp add: key_text_parts)

section \<open>Which Secrets are read\<close>

lemma set_add_use:
  "set (add_use ns ref uses) = set uses \<union> {use. \<exists>r. ref = Some r \<and> sr_Name r \<noteq> [] \<and> use = use_of ns r}"
  by (auto simp: add_use_def containsSecretUse_def list_ex_iff Let_def split: option.split)

lemma set_fold_add_use:
  "set (fold (add_use ns) refs uses) = set uses \<union> {use. \<exists>r. Some r \<in> set refs \<and> sr_Name r \<noteq> [] \<and> use = use_of ns r}"
  by (induction refs arbitrary: uses) (auto simp: set_add_use)

lemma set_referencedSecretRefs:
  "set (referencedSecretRefs spec ns)
   = {use. \<exists>r. Some r \<in> set (spec_refs spec) \<and> sr_Name r \<noteq> [] \<and> use = use_of (effective_namespace ns) r}"
  by (simp add: referencedSecretRefs_def set_fold_add_use)

lemma effective_idem [simp]: "effective_namespace (effective_namespace ns) = effective_namespace ns"
  by (simp add: effective_namespace_def DefaultSecretNamespace_def)

lemma distinct_add_use: "distinct uses \<Longrightarrow> distinct (add_use ns ref uses)"
  by (auto simp: add_use_def containsSecretUse_def list_ex_iff Let_def split: option.split)

lemma distinct_referencedSecretRefs: "distinct (referencedSecretRefs spec ns)"
proof -
  have "distinct uses \<Longrightarrow> distinct (fold (add_use ns') refs uses)" for ns' refs uses
    by (induction refs arbitrary: uses) (simp_all add: distinct_add_use)
  then show ?thesis by (simp add: referencedSecretRefs_def)
qed

text \<open>Every reference the context is assembled from is listed.\<close>

definition build_refs :: "KollectSinkSpec \<Rightarrow> SecretReference option list" where
  "build_refs spec =
     [ss_SecretRef spec, databaseSecretRef spec, kafkaSecretRef spec, gitAuthSecretRef spec, natsSecretRef spec]
     @ tls_refs spec"

lemma spec_refs_database: "databaseSecretRef spec = None \<or> databaseSecretRef spec \<in> set (spec_refs spec)"
  by (cases "ss_Postgres_DatabaseRef spec"; cases "ss_BigQuery_SecretRef spec"; cases "ss_MongoDB_DatabaseRef spec")
    (simp_all add: databaseSecretRef_def spec_refs_def)

lemma spec_refs_events:
  "kafkaSecretRef spec = None \<or> kafkaSecretRef spec \<in> set (spec_refs spec)"
  "natsSecretRef spec = None \<or> natsSecretRef spec \<in> set (spec_refs spec)"
  by (cases "ss_Type spec = ''kafka''"; simp add: kafkaSecretRef_def spec_refs_def)
    (cases "ss_Type spec = ''nats''"; simp add: natsSecretRef_def spec_refs_def)

lemma spec_refs_others:
  "ss_SecretRef spec \<in> set (spec_refs spec)" "gitAuthSecretRef spec \<in> set (spec_refs spec)"
  "ref \<in> set (tls_refs spec) \<Longrightarrow> ref \<in> set (spec_refs spec)"
  by (simp_all add: spec_refs_def)

lemma build_refs_listed: "ref \<in> set (build_refs spec) \<Longrightarrow> ref = None \<or> ref \<in> set (spec_refs spec)"
  using spec_refs_database [of spec] spec_refs_events [of spec] spec_refs_others [where spec = spec]
  by (auto simp only: build_refs_def set_append list.set Un_iff insert_iff empty_iff)

lemma ref_data_agree:
  assumes "ref \<in> set (build_refs spec)"
    and "\<And>use. use \<in> set (referencedSecretRefs spec ns) \<Longrightarrow> map_of m use = map_of m' use"
  shows "ref_data (effective_namespace ns) m ref = ref_data (effective_namespace ns) m' ref"
proof (cases "\<exists>r. ref = Some r \<and> sr_Name r \<noteq> []")
  case True
  then obtain r where "ref = Some r" "sr_Name r \<noteq> []" by blast
  moreover from this have "use_of (effective_namespace ns) r \<in> set (referencedSecretRefs spec ns)"
    using build_refs_listed [OF assms(1)] by (auto simp: set_referencedSecretRefs)
  ultimately show ?thesis using assms(2) by (simp add: ref_data_def)
qed (auto simp: ref_data_def split: option.split)

lemma override_data_cong:
  "(\<And>ref. ref \<in> set refs \<Longrightarrow> f ref = g ref) \<Longrightarrow> override_data f refs d = override_data g refs d"
  by (induction f refs d rule: override_data.induct) (auto split: sum.split)

lemma resolveCAPEM_cong:
  "(\<And>ref. ref \<in> set (build_refs spec) \<Longrightarrow> f ref = g ref) \<Longrightarrow> resolveCAPEM (ss_TLS spec) f = resolveCAPEM (ss_TLS spec) g"
  by (auto simp: resolveCAPEM_def build_refs_def tls_refs_def split: option.splits)

lemma build_context_agree:
  assumes "\<And>use. use \<in> set (referencedSecretRefs spec ns) \<Longrightarrow> map_of m use = map_of m' use"
  shows "buildContextFromSecrets spec ns m = buildContextFromSecrets spec ns m'"
proof -
  let ?f = "ref_data (effective_namespace ns) m" and ?g = "ref_data (effective_namespace ns) m'"
  have eq: "?f ref = ?g ref" if "ref \<in> set (build_refs spec)" for ref using ref_data_agree [OF that assms] by blast
  have "override_data ?f [kafkaSecretRef spec, gitAuthSecretRef spec, natsSecretRef spec] d
      = override_data ?g [kafkaSecretRef spec, gitAuthSecretRef spec, natsSecretRef spec] d" for d
    by (rule override_data_cong) (auto intro!: eq simp: build_refs_def)
  moreover have "?f (ss_SecretRef spec) = ?g (ss_SecretRef spec)" "?f (databaseSecretRef spec) = ?g (databaseSecretRef spec)"
    by (auto intro!: eq simp: build_refs_def)
  moreover have "resolveCAPEM (ss_TLS spec) ?f = resolveCAPEM (ss_TLS spec) ?g" by (rule resolveCAPEM_cong) (rule eq)
  ultimately show ?thesis by (simp only: buildContextFromSecrets_def Let_def)
qed

section \<open>Reading loops\<close>

fun first_err :: "(secretUse \<Rightarrow> read_failure + Secret) \<Rightarrow> secretUse list \<Rightarrow> read_failure option" where
  "first_err f [] = None"
| "first_err f (u # us) = (case f u of Inl e \<Rightarrow> Some e | Inr _ \<Rightarrow> first_err f us)"

definition found :: "(secretUse \<Rightarrow> read_failure + Secret) \<Rightarrow> secretUse \<Rightarrow> Secret option" where
  "found f u = (case f u of Inl _ \<Rightarrow> None | Inr s \<Rightarrow> Some s)"

lemma first_err_None: "first_err f us = None \<longleftrightarrow> (\<forall>u \<in> set us. \<exists>s. f u = Inr s)"
  by (induction us) (auto split: sum.splits)

lemma first_err_Some: "first_err f us = Some e \<Longrightarrow> \<exists>u \<in> set us. f u = Inl e"
  by (induction us) (auto split: sum.splits)

lemma fetch_loop_err: "first_err (read_full r) us = Some e \<Longrightarrow> fetch_loop r us out = Inl e"
  by (induction us arbitrary: out) (auto split: sum.splits)

lemma fetch_loop_ok:
  "first_err (read_full r) us = None \<Longrightarrow>
   \<exists>m. fetch_loop r us out = Inr m \<and> map_of m = (\<lambda>u. if u \<in> set us then found (read_full r) u else map_of out u)"
proof (induction us arbitrary: out)
  case (Cons u us)
  then obtain s where s: "read_full r u = Inr s" "first_err (read_full r) us = None" by (auto split: sum.splits)
  show ?case using Cons.IH [OF s(2), of "AList.update u s out"] s(1) by (auto simp: found_def fun_eq_iff)
qed simp

lemma read_missing_err:
  "first_err (getSecret c) us = Some e \<Longrightarrow> (\<And>u s. map_of m u = Some s \<Longrightarrow> getSecret c u = Inr s) \<Longrightarrow> read_missing c us m = Inl e"
proof (induction us arbitrary: m)
  case (Cons u us)
  show ?case
  proof (cases "getSecret c u")
    case (Inl e')
    then show ?thesis using Cons.prems by (cases "map_of m u") auto
  next
    case (Inr s)
    have rest: "read_missing c us m' = Inl e" if "\<And>u s. map_of m' u = Some s \<Longrightarrow> getSecret c u = Inr s" for m'
      using Cons.IH [of m'] Cons.prems(1) that Inr by simp
    have "getSecret c v = Inr t" if "map_of (AList.update u s m) v = Some t" for v t
      using that Cons.prems(2) Inr by (auto split: if_splits)
    then have "read_missing c us (AList.update u s m) = Inl e" by (rule rest)
    moreover have "read_missing c us m = Inl e" using Cons.prems(2) by (rule rest)
    ultimately show ?thesis using Inr by simp
  qed
qed simp

lemma read_missing_ok:
  "first_err (getSecret c) us = None \<Longrightarrow> (\<And>u s. map_of m u = Some s \<Longrightarrow> getSecret c u = Inr s) \<Longrightarrow>
   \<exists>m'. read_missing c us m = Inr m' \<and> (\<forall>u \<in> set us. map_of m' u = found (getSecret c) u) \<and> (\<forall>u. map_of m u \<noteq> None \<longrightarrow> map_of m' u = map_of m u)"
proof (induction us arbitrary: m)
  case (Cons u us)
  then obtain s where s: "getSecret c u = Inr s" "first_err (getSecret c) us = None" by (auto split: sum.splits)
  show ?case
  proof (cases "map_of m u")
    case None
    have "\<And>u' s'. map_of (AList.update u s m) u' = Some s' \<Longrightarrow> getSecret c u' = Inr s'"
      using Cons.prems(2) s(1) by (auto split: if_splits)
    from Cons.IH [OF s(2) this] obtain m' where m': "read_missing c us (AList.update u s m) = Inr m'"
      "\<forall>u \<in> set us. map_of m' u = found (getSecret c) u"
      "\<forall>u'. map_of (AList.update u s m) u' \<noteq> None \<longrightarrow> map_of m' u' = map_of (AList.update u s m) u'" by blast
    have "map_of m' u = Some s" using m'(3) by simp
    moreover have "map_of m' v = map_of m v" if "map_of m v \<noteq> None" for v
      using m'(3) [rule_format, of v] that None by (cases "v = u") auto
    ultimately show ?thesis using m'(1,2) None s(1) by (intro exI [of _ m']) (simp add: found_def)
  next
    case (Some s')
    then have "s' = s" using Cons.prems(2) s(1) by fastforce
    moreover obtain m' where "read_missing c us m = Inr m'" "\<forall>u \<in> set us. map_of m' u = found (getSecret c) u"
      "\<forall>u. map_of m u \<noteq> None \<longrightarrow> map_of m' u = map_of m u"
      using Cons.IH [OF s(2), of m] Cons.prems(2) by blast
    ultimately show ?thesis using Some s(1) by (intro exI [of _ m']) (simp add: found_def)
  qed
qed simp

section \<open>The pooled build and the direct build\<close>

text \<open>The failure itself, without the wrappers the two paths put around a read error.\<close>

fun plain_error :: "read_failure \<Rightarrow> secret_error" where
  "plain_error (SecretReadError use a b (Secret_Read u m)) = Api_Error m"
| "plain_error (SecretReadError use a b e) = e"
| "plain_error (Plain e) = e"

abbreviation plain_result :: "read_failure + 'a \<Rightarrow> secret_error + 'a" where
  "plain_result \<equiv> map_sum plain_error id"

lemma read_full_plain: "plain_result (read_full r u) = plain_result (getSecret r u)"
  by (auto simp: read_full_def getSecretObject_def getSecret_def split: sum.split get_error.split)

lemma read_full_Inr: "read_full r u = Inr s \<longleftrightarrow> getSecret r u = Inr s"
  by (auto simp: read_full_def getSecretObject_def getSecret_def split: sum.split get_error.split)

lemma read_full_use: "read_full r u = Inl e \<Longrightarrow> \<exists>a b x. e = SecretReadError u a b x"
  by (auto simp: read_full_def getSecretObject_def split: sum.splits get_error.splits if_splits)

lemma found_read_full: "found (read_full r) = found (getSecret r)"
proof
  fix u show "found (read_full r) u = found (getSecret r) u"
    using read_full_Inr [of r u] by (auto simp: found_def split: sum.split) (metis Inr_Inl_False sum.exhaust)+
qed

lemma first_err_plain: "map_option plain_error (first_err (read_full r) us) = map_option plain_error (first_err (getSecret r) us)"
proof (induction us)
  case (Cons u us)
  then show ?case using read_full_plain [of r u] by (auto split: sum.splits)
qed simp

lemma checkCASecret_plain:
  "plain_result (checkCASecret spec ns (read_full r)) = plain_result (checkCASecret spec ns (getSecret r))"
proof (cases "caSecretUse spec ns")
  case (Some use)
  show ?thesis using read_full_plain [of r use] Some by (auto simp: checkCASecret_def split: sum.splits)
qed (simp add: checkCASecret_def)

definition outcome :: "rebuilt \<Rightarrow> (secret_error + BuildContext) option" where
  "outcome x = (case x of
     Fetch_Failed err final \<Rightarrow> Some (Inl (plain_error final))
   | Versions_Panic \<Rightarrow> None
   | Context_Failed err \<Rightarrow> Some (Inl (plain_error err))
   | Rebuilt built ctx \<Rightarrow> Some (Inr ctx))"

lemma versionsOf_some:
  "(\<And>u. u \<in> set us \<Longrightarrow> \<exists>s. map_of m u = Some s) \<Longrightarrow> \<exists>vs. versionsOf us m = Some vs"
proof (induction us)
  case (Cons u us)
  obtain s where "map_of m u = Some s" using Cons.prems by fastforce
  moreover obtain vs where "versionsOf us m = Some vs" using Cons by fastforce
  ultimately show ?case by simp
qed simp

text \<open>The use of the CA Secret is listed, unless the reference has no name.\<close>

lemma ca_use_listed:
  assumes "caSecretUse spec ns = Some use" "ns = effective_namespace d" "su_Name use \<noteq> []"
  shows "use \<in> set (referencedSecretRefs spec ns)"
proof -
  obtain tls r where tls: "ss_TLS spec = Some tls" "tls_CABundle tls = []" "tls_CASecretRef tls = Some r" "use = use_of ns r"
    using assms(1) by (auto simp: caSecretUse_def split: option.splits if_splits)
  then have "Some r \<in> set (spec_refs spec)" using spec_refs_others(3) [of "Some r" spec] by (simp add: tls_refs_def)
  moreover have "sr_Name r \<noteq> []" using assms(3) tls(4) by (simp add: use_of_def)
  ultimately show ?thesis using tls(4) assms(2) by (auto simp: set_referencedSecretRefs)
qed

lemma resolveCAPEM_ca:
  assumes "caSecretUse spec ns = Some use" "CheckCASources (ss_TLS spec) = None"
  shows "resolveCAPEM (ss_TLS spec) (ref_data ns m)
    = (if su_Name use = [] then SelectCAKey [] None
       else case map_of m use of None \<Rightarrow> Inl (Plain (Not_Read_For_Build use)) | Some s \<Rightarrow> SelectCAKey (su_Name use) (sec_Data s))"
  using assms by (auto simp: resolveCAPEM_def caSecretUse_def ref_data_def use_of_def split: option.splits if_splits)

lemma rebuild_fetch_failed:
  assumes "first_err (read_full r) us = Some e"
  shows "outcome (rebuild_context r spec ns us) = Some (Inl (plain_error (caRulesFirst r spec ns e)))"
  using fetch_loop_err [OF assms] by (simp add: rebuild_context_def fetchSecrets_def outcome_def)

lemma rebuild_fetched:
  assumes "first_err (read_full r) us = None"
  obtains m where "map_of m = (\<lambda>u. if u \<in> set us then found (read_full r) u else None)"
    and "outcome (rebuild_context r spec ns us) = Some (plain_result (buildContextFromSecrets spec ns m))"
proof -
  obtain m where m: "fetchSecrets r us = Inr m" "map_of m = (\<lambda>u. if u \<in> set us then found (read_full r) u else None)"
    using fetch_loop_ok [OF assms, of "[]"] unfolding fetchSecrets_def by (auto simp: fun_eq_iff)
  have "\<exists>s. map_of m u = Some s" if "u \<in> set us" for u
    using that assms by (auto simp: m(2) found_def first_err_None)
  then obtain vs where "versionsOf us m = Some vs" using versionsOf_some by blast
  then show thesis using m that by (auto simp: rebuild_context_def outcome_def split: sum.split)
qed

text \<open>When the CA rules fail, both paths report it.\<close>

lemma rebuild_ca_failed:
  assumes ca: "checkCASecret spec ns (getSecret r) = Inl e" and ok: "CheckCASources (ss_TLS spec) = None"
    and ns: "ns = effective_namespace d"
  shows "outcome (rebuild_context r spec ns (referencedSecretRefs spec ns)) = Some (Inl (plain_error e))"
proof -
  let ?uses = "referencedSecretRefs spec ns"
  obtain use where use: "caSecretUse spec ns = Some use" using ca by (auto simp: checkCASecret_def split: option.splits)
  show ?thesis
  proof (cases "first_err (read_full r) ?uses")
    case (Some err)
    then obtain u a b x where u: "u \<in> set ?uses" "read_full r u = Inl err" "err = SecretReadError u a b x"
      using first_err_Some read_full_use by blast
    show ?thesis
    proof (cases "u = use")
      case True
      then have "su_Name use \<noteq> []" using u(1) by (auto simp: set_referencedSecretRefs use_of_def)
      moreover have "plain_error err = plain_error e'" if "getSecret r use = Inl e'" for e'
        using read_full_plain [of r use] u(2) True that by simp
      ultimately have "plain_error err = plain_error e"
        using ca use u(2) True read_full_Inr [of r use] by (cases "getSecret r use") (auto simp: checkCASecret_def)
      then show ?thesis using rebuild_fetch_failed [OF Some] use True u(3) by (simp add: caRulesFirst_def)
    next
      case False
      obtain e' where "checkCASecret spec ns (read_full r) = Inl e'" "plain_error e' = plain_error e"
        using checkCASecret_plain [of spec ns r] ca by (cases "checkCASecret spec ns (read_full r)") auto
      then show ?thesis using rebuild_fetch_failed [OF Some] use False u(3) by (simp add: caRulesFirst_def)
    qed
  next
    case None
    then obtain m where m: "map_of m = (\<lambda>u. if u \<in> set ?uses then found (read_full r) u else None)"
      "outcome (rebuild_context r spec ns ?uses) = Some (plain_result (buildContextFromSecrets spec ns m))"
      using rebuild_fetched by blast
    have "resolveCAPEM (ss_TLS spec) (ref_data ns m) = Inl e"
    proof (cases "su_Name use = []")
      case True
      then show ?thesis using resolveCAPEM_ca [OF use ok, of m] ca use by (auto simp: checkCASecret_def split: sum.splits)
    next
      case False
      then obtain s where s: "read_full r use = Inr s" "use \<in> set ?uses"
        using None ca_use_listed [OF use ns] by (auto simp: first_err_None)
      then have "getSecret r use = Inr s" "map_of m use = Some s"
        using read_full_Inr [of r use s] by (simp_all add: m(1) found_def)
      then show ?thesis using resolveCAPEM_ca [OF use ok, of m] ca use False by (auto simp: checkCASecret_def split: sum.splits)
    qed
    then show ?thesis using m(2) ns by (simp add: buildContextFromSecrets_def)
  qed
qed

lemma rebuild_ca_passed:
  assumes ca: "checkCASecret spec ns (getSecret r) = Inr c" and ok: "CheckCASources (ss_TLS spec) = None"
    and ns: "ns = effective_namespace d"
  shows "outcome (rebuild_context r spec ns (referencedSecretRefs spec ns)) = Some (plain_result (BuildContextFromSpec r spec ns))"
proof -
  let ?uses = "referencedSecretRefs spec ns"
  let ?m0 = "case c of None \<Rightarrow> [] | Some (caUse, caSecret) \<Rightarrow> [(caUse, caSecret)]"
  have m0: "getSecret r u = Inr s" if "map_of ?m0 u = Some s" for u s
    using that ca by (auto simp: checkCASecret_def split: option.splits sum.splits if_splits)
  have eff: "effective_namespace ns = ns" using ns by simp
  have direct: "BuildContextFromSpec r spec ns
      = (case read_missing r ?uses ?m0 of Inl err \<Rightarrow> Inl err | Inr secrets \<Rightarrow> buildContextFromSecrets spec ns secrets)"
    using ok ca eff by (simp add: BuildContextFromSpec_def Let_def)
  show ?thesis
  proof (cases "first_err (read_full r) ?uses")
    case (Some err)
    then obtain err' where err': "first_err (getSecret r) ?uses = Some err'" "plain_error err = plain_error err'"
      using first_err_plain [of r ?uses] by (cases "first_err (getSecret r) ?uses") auto
    obtain c' where "checkCASecret spec ns (read_full r) = Inr c'"
      using checkCASecret_plain [of spec ns r] ca by (cases "checkCASecret spec ns (read_full r)") auto
    then have "caRulesFirst r spec ns err = err" by (simp add: caRulesFirst_def split: option.split)
    then show ?thesis using rebuild_fetch_failed [OF Some] err' direct read_missing_err [OF err'(1) m0] by simp
  next
    case None
    then have none: "first_err (getSecret r) ?uses = None" using first_err_plain [of r ?uses] by simp
    obtain m where m: "map_of m = (\<lambda>u. if u \<in> set ?uses then found (read_full r) u else None)"
      "outcome (rebuild_context r spec ns ?uses) = Some (plain_result (buildContextFromSecrets spec ns m))"
      using rebuild_fetched [OF None] by blast
    obtain m' where m': "read_missing r ?uses ?m0 = Inr m'" "\<forall>u \<in> set ?uses. map_of m' u = found (getSecret r) u"
      using read_missing_ok [OF none m0] by blast
    have "buildContextFromSecrets spec ns m = buildContextFromSecrets spec ns m'"
      by (rule build_context_agree) (simp add: m(1) m'(2) found_read_full)
    then show ?thesis using m(2) m'(1) direct by simp
  qed
qed

text \<open>C26. For the same state of the Secrets, the rebuild of the backend pool and the direct build give the
  same build context, or fail for the same reason with the same precedence: the CA rules first, then
  the first Secret of the fixed order that is missing, empty or unreadable.\<close>

theorem pooled_build_matches_direct:
  assumes "CheckCASources (ss_TLS spec) = None" and "ns = effective_namespace d"
  shows "outcome (rebuild_context reader spec ns (referencedSecretRefs spec ns))
    = Some (plain_result (BuildContextFromSpec reader spec ns))"
proof (cases "checkCASecret spec ns (getSecret reader)")
  case (Inl e)
  then show ?thesis using rebuild_ca_failed [OF Inl assms] assms by (simp add: BuildContextFromSpec_def)
next
  case (Inr c)
  then show ?thesis by (rule rebuild_ca_passed) (use assms in auto)
qed

definition example_sink :: KollectSinkSpec where
  "example_sink = \<lparr>ss_Type = ''kafka'', ss_SecretRef = Some \<lparr>sr_Name = ''creds'', sr_Namespace = []\<rparr>,
     ss_TLS = Some \<lparr>tls_InsecureSkipVerify = False, tls_CABundle = [],
       tls_CASecretRef = Some \<lparr>sr_Name = ''ca'', sr_Namespace = ''pki''\<rparr>\<rparr>,
     ss_Postgres_DatabaseRef = None, ss_BigQuery_SecretRef = None, ss_MongoDB_DatabaseRef = None,
     ss_Kafka_SecretRef = Some None, ss_Nats_SecretRef = None, ss_Git_Auth = None\<rparr>"

definition example_reader :: reader where
  "example_reader use =
     (if su_Name use = ''creds'' then Inr \<lparr>sec_UID = ''u1'', sec_ResourceVersion = ''7'', sec_Data = Some [(''password'', ''pw'')]\<rparr>
      else if su_Name use = ''ca'' then Inr \<lparr>sec_UID = ''u2'', sec_ResourceVersion = ''9'', sec_Data = Some [(''ca.crt'', ''PEM'')]\<rparr>
      else Inl Get_NotFound)"

theorem pooled_build_matches_direct_witness:
  "outcome (rebuild_context example_reader example_sink ''team'' (referencedSecretRefs example_sink ''team''))
     = Some (plain_result (BuildContextFromSpec example_reader example_sink ''team''))
   \<and> BuildContextFromSpec example_reader example_sink ''team''
     = Inr \<lparr>bc_CAPEM = ''PEM'', bc_SecretData = Some [(''password'', ''pw'')], bc_DatabaseSecretData = None\<rparr>"
proof
  show "outcome (rebuild_context example_reader example_sink ''team'' (referencedSecretRefs example_sink ''team''))
     = Some (plain_result (BuildContextFromSpec example_reader example_sink ''team''))"
    by (rule pooled_build_matches_direct [where d = "''team''"]) code_simp+
qed code_simp

end
