(* ===== verification/Backend_Pool.thy ===== *)
theory Backend_Pool
  imports Sink_Secrets Admission
begin

text \<open>
  The pool of sink backends, \<open>src/internal/sink/backend_pool.go\<close>. A pooled entry is an object of the
  list \<open>bp_objects\<close> and a pointer to it is its index, so that the pool's map and the release
  functions handed out share it; objects are never removed, only retired. A backend is a number.
  A function that runs while the pool's mutex is held, or locks and unlocks it once, is one atomic
  transformer of the pool; the backends it decides to close are part of its result, with the reason
  that is logged, since every \<open>Close\<close> runs after the unlock. A release is a value: the hold on an
  entry, or the ownership of a backend that was not pooled; its \<open>sync.Once\<close> is the fact that it is
  run at most once. Clock readings are arguments.
\<close>

section \<open>State\<close>

type_synonym poolKey = string
type_synonym backend = nat

record pooledEntry =
  pe_backend :: backend
  pe_specHash :: string
  pe_key :: string
  pe_secrets :: "secretVersion list"
  pe_lastUsed :: time
  pe_holders :: int
  pe_retired :: bool
  pe_retireReason :: string

record poolGeneration =
  pg_value :: "64 word"
  pg_changed :: time

record backend_pool =
  bp_objects :: "pooledEntry list"
  bp_entries :: "(poolKey, nat) gomap"
  bp_tombstones :: "(poolKey, time) gomap"
  bp_generations :: "(poolKey, poolGeneration) gomap"
  bp_counter :: "64 word"

type_synonym closes = "(backend \<times> string) list"

definition globalBackendPool :: backend_pool where
  "globalBackendPool = \<lparr>bp_objects = [], bp_entries = [], bp_tombstones = [], bp_generations = [], bp_counter = 0\<rparr>"

definition backendPoolTTL :: duration where "backendPoolTTL = 2 * MaxExportInterval"

definition poolKeyForSink :: "string \<Rightarrow> string \<Rightarrow> string \<Rightarrow> poolKey" where
  "poolKeyForSink sinkUID sinkNamespace sinkName =
     (if sinkUID \<noteq> [] then ''uid:'' @ sinkUID else ''ns:'' @ sinkNamespace @ ''/'' @ sinkName)"

section \<open>Generations, retiring and holding\<close>

definition bumpGenerationLocked :: "poolKey \<Rightarrow> time \<Rightarrow> backend_pool \<Rightarrow> backend_pool" where
  "bumpGenerationLocked key now p =
     (let c = bp_counter p + 1
      in p\<lparr>bp_counter := c, bp_generations := AList.update key \<lparr>pg_value = c, pg_changed = now\<rparr> (bp_generations p)\<rparr>)"

text \<open>Reading the map: a key without a generation reads as 0.\<close>

definition generation_value :: "poolKey \<Rightarrow> backend_pool \<Rightarrow> 64 word" where
  "generation_value key p = (case map_of (bp_generations p) key of None \<Rightarrow> 0 | Some g \<Rightarrow> pg_value g)"

definition generationLocked :: "poolKey \<Rightarrow> time \<Rightarrow> backend_pool \<Rightarrow> 64 word \<times> backend_pool" where
  "generationLocked key now p =
     (let p' = (if map_of (bp_generations p) key = None then bumpGenerationLocked key now p else p)
      in (generation_value key p', p'))"

definition poolGenerationOf :: "poolKey \<Rightarrow> time \<Rightarrow> backend_pool \<Rightarrow> 64 word \<times> backend_pool" where
  "poolGenerationOf key now p = generationLocked key now p"

definition retireLocked :: "poolKey \<Rightarrow> string \<Rightarrow> time \<Rightarrow> backend_pool \<Rightarrow> backend option \<times> backend_pool" where
  "retireLocked key reason now p =
     (let p1 = bumpGenerationLocked key now p in
      case map_of (bp_entries p1) key of
        None \<Rightarrow> (None, p1)
      | Some i \<Rightarrow>
          (let entry = bp_objects p1 ! i;
               p2 = p1\<lparr>bp_entries := AList.delete key (bp_entries p1),
                       bp_objects := (bp_objects p1)[i := entry\<lparr>pe_retired := True, pe_retireReason := reason\<rparr>]\<rparr>
           in (if 0 < pe_holders entry then None else Some (pe_backend entry), p2)))"

datatype release =
    Hold nat
  | Owning backend string
  | Unguarded backend string

definition holdLocked :: "nat \<Rightarrow> backend_pool \<Rightarrow> release \<times> backend_pool" where
  "holdLocked i p =
     (let entry = bp_objects p ! i
      in (Hold i, p\<lparr>bp_objects := (bp_objects p)[i := entry\<lparr>pe_holders := pe_holders entry + 1\<rparr>]\<rparr>))"

text \<open>Running a release: the body of the function that \<open>holdLocked\<close> or \<open>owningRelease\<close> returns.\<close>

definition owningRelease :: "backend \<Rightarrow> string \<Rightarrow> release" where
  "owningRelease backend reason = Owning backend reason"

fun run_release :: "release \<Rightarrow> backend_pool \<Rightarrow> closes \<times> backend_pool" where
  "run_release (Hold i) p =
     (let entry = bp_objects p ! i; entry' = entry\<lparr>pe_holders := pe_holders entry - 1\<rparr>;
          p' = p\<lparr>bp_objects := (bp_objects p)[i := entry']\<rparr>;
          drained = (pe_retired entry' \<and> pe_holders entry' = 0)
      in (if drained then [(pe_backend entry', pe_retireReason entry')] else [], p'))"
| "run_release (Owning backend reason) p = ([(backend, reason)], p)"
| "run_release (Unguarded backend reason) p = ([(backend, reason)], p)"

definition storePooledBackend ::
  "poolKey \<Rightarrow> 64 word \<Rightarrow> pooledEntry \<Rightarrow> backend_pool \<Rightarrow> backend \<times> release \<times> backend option \<times> backend_pool" where
  "storePooledBackend key generation entry p =
     (if map_of (bp_tombstones p) key \<noteq> None then
        (pe_backend entry, owningRelease (pe_backend entry) ''delete tombstone release'', None, p)
      else case map_of (bp_entries p) key of
        Some i \<Rightarrow>
          (if pe_key (bp_objects p ! i) = pe_key entry then
             (let old = (bp_objects p ! i)\<lparr>pe_lastUsed := pe_lastUsed entry\<rparr>;
                  (rel, p') = holdLocked i (p\<lparr>bp_objects := (bp_objects p)[i := old]\<rparr>)
              in (pe_backend old, rel, Some (pe_backend entry), p'))
           else (pe_backend entry, owningRelease (pe_backend entry) ''superseded build release'', None, p))
      | None \<Rightarrow>
          (if generation_value key p = generation then
             (let i = length (bp_objects p);
                  p1 = p\<lparr>bp_objects := bp_objects p @ [entry], bp_entries := AList.update key i (bp_entries p)\<rparr>;
                  (rel, p2) = holdLocked i (bumpGenerationLocked key (pe_lastUsed entry) p1)
              in (pe_backend entry, rel, None, p2))
           else (pe_backend entry, owningRelease (pe_backend entry) ''superseded build release'', None, p)))"

section \<open>Ageing\<close>

definition pruneExpiredTombstonesLocked :: "time \<Rightarrow> backend_pool \<Rightarrow> backend_pool" where
  "pruneExpiredTombstonesLocked now p =
     p\<lparr>bp_tombstones := filter (\<lambda>(k, tombstoned). \<not> backendPoolTTL < now - tombstoned) (bp_tombstones p),
       bp_generations := filter (\<lambda>(k, generation).
         \<not> (map_of (bp_entries p) k = None \<and> backendPoolTTL < now - pg_changed generation)) (bp_generations p)\<rparr>"

definition prune_entry :: "time \<Rightarrow> poolKey \<Rightarrow> backend list \<times> backend_pool \<Rightarrow> backend list \<times> backend_pool" where
  "prune_entry now k st = (case st of (stale, p) \<Rightarrow>
     (case map_of (bp_entries p) k of
        None \<Rightarrow> (stale, p)
      | Some i \<Rightarrow>
          (let entry = bp_objects p ! i in
           if pe_holders entry = 0 \<and> backendPoolTTL < now - pe_lastUsed entry then
             (case retireLocked k ''ttl expired'' now p of
                (None, p') \<Rightarrow> (stale, p')
              | (Some b, p') \<Rightarrow> (stale @ [b], p'))
           else (stale, p))))"

definition pruneStaleEntriesLocked :: "time \<Rightarrow> backend_pool \<Rightarrow> backend list \<times> backend_pool" where
  "pruneStaleEntriesLocked now p =
     (case fold (prune_entry now) (map fst (bp_entries p)) ([], p) of
        (stale, p') \<Rightarrow> (stale, pruneExpiredTombstonesLocked now p'))"

section \<open>Looking up, retiring and evicting\<close>

record poolLookup =
  pl_hit :: "backend option"
  pl_release :: "release option"
  pl_previous :: "secretVersion list option"
  pl_generation :: "64 word"
  pl_now :: time
  pl_reread :: bool
  pl_staleKey :: string

definition closes_of :: "backend option \<Rightarrow> string \<Rightarrow> closes" where
  "closes_of b reason = (case b of None \<Rightarrow> [] | Some b \<Rightarrow> [(b, reason)])"

text \<open>The switch of \<open>lookupOrRetire\<close> on the pooled entry.\<close>

definition lookup_entry ::
  "poolKey \<Rightarrow> string \<Rightarrow> string \<Rightarrow> 64 word \<Rightarrow> bool \<Rightarrow> time \<Rightarrow> nat \<Rightarrow> poolLookup \<Rightarrow> backend_pool \<Rightarrow> poolLookup \<times> closes \<times> backend_pool" where
  "lookup_entry key specHash entryKey readGeneration force now i look p =
     (let entry = bp_objects p ! i; (generation, p1) = (if force then (0, p) else generationLocked key now p) in
      if pe_key entry = entryKey then
        (let (rel, p') = holdLocked i (p\<lparr>bp_objects := (bp_objects p)[i := entry\<lparr>pe_lastUsed := now\<rparr>]\<rparr>)
         in (look\<lparr>pl_hit := Some (pe_backend entry), pl_release := Some rel\<rparr>, [], p'))
      else if \<not> force \<and> generation \<noteq> readGeneration then
        (look\<lparr>pl_reread := True, pl_staleKey := pe_key entry\<rparr>, [], p1)
      else
        (let same = (pe_specHash entry = specHash);
             reason = (if same then ''referenced secret change'' else ''spec hash change'');
             (closeNow, p') = retireLocked key reason now p1
         in (look\<lparr>pl_previous := if same then Some (pe_secrets entry) else None\<rparr>, closes_of closeNow reason, p')))"

definition lookupOrRetire ::
  "poolKey \<Rightarrow> string \<Rightarrow> string \<Rightarrow> 64 word \<Rightarrow> bool \<Rightarrow> time \<Rightarrow> backend_pool \<Rightarrow> poolLookup \<times> closes \<times> backend_pool" where
  "lookupOrRetire key specHash entryKey readGeneration force now p =
     (let look = \<lparr>pl_hit = None, pl_release = None, pl_previous = None, pl_generation = 0, pl_now = now,
            pl_reread = False, pl_staleKey = []\<rparr>;
          (stale, p1) = pruneStaleEntriesLocked now p;
          (look, closeNow, p2) = (case map_of (bp_entries p1) key of
             None \<Rightarrow> (look, [], p1)
           | Some i \<Rightarrow> lookup_entry key specHash entryKey readGeneration force now i look p1);
          (generation, p3) = generationLocked key now p2
      in (look\<lparr>pl_generation := generation\<rparr>, map (\<lambda>b. (b, ''ttl expired'')) stale @ closeNow, p3))"

definition retirePoolEntry ::
  "poolKey \<Rightarrow> 64 word \<Rightarrow> bool \<Rightarrow> string \<Rightarrow> time \<Rightarrow> backend_pool \<Rightarrow> bool \<times> string \<times> closes \<times> backend_pool" where
  "retirePoolEntry key readGeneration force reason now p =
     (let retire = (\<lambda>p. let (closeNow, p') = retireLocked key reason now p in (True, [], closes_of closeNow reason, p')) in
      case map_of (bp_entries p) key of
        None \<Rightarrow> retire p
      | Some i \<Rightarrow>
          (if force then retire p
           else let (generation, p1) = generationLocked key now p in
             if generation \<noteq> readGeneration then (False, pe_key (bp_objects p ! i), [], p1) else retire p1))"

definition retireEntryWithKey :: "poolKey \<Rightarrow> string \<Rightarrow> string \<Rightarrow> time \<Rightarrow> backend_pool \<Rightarrow> closes \<times> backend_pool" where
  "retireEntryWithKey key entryKey reason now p = (case map_of (bp_entries p) key of
     None \<Rightarrow> ([], p)
   | Some i \<Rightarrow>
       (if pe_key (bp_objects p ! i) = entryKey then
          (let (closeNow, p') = retireLocked key reason now p in (closes_of closeNow reason, p'))
        else ([], p)))"

definition evictPoolKey :: "poolKey \<Rightarrow> time \<Rightarrow> backend_pool \<Rightarrow> closes \<times> backend_pool" where
  "evictPoolKey key now p =
     (let (closeNow, p') = retireLocked key ''explicit eviction'' now p in (closes_of closeNow ''explicit eviction'', p'))"

definition evictPoolKeyForDelete :: "poolKey \<Rightarrow> time \<Rightarrow> backend_pool \<Rightarrow> closes \<times> backend_pool" where
  "evictPoolKeyForDelete key now p =
     (let (closeNow, p1) = retireLocked key ''sink delete eviction'' now p;
          p2 = p1\<lparr>bp_tombstones := AList.update key now (bp_tombstones p1)\<rparr>
      in (closes_of closeNow ''sink delete eviction'', pruneExpiredTombstonesLocked now p2))"

definition EvictBackendPool :: "bool \<Rightarrow> string \<Rightarrow> string \<Rightarrow> time \<Rightarrow> backend_pool \<Rightarrow> closes \<times> backend_pool" where
  "EvictBackendPool disabled namespace name now p =
     (if disabled then ([], p) else evictPoolKey (poolKeyForSink [] namespace name) now p)"

definition EvictBackendPoolByUID :: "bool \<Rightarrow> string \<Rightarrow> time \<Rightarrow> backend_pool \<Rightarrow> closes \<times> backend_pool" where
  "EvictBackendPoolByUID disabled uid now p =
     (if disabled \<or> uid = [] then ([], p) else evictPoolKey (poolKeyForSink uid [] []) now p)"

definition EvictBackendPoolForSink :: "bool \<Rightarrow> string \<Rightarrow> string \<Rightarrow> string \<Rightarrow> time \<Rightarrow> backend_pool \<Rightarrow> closes \<times> backend_pool" where
  "EvictBackendPoolForSink disabled sinkUID sinkNamespace sinkName now p =
     (if disabled then ([], p) else evictPoolKeyForDelete (poolKeyForSink sinkUID sinkNamespace sinkName) now p)"

definition ResetBackendPoolForTest :: "backend_pool \<Rightarrow> closes \<times> backend_pool" where
  "ResetBackendPoolForTest p =
     (map (\<lambda>(k, i). (pe_backend (bp_objects p ! i), ''pool reset'')) (bp_entries p),
      p\<lparr>bp_entries := [], bp_tombstones := [], bp_generations := []\<rparr>)"

section \<open>Reading the metadata\<close>

definition poolReadAttempts :: nat where "poolReadAttempts = 2"

text \<open>
  One attempt sees the cluster through its readers, and other goroutines change the pool before it
  and while it reads.
\<close>

record attempt_env =
  at_before :: "backend_pool \<Rightarrow> backend_pool"
  at_started :: time
  at_reader :: reader
  at_ca_reader :: reader
  at_meanwhile :: "backend_pool \<Rightarrow> backend_pool"
  at_now :: time

lemma retirePoolEntry_force: "fst (retirePoolEntry key g True reason now p)"
  by (simp add: retirePoolEntry_def Let_def split_beta split: option.split)

lemma lookup_entry_force: "pl_reread (fst (lookup_entry key h k g True now i look p)) = pl_reread look"
  by (simp add: lookup_entry_def Let_def split_beta)

lemma lookupOrRetire_force: "\<not> pl_reread (fst (lookupOrRetire key h k g True now p))"
  by (simp add: lookupOrRetire_def Let_def split_beta lookup_entry_force split: option.split)

text \<open>
  The loop of \<open>observeAndLookup\<close> from an attempt on. The result is the number of the last attempt, the
  lookup or the error, the backends to close and the pool.
\<close>

function observe_loop ::
  "(nat \<Rightarrow> attempt_env) \<Rightarrow> KollectSinkSpec \<Rightarrow> string \<Rightarrow> poolKey \<Rightarrow> string \<Rightarrow> secretUse list \<Rightarrow> nat \<Rightarrow> string \<Rightarrow> closes \<Rightarrow> backend_pool
   \<Rightarrow> nat \<times> (read_failure + poolLookup) \<times> closes \<times> backend_pool" where
  "observe_loop env spec defaultNamespace key specHash uses attempt staleKey closed p =
     (let a = env attempt;
          force = (poolReadAttempts \<le> attempt);
          gen = poolGenerationOf key (at_started a) (at_before a p);
          p2 = at_meanwhile a (snd gen)
      in case secretMeta (at_reader a) uses of
        Inl err \<Rightarrow>
          (let final = caRulesFirst (at_ca_reader a) spec defaultNamespace err in
           if isSecretGone err \<or> isSecretGone final then
             (let r = retirePoolEntry key (fst gen) force ''referenced secret missing or empty'' (at_now a) p2 in
              if \<not> fst r then
                observe_loop env spec defaultNamespace key specHash uses (Suc attempt) (fst (snd r)) closed (snd (snd (snd r)))
              else (attempt, Inl final, closed @ fst (snd (snd r)), snd (snd (snd r))))
           else if staleKey \<noteq> [] then
             (let r = retireEntryWithKey key staleKey ''referenced secret change'' (at_now a) p2
              in (attempt, Inl final, closed @ fst r, snd r))
           else (attempt, Inl final, closed, p2))
      | Inr versions \<Rightarrow>
          (let l = lookupOrRetire key specHash (poolEntryKey specHash versions) (fst gen) force (at_now a) p2 in
           if \<not> pl_reread (fst l) then (attempt, Inr (fst l), closed @ fst (snd l), snd (snd l))
           else observe_loop env spec defaultNamespace key specHash uses (Suc attempt) (pl_staleKey (fst l))
             (closed @ fst (snd l)) (snd (snd l))))"
  by pat_completeness auto
termination
proof (relation "measure (\<lambda>(env, spec, ns, key, h, uses, attempt, rest). poolReadAttempts - attempt)", goal_cases)
  case 1
  show ?case by simp
next
  case (2 env spec ns key h uses attempt stale closed p)
  then have "\<not> poolReadAttempts \<le> attempt" using retirePoolEntry_force by metis
  then show ?case by simp
next
  case (3 env spec ns key h uses attempt stale closed p)
  then have "\<not> poolReadAttempts \<le> attempt" using lookupOrRetire_force by metis
  then show ?case by simp
qed

declare observe_loop.simps [simp del]

definition observeAndLookup ::
  "(nat \<Rightarrow> attempt_env) \<Rightarrow> KollectSinkSpec \<Rightarrow> string \<Rightarrow> poolKey \<Rightarrow> string \<Rightarrow> secretUse list \<Rightarrow> backend_pool
   \<Rightarrow> nat \<times> (read_failure + poolLookup) \<times> closes \<times> backend_pool" where
  "observeAndLookup env spec defaultNamespace key specHash uses p =
     observe_loop env spec defaultNamespace key specHash uses 1 [] [] p"

section \<open>Acquiring\<close>

text \<open>
  The rest of the environment of one acquire: the client that the path without a pool reads through,
  the reader of the full read (the Secret reader, or the client where there is none), what other
  goroutines do to the pool between the lookup and the store, the clock when a missing Secret retires
  the entry, the JSON text of the spec, and the registry's constructor.
\<close>

record acquire_env =
  ae_client :: reader
  ae_attempts :: "nat \<Rightarrow> attempt_env"
  ae_reader :: reader
  ae_ca_reader :: reader
  ae_meanwhile :: "backend_pool \<Rightarrow> backend_pool"
  ae_now :: time
  ae_spec_json :: string
  ae_NewBackend :: "KollectSinkSpec \<Rightarrow> BuildContext \<Rightarrow> string + backend"

datatype acquire_error = No_Registry | Secret_Failure read_failure | Build_Failure string | Acquire_Panic

text \<open>The part after a miss, from the full read on; \<open>c\<close> collects what is closed on the way.\<close>

definition acquire_miss ::
  "acquire_env \<Rightarrow> KollectSinkSpec \<Rightarrow> string \<Rightarrow> poolKey \<Rightarrow> string \<Rightarrow> secretUse list \<Rightarrow> poolLookup \<Rightarrow> closes \<Rightarrow> backend_pool
   \<Rightarrow> (acquire_error + backend \<times> release) \<times> closes \<times> backend_pool" where
  "acquire_miss env spec defaultNamespace key specHash uses look c p =
     (case fetchSecrets (ae_reader env) uses of
        Inl err \<Rightarrow>
          (let final = caRulesFirst (ae_ca_reader env) spec defaultNamespace err in
           if isSecretGone err \<or> isSecretGone final then
             (let r = retirePoolEntry key 0 True ''referenced secret missing or empty'' (ae_now env) p
              in (Inl (Secret_Failure final), c @ fst (snd (snd r)), snd (snd (snd r))))
           else (Inl (Secret_Failure final), c, p))
      | Inr secrets \<Rightarrow> (case versionsOf uses secrets of
          None \<Rightarrow> (Inl Acquire_Panic, c, p)
        | Some built \<Rightarrow> (case buildContextFromSecrets spec defaultNamespace secrets of
            Inl err \<Rightarrow> (Inl (Secret_Failure err), c, p)
          | Inr buildCtx \<Rightarrow> (case ae_NewBackend env spec buildCtx of
              Inl err \<Rightarrow> (Inl (Build_Failure err), c, p)
            | Inr backend \<Rightarrow>
                (let (stored, rel, discard, p') = storePooledBackend key (pl_generation look)
                       \<lparr>pe_backend = backend, pe_specHash = specHash, pe_key = poolEntryKey specHash built, pe_secrets = built,
                        pe_lastUsed = pl_now look, pe_holders = 0, pe_retired = False, pe_retireReason = []\<rparr> p
                 in (Inr (stored, rel), c @ closes_of discard ''duplicate pool backend'', p'))))))"

definition acquireBackendWithReader ::
  "acquire_env \<Rightarrow> bool \<Rightarrow> bool \<Rightarrow> string \<Rightarrow> string \<Rightarrow> string \<Rightarrow> KollectSinkSpec \<Rightarrow> backend_pool
   \<Rightarrow> (acquire_error + backend \<times> release) \<times> closes \<times> backend_pool" where
  "acquireBackendWithReader env reg_nil disabled sinkNamespace sinkName sinkUID spec p =
     (if reg_nil then (Inl No_Registry, [], p)
      else let specHash = specFingerprint (ae_spec_json env) in
      if disabled then
        (case BuildContextFromSpec (ae_client env) spec sinkNamespace of
           Inl err \<Rightarrow> (Inl (Secret_Failure err), [], p)
         | Inr buildCtx \<Rightarrow> (case ae_NewBackend env spec buildCtx of
             Inl err \<Rightarrow> (Inl (Build_Failure err), [], p)
           | Inr backend \<Rightarrow> (Inr (backend, Unguarded backend ''pool disabled release''), [], p)))
      else let defaultNamespace = effective_namespace sinkNamespace in
      case CheckCASources (ss_TLS spec) of
        Some caErr \<Rightarrow> (Inl (Secret_Failure caErr), [], p)
      | None \<Rightarrow>
          (let key = poolKeyForSink sinkUID sinkNamespace sinkName;
               uses = referencedSecretRefs spec defaultNamespace;
               (reads, looked, closed, p1) = observeAndLookup (ae_attempts env) spec defaultNamespace key specHash uses p
           in case looked of
             Inl err \<Rightarrow> (Inl (Secret_Failure err), closed, p1)
           | Inr look \<Rightarrow> (case (pl_hit look, pl_release look) of
               (Some backend, Some rel) \<Rightarrow> (Inr (backend, rel), closed, p1)
             | _ \<Rightarrow> acquire_miss env spec defaultNamespace key specHash uses look closed (ae_meanwhile env p1))))"

definition acquireBackend ::
  "acquire_env \<Rightarrow> bool \<Rightarrow> bool \<Rightarrow> string \<Rightarrow> string \<Rightarrow> string \<Rightarrow> KollectSinkSpec \<Rightarrow> backend_pool
   \<Rightarrow> (acquire_error + backend \<times> release) \<times> closes \<times> backend_pool" where
  "acquireBackend env reg_nil disabled sinkNamespace sinkName sinkUID spec p =
     acquireBackendWithReader env reg_nil disabled sinkNamespace sinkName sinkUID spec p"

section \<open>An acquire reads at most twice\<close>

lemma observe_loop_last:
  assumes "poolReadAttempts \<le> attempt"
  shows "fst (observe_loop env spec ns key h uses attempt stale closed p) = attempt"
  by (subst observe_loop.simps)
    (simp add: Let_def assms retirePoolEntry_force lookupOrRetire_force split: sum.split)

lemma observe_loop_first:
  assumes "Suc attempt = poolReadAttempts"
  shows "fst (observe_loop env spec ns key h uses attempt stale closed p) \<in> {attempt, Suc attempt}"
proof -
  have "fst (observe_loop env spec ns key h uses (Suc attempt) stale' closed' p') = Suc attempt" for stale' closed' p'
    using observe_loop_last assms by simp
  then show ?thesis by (subst observe_loop.simps) (simp add: Let_def split: sum.split)
qed

text \<open>C28. Whatever other goroutines do to the pool and whatever the reads return, an acquire reads the
  Secrets' metadata once or twice: its loop, which has no bound of its own, always ends, since the
  second attempt forces a decision.\<close>

theorem acquire_reads_at_most_twice:
  "fst (observeAndLookup env spec defaultNamespace key specHash uses p) \<in> {1, 2}"
  using observe_loop_first [of 1] by (simp add: observeAndLookup_def poolReadAttempts_def numeral_2_eq_2)

section \<open>The store fence\<close>

text \<open>
  Between two states of the pool, with at most \<open>n\<close> steps of the counter: the counter did not wrap, and
  a generation is unchanged or newer than the counter was.
\<close>

definition gens_grow :: "nat \<Rightarrow> backend_pool \<Rightarrow> backend_pool \<Rightarrow> bool" where
  "gens_grow n p p' \<longleftrightarrow>
     unat (bp_counter p) \<le> unat (bp_counter p') \<and> unat (bp_counter p') \<le> unat (bp_counter p) + n
     \<and> (\<forall>k g. map_of (bp_generations p') k = Some g \<longrightarrow>
          map_of (bp_generations p) k = Some g
          \<or> unat (bp_counter p) < unat (pg_value g) \<and> unat (pg_value g) \<le> unat (bp_counter p'))"

lemma gens_grow_refl: "gens_grow n p p"
  by (simp add: gens_grow_def)

lemma gens_grow_same:
  "bp_counter p' = bp_counter p \<Longrightarrow> bp_generations p' = bp_generations p \<Longrightarrow> gens_grow n p p'"
  by (simp add: gens_grow_def)

lemma gens_grow_trans: "gens_grow n p q \<Longrightarrow> gens_grow m q r \<Longrightarrow> gens_grow (n + m) p r"
  unfolding gens_grow_def by (fastforce dest: le_trans)

lemma gens_grow_mono: "gens_grow n p q \<Longrightarrow> n \<le> m \<Longrightarrow> gens_grow m p q"
  unfolding gens_grow_def by fastforce

lemma counter_Suc: "unat (bp_counter p) + 1 < 2 ^ 64 \<Longrightarrow> unat (bp_counter p + 1) = unat (bp_counter p) + 1"
  by (simp add: unat_word_ariths)

lemma gens_grow_bump: "unat (bp_counter p) + 1 < 2 ^ 64 \<Longrightarrow> gens_grow 1 p (bumpGenerationLocked k now p)"
  using counter_Suc [of p] by (auto simp: gens_grow_def bumpGenerationLocked_def Let_def split: if_splits)

lemma bump_frame [simp]:
  "bp_objects (bumpGenerationLocked k now p) = bp_objects p" "bp_entries (bumpGenerationLocked k now p) = bp_entries p"
  "bp_tombstones (bumpGenerationLocked k now p) = bp_tombstones p"
  by (simp_all add: bumpGenerationLocked_def Let_def)

lemma generationLocked_frame [simp]:
  "bp_objects (snd (generationLocked k now p)) = bp_objects p" "bp_entries (snd (generationLocked k now p)) = bp_entries p"
  "bp_tombstones (snd (generationLocked k now p)) = bp_tombstones p"
  by (simp_all add: generationLocked_def Let_def)

lemma gens_grow_generation: "unat (bp_counter p) + 1 < 2 ^ 64 \<Longrightarrow> gens_grow 1 p (snd (generationLocked k now p))"
  using gens_grow_bump [of p k now] gens_grow_refl by (simp add: generationLocked_def Let_def)

lemma retireLocked_gens:
  "bp_generations (snd (retireLocked k reason now p)) = bp_generations (bumpGenerationLocked k now p)"
  "bp_counter (snd (retireLocked k reason now p)) = bp_counter (bumpGenerationLocked k now p)"
  by (simp_all add: retireLocked_def Let_def split: option.split)

lemma gens_grow_retire: "unat (bp_counter p) + 1 < 2 ^ 64 \<Longrightarrow> gens_grow 1 p (snd (retireLocked k reason now p))"
  using gens_grow_bump [of p k now] by (simp add: gens_grow_def retireLocked_gens)

lemma holdLocked_gens [simp]:
  "bp_generations (snd (holdLocked i p)) = bp_generations p" "bp_counter (snd (holdLocked i p)) = bp_counter p"
  "bp_entries (snd (holdLocked i p)) = bp_entries p" "bp_tombstones (snd (holdLocked i p)) = bp_tombstones p"
  by (simp_all add: holdLocked_def Let_def)

lemma run_release_gens [simp]:
  "bp_generations (snd (run_release r p)) = bp_generations p" "bp_counter (snd (run_release r p)) = bp_counter p"
  "bp_entries (snd (run_release r p)) = bp_entries p" "bp_tombstones (snd (run_release r p)) = bp_tombstones p"
  by (cases r; simp add: Let_def)+

lemma gens_grow_expire: "wf_map (bp_generations p) \<Longrightarrow> gens_grow 0 p (pruneExpiredTombstonesLocked now p)"
  by (auto simp: gens_grow_def pruneExpiredTombstonesLocked_def map_of_filter_wf split: option.splits if_splits)

text \<open>Entries never point at different objects after a step of pruning, and only lose keys.\<close>

lemma retireLocked_entries: "bp_entries (snd (retireLocked k reason now p)) = AList.delete k (bp_entries p)"
  by (auto simp: retireLocked_def Let_def split: option.split) (metis AList.delete_keys map_of_eq_None_iff AList.delete_id)

lemma retireLocked_tombstones [simp]: "bp_tombstones (snd (retireLocked k reason now p)) = bp_tombstones p"
  by (simp add: retireLocked_def Let_def split: option.split)

text \<open>Well-formed maps, and generations between 1 and the counter.\<close>

definition wf_pool :: "backend_pool \<Rightarrow> bool" where
  "wf_pool p \<longleftrightarrow> wf_map (bp_generations p)
     \<and> (\<forall>k g. map_of (bp_generations p) k = Some g \<longrightarrow> 0 < unat (pg_value g) \<and> unat (pg_value g) \<le> unat (bp_counter p))"

lemma wf_pool_grow: "wf_pool p \<Longrightarrow> gens_grow n p p' \<Longrightarrow> wf_map (bp_generations p') \<Longrightarrow> wf_pool p'"
  unfolding wf_pool_def gens_grow_def by (metis (no_types, lifting) gr_implies_not_zero le_trans neq0_conv)

text \<open>
  The generation of \<open>key\<close> is newer than \<open>g\<close>, or has aged out. Unless the entry of the key is still
  \<open>e\<close>, it is: this is kept by every primitive of the pool.
\<close>

definition fenced :: "poolKey \<Rightarrow> 64 word \<Rightarrow> backend_pool \<Rightarrow> bool" where
  "fenced key g p \<longleftrightarrow> (\<forall>gen. map_of (bp_generations p) key = Some gen \<longrightarrow> unat g < unat (pg_value gen))"

definition guarded :: "poolKey \<Rightarrow> 64 word \<Rightarrow> nat option \<Rightarrow> backend_pool \<Rightarrow> bool" where
  "guarded key g e p \<longleftrightarrow> map_of (bp_entries p) key = e \<or> fenced key g p"

text \<open>One primitive step: it grows the generations and keeps the guard.\<close>

definition pool_prim :: "nat \<Rightarrow> backend_pool \<Rightarrow> backend_pool \<Rightarrow> bool" where
  "pool_prim n p p' \<longleftrightarrow> gens_grow n p p' \<and> wf_pool p'
     \<and> (\<forall>key g e. unat g \<le> unat (bp_counter p) \<longrightarrow> guarded key g e p \<longrightarrow> guarded key g e p')"

lemma fenced_grow: "fenced key g p \<Longrightarrow> unat g \<le> unat (bp_counter p) \<Longrightarrow> gens_grow n p p' \<Longrightarrow> fenced key g p'"
  unfolding fenced_def gens_grow_def by (metis le_less_trans)

lemma pool_prim_refl: "wf_pool p \<Longrightarrow> pool_prim n p p"
  by (simp add: pool_prim_def gens_grow_refl)

lemma pool_prim_trans: "pool_prim n p q \<Longrightarrow> pool_prim m q r \<Longrightarrow> pool_prim (n + m) p r"
  unfolding pool_prim_def using gens_grow_trans gens_grow_def by (meson le_trans)

lemma pool_prim_mono: "pool_prim n p q \<Longrightarrow> n \<le> m \<Longrightarrow> pool_prim m p q"
  using gens_grow_mono by (auto simp: pool_prim_def)

lemma pool_prim_frame:
  assumes "wf_pool p" "gens_grow n p p'" "wf_map (bp_generations p')" "bp_entries p' = bp_entries p"
  shows "pool_prim n p p'"
  unfolding pool_prim_def
proof (intro conjI allI impI)
  show "wf_pool p'" by (rule wf_pool_grow [OF assms(1-3)])
  fix key g e assume "unat g \<le> unat (bp_counter p)" "guarded key g e p"
  then show "guarded key g e p'" using fenced_grow [OF _ _ assms(2)] assms(4) by (auto simp: guarded_def)
qed (rule assms(2))

lemma wf_pool_wf: "wf_pool p \<Longrightarrow> wf_map (bp_generations p)"
  by (simp add: wf_pool_def)

lemma wf_bump: "wf_pool p \<Longrightarrow> wf_map (bp_generations (bumpGenerationLocked k now p))"
  by (simp add: bumpGenerationLocked_def Let_def wf_pool_def)

lemma pool_prim_generation:
  "wf_pool p \<Longrightarrow> unat (bp_counter p) + 1 < 2 ^ 64 \<Longrightarrow> pool_prim 1 p (snd (generationLocked k now p))"
  by (rule pool_prim_frame [OF _ gens_grow_generation]) (simp_all add: generationLocked_def Let_def wf_bump wf_pool_wf)

lemma pool_prim_objects: "wf_pool p \<Longrightarrow> pool_prim n p (p\<lparr>bp_objects := os\<rparr>)"
  by (rule pool_prim_frame) (auto simp: gens_grow_same wf_pool_def)

lemma pool_prim_hold: "wf_pool p \<Longrightarrow> pool_prim n p (snd (holdLocked i p))"
  by (simp add: holdLocked_def Let_def pool_prim_objects)

lemma pool_prim_expire: "wf_pool p \<Longrightarrow> pool_prim 0 p (pruneExpiredTombstonesLocked now p)"
  by (rule pool_prim_frame [OF _ gens_grow_expire [OF wf_pool_wf]])
    (simp_all add: wf_pool_wf pruneExpiredTombstonesLocked_def)

lemma bump_fenced:
  assumes "unat (bp_counter p) + 1 < 2 ^ 64" "unat g \<le> unat (bp_counter p)" "bp_generations p' = bp_generations (bumpGenerationLocked key now p)"
  shows "fenced key g p'"
  using counter_Suc [OF assms(1)] assms(2,3) by (simp add: fenced_def bumpGenerationLocked_def Let_def)

lemma retire_fenced:
  "unat (bp_counter p) + 1 < 2 ^ 64 \<Longrightarrow> unat g \<le> unat (bp_counter p) \<Longrightarrow> fenced key g (snd (retireLocked key reason now p))"
  by (rule bump_fenced) (auto simp: retireLocked_gens)

lemma pool_prim_retire:
  assumes "wf_pool p" "unat (bp_counter p) + 1 < 2 ^ 64"
  shows "pool_prim 1 p (snd (retireLocked k reason now p))"
  unfolding pool_prim_def
proof (intro conjI allI impI)
  note grow = gens_grow_retire [OF assms(2), of k reason now]
  then show "gens_grow 1 p (snd (retireLocked k reason now p))" .
  show "wf_pool (snd (retireLocked k reason now p))"
    by (rule wf_pool_grow [OF assms(1) grow]) (simp add: retireLocked_gens wf_bump [OF assms(1)])
  fix key g e assume g: "unat g \<le> unat (bp_counter p)" "guarded key g e p"
  show "guarded key g e (snd (retireLocked k reason now p))"
  proof (cases "key = k")
    case True
    then show ?thesis using retire_fenced [OF assms(2) g(1)] by (simp add: guarded_def)
  next
    case False
    then show ?thesis using g fenced_grow [OF _ g(1) grow] by (auto simp: guarded_def retireLocked_entries)
  qed
qed

lemma pool_prim_prune_entry:
  "wf_pool (snd st) \<Longrightarrow> unat (bp_counter (snd st)) + 1 < 2 ^ 64 \<Longrightarrow> pool_prim 1 (snd st) (snd (prune_entry now k st))"
  using pool_prim_retire [of "snd st" k "''ttl expired''" now]
  by (auto simp: prune_entry_def Let_def pool_prim_refl split: prod.splits option.splits)

lemma pool_prim_fold:
  "wf_pool (snd st) \<Longrightarrow> unat (bp_counter (snd st)) + length ks < 2 ^ 64 \<Longrightarrow>
   pool_prim (length ks) (snd st) (snd (fold (prune_entry now) ks st))"
proof (induction ks arbitrary: st)
  case (Cons k ks)
  have 1: "pool_prim 1 (snd st) (snd (prune_entry now k st))" using Cons.prems by (intro pool_prim_prune_entry) auto
  then have "wf_pool (snd (prune_entry now k st))" "unat (bp_counter (snd (prune_entry now k st))) + length ks < 2 ^ 64"
    using Cons.prems(2) by (auto simp: pool_prim_def gens_grow_def)
  from Cons.IH [OF this] show ?case using pool_prim_trans [OF 1] by simp
qed (simp add: pool_prim_refl)

lemma pool_prim_prune:
  assumes "wf_pool p" "unat (bp_counter p) + length (bp_entries p) < 2 ^ 64"
  shows "pool_prim (length (bp_entries p)) p (snd (pruneStaleEntriesLocked now p))"
proof -
  have 1: "pool_prim (length (bp_entries p)) p (snd (fold (prune_entry now) (map fst (bp_entries p)) ([], p)))"
    using pool_prim_fold [of "([], p)" "map fst (bp_entries p)" now] assms by simp
  then have "wf_pool (snd (fold (prune_entry now) (map fst (bp_entries p)) ([], p)))" by (simp add: pool_prim_def)
  from pool_prim_trans [OF 1 pool_prim_expire [OF this, of now]] show ?thesis
    by (simp add: pruneStaleEntriesLocked_def split_beta)
qed

lemma pool_prim_counter: "pool_prim n p q \<Longrightarrow> unat (bp_counter q) \<le> unat (bp_counter p) + n" "pool_prim n p q \<Longrightarrow> wf_pool q"
  by (simp_all add: pool_prim_def gens_grow_def)

lemma pool_prim_lookup_entry:
  assumes "wf_pool p" "unat (bp_counter p) + 2 < 2 ^ 64"
  shows "pool_prim 2 p (snd (snd (lookup_entry key h k g force now i look p)))"
proof -
  let ?p1 = "snd (if force then (0, p) else generationLocked key now p)"
  have 1: "pool_prim 1 p ?p1" using pool_prim_generation [OF assms(1)] assms by (auto simp: pool_prim_refl)
  have "unat (bp_counter ?p1) + 1 < 2 ^ 64" using pool_prim_counter(1) [OF 1] assms(2) by simp
  from pool_prim_trans [OF 1 pool_prim_retire [OF pool_prim_counter(2) [OF 1] this]]
  have 2: "pool_prim 2 p (snd (retireLocked key reason now ?p1))" for reason by (simp add: numeral_2_eq_2)
  have "pool_prim 2 p (snd (holdLocked i (p\<lparr>bp_objects := os\<rparr>)))" for os
    by (simp add: holdLocked_def Let_def pool_prim_objects [OF assms(1)])
  then show ?thesis using 2 pool_prim_mono [OF 1, of 2] by (cases force) (simp_all add: lookup_entry_def Let_def split_beta)
qed

lemma pool_prim_lookup:
  assumes "wf_pool p" "unat (bp_counter p) + length (bp_entries p) + 3 < 2 ^ 64"
  shows "pool_prim (length (bp_entries p) + 3) p (snd (snd (lookupOrRetire key h k g force now p)))"
proof -
  let ?n = "length (bp_entries p)"
  let ?p1 = "snd (pruneStaleEntriesLocked now p)"
  let ?p2 = "\<lambda>look. case map_of (bp_entries ?p1) key of None \<Rightarrow> ?p1
     | Some i \<Rightarrow> snd (snd (lookup_entry key h k g force now i look ?p1))"
  have 1: "pool_prim ?n p ?p1" using assms by (intro pool_prim_prune) auto
  note c1 = pool_prim_counter [OF 1]
  have "unat (bp_counter ?p1) + 2 < 2 ^ 64" using c1(1) assms(2) by simp
  from pool_prim_lookup_entry [OF c1(2) this] have "pool_prim 2 ?p1 (?p2 look)" for look
    by (simp add: pool_prim_refl [OF c1(2)] split: option.split)
  then have 2: "pool_prim (?n + 2) p (?p2 look)" for look by (rule pool_prim_trans [OF 1])
  have 3: "pool_prim (?n + 3) p (snd (generationLocked key now (?p2 look)))" for look
  proof -
    have "unat (bp_counter (?p2 look)) + 1 < 2 ^ 64" using pool_prim_counter(1) [OF 2, of look] assms(2) by simp
    from pool_prim_trans [OF 2 pool_prim_generation [OF pool_prim_counter(2) [OF 2] this]] show ?thesis
      by (simp add: eval_nat_numeral)
  qed
  show ?thesis using 3 by (auto simp: lookupOrRetire_def Let_def split_beta split: option.splits)
qed

lemma pool_prim_retirePoolEntry:
  assumes "wf_pool p" "unat (bp_counter p) + 2 < 2 ^ 64"
  shows "pool_prim 2 p (snd (snd (snd (retirePoolEntry key g force reason now p))))"
proof -
  have r: "pool_prim 2 p (snd (retireLocked key reason now p))"
    using pool_prim_mono [OF pool_prim_retire [OF assms(1)], of 2] assms(2) by simp
  have 1: "pool_prim 1 p (snd (generationLocked key now p))" using pool_prim_generation [OF assms(1)] assms by auto
  have "unat (bp_counter (snd (generationLocked key now p))) + 1 < 2 ^ 64" using pool_prim_counter(1) [OF 1] assms(2) by simp
  from pool_prim_trans [OF 1 pool_prim_retire [OF pool_prim_counter(2) [OF 1] this]]
  have "pool_prim 2 p (snd (retireLocked key reason now (snd (generationLocked key now p))))" by (simp add: numeral_2_eq_2)
  then show ?thesis using r pool_prim_mono [OF 1, of 2] by (simp add: retirePoolEntry_def Let_def split_beta split: option.split)
qed

lemma pool_prim_store:
  assumes "wf_pool p" "unat (bp_counter p) + 1 < 2 ^ 64"
  shows "pool_prim 1 p (snd (snd (snd (storePooledBackend key g entry p))))"
proof -
  let ?p1 = "p\<lparr>bp_objects := bp_objects p @ [entry], bp_entries := AList.update key (length (bp_objects p)) (bp_entries p)\<rparr>"
  let ?p2 = "snd (holdLocked (length (bp_objects p)) (bumpGenerationLocked key (pe_lastUsed entry) ?p1))"
  have gens: "bp_generations ?p2 = bp_generations (bumpGenerationLocked key (pe_lastUsed entry) p)"
    "bp_counter ?p2 = bp_counter (bumpGenerationLocked key (pe_lastUsed entry) p)"
    by (simp_all add: bumpGenerationLocked_def Let_def)
  then have grow: "gens_grow 1 p ?p2" using gens_grow_bump [OF assms(2), of key "pe_lastUsed entry"] by (simp add: gens_grow_def)
  have "guarded k g' e ?p2" if "unat g' \<le> unat (bp_counter p)" "guarded k g' e p" for k g' e
    using that bump_fenced [OF assms(2) that(1) gens(1)] fenced_grow [OF _ that(1) grow] by (auto simp: guarded_def)
  moreover have "wf_pool ?p2" using wf_pool_grow [OF assms(1) grow] wf_bump [OF assms(1)] gens(1) by simp
  ultimately have "pool_prim 1 p ?p2" using grow by (simp add: pool_prim_def)
  moreover have "pool_prim 1 p (snd (holdLocked i (p\<lparr>bp_objects := os\<rparr>)))" for i os
    by (simp add: holdLocked_def Let_def pool_prim_objects [OF assms(1)])
  ultimately show ?thesis
    using pool_prim_refl [OF assms(1)] by (simp add: storePooledBackend_def Let_def split_beta split: option.split)
qed

section \<open>Runs of the pool\<close>

text \<open>The operations goroutines run on the pool, each atomic under its mutex.\<close>

datatype pool_op =
    Op_Generation poolKey time
  | Op_Lookup poolKey string string "64 word" bool time
  | Op_Store poolKey "64 word" pooledEntry
  | Op_Release release
  | Op_Retire poolKey "64 word" bool string time
  | Op_RetireKey poolKey string string time
  | Op_Evict poolKey time
  | Op_Delete poolKey time

fun apply_op :: "pool_op \<Rightarrow> backend_pool \<Rightarrow> backend_pool" where
  "apply_op (Op_Generation key now) p = snd (poolGenerationOf key now p)"
| "apply_op (Op_Lookup key specHash entryKey g force now) p = snd (snd (lookupOrRetire key specHash entryKey g force now p))"
| "apply_op (Op_Store key g entry) p = snd (snd (snd (storePooledBackend key g entry p)))"
| "apply_op (Op_Release r) p = snd (run_release r p)"
| "apply_op (Op_Retire key g force reason now) p = snd (snd (snd (retirePoolEntry key g force reason now p)))"
| "apply_op (Op_RetireKey key entryKey reason now) p = snd (retireEntryWithKey key entryKey reason now p)"
| "apply_op (Op_Evict key now) p = snd (evictPoolKey key now p)"
| "apply_op (Op_Delete key now) p = snd (evictPoolKeyForDelete key now p)"

primrec run_ops :: "pool_op list \<Rightarrow> backend_pool \<Rightarrow> backend_pool" where
  "run_ops [] p = p"
| "run_ops (op # ops) p = run_ops ops (apply_op op p)"

text \<open>
  A bound on the steps of the counter: a lookup retires at most every entry once, retires the entry
  of its key and reads the generation twice; every other operation steps the counter at most twice.
\<close>

primrec counter_steps :: "pool_op list \<Rightarrow> backend_pool \<Rightarrow> nat" where
  "counter_steps [] p = 0"
| "counter_steps (op # ops) p = length (bp_entries p) + 3 + counter_steps ops (apply_op op p)"

lemma run_ops_append: "run_ops (ops @ ops') p = run_ops ops' (run_ops ops p)"
  by (induction ops arbitrary: p) auto

lemma counter_steps_append: "counter_steps (ops @ ops') p = counter_steps ops p + counter_steps ops' (run_ops ops p)"
  by (induction ops arbitrary: p) auto

lemma delete_tombstone_frame:
  "pool_prim 1 p q \<Longrightarrow> pool_prim 1 p (pruneExpiredTombstonesLocked now (q\<lparr>bp_tombstones := ts\<rparr>))"
proof -
  assume q: "pool_prim 1 p q"
  have "wf_pool (q\<lparr>bp_tombstones := ts\<rparr>)" using q by (simp add: pool_prim_def wf_pool_def)
  moreover have "pool_prim 0 q (q\<lparr>bp_tombstones := ts\<rparr>)"
    by (rule pool_prim_frame) (use q in \<open>auto simp: pool_prim_def gens_grow_same wf_pool_wf\<close>)
  ultimately show ?thesis using pool_prim_trans [OF q pool_prim_trans [OF _ pool_prim_expire]] by simp
qed

lemma pool_prim_op:
  assumes "wf_pool p" "unat (bp_counter p) + length (bp_entries p) + 3 < 2 ^ 64"
  shows "pool_prim (length (bp_entries p) + 3) p (apply_op op p)"
proof -
  have c: "unat (bp_counter p) + 1 < 2 ^ 64" "unat (bp_counter p) + 2 < 2 ^ 64" using assms(2) by simp_all
  note retire = pool_prim_retire [OF assms(1) c(1)]
  note up = pool_prim_mono [of 1 p _ "length (bp_entries p) + 3"] pool_prim_mono [of 2 p _ "length (bp_entries p) + 3"]
  note keep = pool_prim_refl [OF assms(1)] pool_prim_objects [OF assms(1)]
  show ?thesis
  proof (cases op)
    case (Op_Generation k now)
    then show ?thesis using up(1) [OF pool_prim_generation [OF assms(1) c(1)]] by (simp add: poolGenerationOf_def)
  next
    case (Op_Lookup k h ek g force now)
    then show ?thesis using pool_prim_lookup [OF assms] by simp
  next
    case (Op_Store k g e)
    then show ?thesis using up(1) [OF pool_prim_store [OF assms(1) c(1)]] by simp
  next
    case (Op_Release r)
    then show ?thesis using keep by (cases r) (simp_all add: Let_def)
  next
    case (Op_Retire k g force reason now)
    then show ?thesis using up(2) [OF pool_prim_retirePoolEntry [OF assms(1) c(2)]] by simp
  next
    case (Op_RetireKey k ek reason now)
    then show ?thesis
      using up(1) [OF retire] keep by (simp add: retireEntryWithKey_def Let_def split_beta split: option.split)
  next
    case (Op_Evict k now)
    then show ?thesis using up(1) [OF retire] by (simp add: evictPoolKey_def Let_def split_beta)
  next
    case (Op_Delete k now)
    then show ?thesis using up(1) [OF delete_tombstone_frame [OF retire]] by (simp add: evictPoolKeyForDelete_def Let_def split_beta)
  qed
qed

lemma pool_prim_run:
  "wf_pool p \<Longrightarrow> unat (bp_counter p) + counter_steps ops p < 2 ^ 64 \<Longrightarrow> pool_prim (counter_steps ops p) p (run_ops ops p)"
proof (induction ops arbitrary: p)
  case (Cons op ops)
  have 1: "pool_prim (length (bp_entries p) + 3) p (apply_op op p)" using Cons.prems by (intro pool_prim_op) auto
  have "unat (bp_counter (apply_op op p)) + counter_steps ops (apply_op op p) < 2 ^ 64"
    using pool_prim_counter(1) [OF 1] Cons.prems(2) by simp
  from pool_prim_trans [OF 1 Cons.IH [OF pool_prim_counter(2) [OF 1] this]] show ?case by (simp add: add.assoc)
qed (simp add: pool_prim_refl)

text \<open>An operation that retires the key, or changes which entry is pooled under it.\<close>

fun touches :: "poolKey \<Rightarrow> pool_op \<Rightarrow> backend_pool \<Rightarrow> bool" where
  "touches key (Op_Evict k now) p = (k = key)"
| "touches key (Op_Delete k now) p = (k = key)"
| "touches key (Op_Retire k g force reason now) p =
     (if k = key then fst (retirePoolEntry k g force reason now p)
      else map_of (bp_entries (apply_op (Op_Retire k g force reason now) p)) key \<noteq> map_of (bp_entries p) key)"
| "touches key op p = (map_of (bp_entries (apply_op op p)) key \<noteq> map_of (bp_entries p) key)"

lemma changed_fenced:
  assumes "wf_pool p" "unat (bp_counter p) + length (bp_entries p) + 3 < 2 ^ 64" "unat g \<le> unat (bp_counter p)"
    and "map_of (bp_entries (apply_op op p)) key \<noteq> map_of (bp_entries p) key"
  shows "fenced key g (apply_op op p)"
  using pool_prim_op [OF assms(1,2), of op] assms(3,4) unfolding pool_prim_def guarded_def by blast

lemma touch_fenced:
  assumes wf: "wf_pool p" and c: "unat (bp_counter p) + length (bp_entries p) + 3 < 2 ^ 64" and g: "unat g \<le> unat (bp_counter p)"
    and t: "touches key op p"
  shows "fenced key g (apply_op op p)"
proof -
  have c1: "unat (bp_counter p) + 1 < 2 ^ 64" "unat (bp_counter p) + 2 < 2 ^ 64" using c by simp_all
  note changed = changed_fenced [OF wf c g]
  have gen: "pool_prim 1 p (snd (generationLocked key now p))" for now using pool_prim_generation [OF wf c1(1)] .
  show ?thesis
  proof (cases op)
    case (Op_Evict k now)
    then show ?thesis using t retire_fenced [OF c1(1) g] by (simp add: evictPoolKey_def Let_def split_beta)
  next
    case (Op_Delete k now)
    let ?q = "snd (retireLocked key ''sink delete eviction'' now p)"
    have "fenced key g ?q" using retire_fenced [OF c1(1) g] .
    then have "fenced key g (?q\<lparr>bp_tombstones := AList.update key now (bp_tombstones ?q)\<rparr>)" by (simp add: fenced_def)
    moreover have "unat g \<le> unat (bp_counter ?q)" using g counter_Suc [OF c1(1)] by (simp add: retireLocked_gens bumpGenerationLocked_def Let_def)
    moreover have "wf_map (bp_generations ?q)" using wf_bump [OF wf] by (simp add: retireLocked_gens)
    ultimately show ?thesis
      using t Op_Delete fenced_grow [OF _ _ gens_grow_expire] by (simp add: evictPoolKeyForDelete_def Let_def split_beta)
  next
    case (Op_Retire k rg force reason now)
    show ?thesis
    proof (cases "k = key")
      case True
      have "unat (bp_counter (snd (generationLocked key now p))) + 1 < 2 ^ 64"
        "unat g \<le> unat (bp_counter (snd (generationLocked key now p)))"
        using gen [of now] c1(2) g by (auto simp: pool_prim_def gens_grow_def)
      then have "fenced key g (snd (retireLocked key reason now (snd (generationLocked key now p))))" by (rule retire_fenced)
      then show ?thesis using t Op_Retire True retire_fenced [OF c1(1) g]
        by (auto simp: retirePoolEntry_def Let_def split_beta split: option.splits if_splits)
    qed (use changed [of op key] t Op_Retire in simp)
  qed (use changed [of op key] t in auto)
qed

lemma fenced_blocks_store:
  assumes "fenced key g p" "0 < unat g"
  shows "map_of (bp_entries (snd (snd (snd (storePooledBackend key g entry p))))) k = map_of (bp_entries p) k"
proof -
  have "generation_value key p \<noteq> g"
    using assms by (auto simp: generation_value_def fenced_def split: option.splits)
  then show ?thesis by (simp add: storePooledBackend_def Let_def split_beta split: option.split)
qed

lemma wf_globalBackendPool: "wf_pool globalBackendPool"
  by (simp add: wf_pool_def globalBackendPool_def)

text \<open>A lookup returns the generation of its key, which is not 0.\<close>

lemma generationLocked_value:
  assumes "wf_pool p" "unat (bp_counter p) + 1 < 2 ^ 64"
  shows "0 < unat (fst (generationLocked key now p)) \<and> unat (fst (generationLocked key now p)) \<le> unat (bp_counter (snd (generationLocked key now p)))"
proof -
  have "wf_pool (snd (generationLocked key now p))" using pool_prim_generation [OF assms] by (rule pool_prim_counter(2))
  moreover have "\<exists>gen. map_of (bp_generations (snd (generationLocked key now p))) key = Some gen
      \<and> fst (generationLocked key now p) = pg_value gen"
    by (auto simp: generationLocked_def generation_value_def bumpGenerationLocked_def Let_def split: option.splits)
  ultimately show ?thesis by (fastforce simp: wf_pool_def)
qed

lemma lookup_generation:
  assumes "wf_pool p" "unat (bp_counter p) + length (bp_entries p) + 3 < 2 ^ 64"
    and r_def: "r = lookupOrRetire key h ek rg force now p"
  shows "0 < unat (pl_generation (fst r)) \<and> unat (pl_generation (fst r)) \<le> unat (bp_counter (snd (snd r)))"
proof -
  let ?p1 = "snd (pruneStaleEntriesLocked now p)"
  have 1: "pool_prim (length (bp_entries p)) p ?p1" using assms(1,2) by (intro pool_prim_prune) auto
  note c1 = pool_prim_counter [OF 1]
  have "unat (bp_counter ?p1) + 2 < 2 ^ 64" using c1(1) assms(2) by simp
  note 2 = pool_prim_lookup_entry [OF c1(2) this]
  have c2: "unat (bp_counter (snd (snd (lookup_entry key h ek rg force now i look ?p1)))) + 1 < 2 ^ 64" for i look
    using pool_prim_counter(1) [OF 2, of key h ek rg force now i look] c1(1) assms(2) by simp
  have "unat (bp_counter ?p1) + 1 < 2 ^ 64" using c1(1) assms(2) by simp
  note gens = generationLocked_value [OF c1(2) this, of key now] generationLocked_value [OF pool_prim_counter(2) [OF 2] c2]
  show ?thesis using gens by (auto simp: r_def lookupOrRetire_def Let_def split_beta split: option.split)
qed

text \<open>C27. The store fence: once a key was evicted, its sink deleted, or its pooled entry retired or
  replaced after an acquire looked it up, the backend this acquire builds is never pooled, however
  the operations of other goroutines interleave and even if the key's generation has aged out in
  between; it takes fewer than \<open>2 ^ 64\<close> steps of the counter.\<close>

theorem stale_build_never_pooled:
  assumes "p = run_ops history globalBackendPool"
    and "lookupOrRetire key specHash entryKey readGeneration force now p = (look, closed, pl)"
    and "pm = run_ops earlier pl" and "touches key op pm" and "pn = run_ops later (apply_op op pm)"
    and "counter_steps (history @ Op_Lookup key specHash entryKey readGeneration force now # earlier @ op # later) globalBackendPool < 2 ^ 64"
  shows "map_of (bp_entries (snd (snd (snd (storePooledBackend key (pl_generation look) entry pn))))) key = map_of (bp_entries pn) key"
proof -
  let ?g = "pl_generation look"
  have pl: "pl = apply_op (Op_Lookup key specHash entryKey readGeneration force now) p" using assms(2) by simp
  have steps: "counter_steps history globalBackendPool + (length (bp_entries p) + 3) + counter_steps earlier pl
      + (length (bp_entries pm) + 3) + counter_steps later (apply_op op pm) < 2 ^ 64"
    using assms(6) pl by (simp add: counter_steps_append run_ops_append assms(1,3) del: apply_op.simps)
  have h: "pool_prim (counter_steps history globalBackendPool) globalBackendPool p"
    using pool_prim_run [OF wf_globalBackendPool] steps assms(1) by (simp add: globalBackendPool_def)
  note ch = pool_prim_counter [OF h]
  have l: "unat (bp_counter p) + length (bp_entries p) + 3 < 2 ^ 64" using ch(1) steps by (simp add: globalBackendPool_def)
  have g: "0 < unat ?g" "unat ?g \<le> unat (bp_counter pl)"
    using lookup_generation [OF ch(2) l assms(2) [symmetric]] by simp_all
  note c0 = pool_prim_counter [OF pool_prim_op [OF ch(2) l, of "Op_Lookup key specHash entryKey readGeneration force now", folded pl]]
  have r1: "pool_prim (counter_steps earlier pl) pl pm"
    using pool_prim_run [OF c0(2)] c0(1) ch(1) steps assms(3) by (simp add: globalBackendPool_def)
  note c1 = pool_prim_counter [OF r1]
  have b1: "unat (bp_counter pm) + length (bp_entries pm) + 3 < 2 ^ 64"
    using c1(1) c0(1) ch(1) steps by (simp add: globalBackendPool_def)
  have g1: "unat ?g \<le> unat (bp_counter pm)" using g(2) r1 by (auto simp: pool_prim_def gens_grow_def)
  note c2 = pool_prim_counter [OF pool_prim_op [OF c1(2) b1, of op]]
  have g2: "unat ?g \<le> unat (bp_counter (apply_op op pm))"
    using g1 pool_prim_op [OF c1(2) b1, of op] by (auto simp: pool_prim_def gens_grow_def)
  have "pool_prim (counter_steps later (apply_op op pm)) (apply_op op pm) pn"
    using pool_prim_run [OF c2(2)] c2(1) c1(1) c0(1) ch(1) steps assms(5) by (simp add: globalBackendPool_def)
  then have "fenced key ?g pn"
    using fenced_grow [OF touch_fenced [OF c1(2) b1 g1 assms(4)] g2] by (auto simp: pool_prim_def)
  then show ?thesis by (rule fenced_blocks_store) (rule g(1))
qed

definition example_entry :: pooledEntry where
  "example_entry = \<lparr>pe_backend = 0, pe_specHash = ''h'', pe_key = ''k'', pe_secrets = [], pe_lastUsed = 5, pe_holders = 0,
     pe_retired = False, pe_retireReason = []\<rparr>"

theorem stale_build_never_pooled_witness:
  "map_of (bp_entries (snd (snd (snd (storePooledBackend ''uid:a''
     (pl_generation (fst (lookupOrRetire ''uid:a'' ''h'' ''k'' 0 False 5 globalBackendPool)))
     example_entry (run_ops [Op_Lookup ''uid:a'' ''h'' ''k'' 0 False 5, Op_Delete ''uid:b'' 6, Op_Evict ''uid:a'' 7] globalBackendPool))))))
     ''uid:a'' = None"
proof -
  have steps: "counter_steps [Op_Lookup ''uid:a'' ''h'' ''k'' 0 False 5, Op_Delete ''uid:b'' 6, Op_Evict ''uid:a'' 7] globalBackendPool = 9"
    by code_simp
  let ?l = "lookupOrRetire ''uid:a'' ''h'' ''k'' 0 False 5 globalBackendPool"
  let ?pl = "snd (snd ?l)"
  have "map_of (bp_entries (snd (snd (snd (storePooledBackend ''uid:a'' (pl_generation (fst ?l)) example_entry
      (run_ops [] (apply_op (Op_Evict ''uid:a'' 7) (run_ops [Op_Delete ''uid:b'' 6] ?pl)))))))) ''uid:a''
    = map_of (bp_entries (run_ops [] (apply_op (Op_Evict ''uid:a'' 7) (run_ops [Op_Delete ''uid:b'' 6] ?pl)))) ''uid:a''"
    by (rule stale_build_never_pooled [where history = "[]" and p = globalBackendPool and specHash = "''h''" and entryKey = "''k''"
          and readGeneration = 0 and force = False and now = 5 and earlier = "[Op_Delete ''uid:b'' 6]" and op = "Op_Evict ''uid:a'' 7"
          and later = "[]" and closed = "fst (snd ?l)"
          and pl = ?pl and pm = "run_ops [Op_Delete ''uid:b'' 6] ?pl"])
      (simp only: run_ops.simps, simp only: prod.collapse, rule refl, simp only: touches.simps, rule refl, simp only: append.simps steps, simp)
  moreover have "map_of (bp_entries (run_ops [] (apply_op (Op_Evict ''uid:a'' 7) (run_ops [Op_Delete ''uid:b'' 6] ?pl)))) ''uid:a'' = None"
    by code_simp
  ultimately show ?thesis by simp
qed

section \<open>Deleted sinks\<close>

fun op_now :: "pool_op \<Rightarrow> time option" where
  "op_now (Op_Generation key now) = Some now"
| "op_now (Op_Lookup key specHash entryKey g force now) = Some now"
| "op_now (Op_Retire key g force reason now) = Some now"
| "op_now (Op_RetireKey key entryKey reason now) = Some now"
| "op_now (Op_Evict key now) = Some now"
| "op_now (Op_Delete key now) = Some now"
| "op_now op = None"

definition within_ttl :: "time \<Rightarrow> pool_op \<Rightarrow> bool" where
  "within_ttl t op \<longleftrightarrow> (case op_now op of None \<Rightarrow> True | Some now \<Rightarrow> t \<le> now \<and> now \<le> t + backendPoolTTL)"

definition dead :: "poolKey \<Rightarrow> time \<Rightarrow> backend_pool \<Rightarrow> bool" where
  "dead key t p \<longleftrightarrow> map_of (bp_entries p) key = None \<and> (\<exists>t'. map_of (bp_tombstones p) key = Some t' \<and> t \<le> t')"

lemma map_of_filter_keep: "map_of m k = Some v \<Longrightarrow> P (k, v) \<Longrightarrow> map_of (filter P m) k = Some v"
  by (induction m) (auto split: if_splits)

lemma dead_same: "dead key t p \<Longrightarrow> bp_entries q = bp_entries p \<Longrightarrow> bp_tombstones q = bp_tombstones p \<Longrightarrow> dead key t q"
  by (simp add: dead_def)

lemma dead_retire: "dead key t p \<Longrightarrow> dead key t (snd (retireLocked k reason now p))"
  by (auto simp: dead_def retireLocked_entries)

lemma dead_expire: "dead key t p \<Longrightarrow> now \<le> t + backendPoolTTL \<Longrightarrow> dead key t (pruneExpiredTombstonesLocked now p)"
  using map_of_filter_keep [of "bp_tombstones p" key _ "\<lambda>(k, tombstoned). \<not> backendPoolTTL < now - tombstoned"]
  by (fastforce simp: dead_def pruneExpiredTombstonesLocked_def)

lemma dead_fold: "dead key t (snd st) \<Longrightarrow> dead key t (snd (fold (prune_entry now) ks st))"
proof (induction ks arbitrary: st)
  case (Cons k ks)
  have "dead key t (snd (prune_entry now k st))"
    using Cons.prems dead_retire [of key t "snd st" k "''ttl expired''" now]
    by (auto simp: prune_entry_def Let_def split: prod.splits option.splits)
  then show ?case using Cons.IH by simp
qed simp

lemma dead_lookup_entry:
  "dead key t p \<Longrightarrow> dead key t (snd (snd (lookup_entry k h ek g force now i look p)))"
proof -
  assume d: "dead key t p"
  have 1: "dead key t (snd (if force then (0, p) else generationLocked k now p))" using d dead_same [OF d] by simp
  have "dead key t (snd (holdLocked i (p\<lparr>bp_objects := os\<rparr>)))" for os using dead_same [OF d] by simp
  then show ?thesis using d 1 dead_retire [OF 1] by (cases force) (simp_all add: lookup_entry_def Let_def split_beta)
qed

lemma dead_lookup:
  assumes "dead key t p" "now \<le> t + backendPoolTTL"
  shows "dead key t (snd (snd (lookupOrRetire k h ek g force now p)))"
proof -
  have 1: "dead key t (snd (pruneStaleEntriesLocked now p))"
    using dead_expire [OF dead_fold [of key t "([], p)"] assms(2)] assms(1) by (simp add: pruneStaleEntriesLocked_def split_beta)
  have "dead key t q \<Longrightarrow> dead key t (snd (generationLocked k now q))" for q by (rule dead_same) simp_all
  then show ?thesis
    using 1 dead_lookup_entry [OF 1] by (simp add: lookupOrRetire_def Let_def split_beta split: option.split)
qed

lemma dead_store: "dead key t p \<Longrightarrow> dead key t (snd (snd (snd (storePooledBackend k g entry p))))"
  by (cases "k = key") (auto simp: dead_def storePooledBackend_def Let_def split_beta split: option.splits)

lemma dead_op:
  assumes d: "dead key t p" and w: "within_ttl t op"
  shows "dead key t (apply_op op p)"
proof (cases op)
  case (Op_Lookup k h ek g force now)
  then show ?thesis using dead_lookup [OF d] w by (simp add: within_ttl_def)
next
  case (Op_Store k g entry)
  then show ?thesis using dead_store [OF d] by simp
next
  case (Op_Retire k g force reason now)
  have "dead key t (snd (generationLocked k now p))" using dead_same [OF d] by simp
  then show ?thesis using Op_Retire dead_retire d dead_retire [OF d]
    by (simp add: retirePoolEntry_def Let_def split_beta split: option.split)
next
  case (Op_Delete k now)
  let ?q = "snd (retireLocked k ''sink delete eviction'' now p)"
  have "dead key t (?q\<lparr>bp_tombstones := AList.update k now (bp_tombstones ?q)\<rparr>)"
    using dead_retire [OF d, of k] w Op_Delete by (auto simp: dead_def within_ttl_def)
  then show ?thesis using dead_expire Op_Delete w by (simp add: evictPoolKeyForDelete_def Let_def split_beta within_ttl_def)
qed (use d dead_same [OF d] dead_retire [OF d] in
    \<open>auto simp: poolGenerationOf_def retireEntryWithKey_def evictPoolKey_def Let_def split_beta split: option.split\<close>)

text \<open>A deleted sink stays out of the pool: for the lifetime of its tombstone no interleaving of
  lookups, stores, releases, retires and deletions pools a backend under its key again.\<close>

theorem deleted_sink_not_pooled:
  assumes "list_all (within_ttl t) ops"
  shows "map_of (bp_entries (run_ops ops (snd (evictPoolKeyForDelete key t p)))) key = None"
proof -
  have "dead key t q \<Longrightarrow> dead key t (run_ops ops q)" for q
    using assms by (induction ops arbitrary: q) (auto intro: dead_op)
  moreover have "dead key t (snd (evictPoolKeyForDelete key t p))"
    unfolding evictPoolKeyForDelete_def Let_def split_beta snd_conv
    by (rule dead_expire) (simp_all add: dead_def retireLocked_entries backendPoolTTL_def MaxExportInterval_def Hour_def Minute_def Second_def)
  ultimately show ?thesis by (simp add: dead_def)
qed

theorem deleted_sink_not_pooled_witness:
  "map_of (bp_entries (run_ops [Op_Lookup ''uid:a'' ''h'' ''k'' 0 False 8, Op_Store ''uid:a'' 2 example_entry]
     (snd (evictPoolKeyForDelete ''uid:a'' 7 globalBackendPool)))) ''uid:a'' = None"
  by (rule deleted_sink_not_pooled)
    (simp add: within_ttl_def backendPoolTTL_def MaxExportInterval_def Hour_def Minute_def Second_def)

end
