(* ===== verification/Pool_Ownership.thy ===== *)
theory Pool_Ownership
  imports Backend_Pool "HOL-Library.Multiset"
begin

text \<open>
  Who owns a backend: the interleaved runs of the backend pool. A state holds the pool, the backends
  in use with the release each user was given and has not run, the builds that are not stored yet,
  and the backends whose \<open>Close\<close> was called. The invariant is a conservation law on multisets: every
  backend that was ever built is counted exactly once among the live entries of the pool, the
  owning releases, the builds and the closed backends.
\<close>

section \<open>Steps\<close>

record pool_state =
  ps_pool :: backend_pool
  ps_users :: "(backend \<times> release) list"
  ps_builds :: "backend list"
  ps_closed :: "backend list"
  ps_next :: backend

definition initial_pool_state :: pool_state where
  "initial_pool_state = \<lparr>ps_pool = globalBackendPool, ps_users = [], ps_builds = [], ps_closed = [], ps_next = 0\<rparr>"

definition new_users :: "poolLookup \<Rightarrow> (backend \<times> release) list" where
  "new_users look = (case (pl_hit look, pl_release look) of (Some b, Some r) \<Rightarrow> [(b, r)] | _ \<Rightarrow> [])"

text \<open>The entry an acquire stores for the backend it built.\<close>

definition built_entry :: "backend \<Rightarrow> string \<Rightarrow> secretVersion list \<Rightarrow> time \<Rightarrow> pooledEntry" where
  "built_entry b specHash built now = \<lparr>pe_backend = b, pe_specHash = specHash, pe_key = poolEntryKey specHash built,
     pe_secrets = built, pe_lastUsed = now, pe_holders = 0, pe_retired = False, pe_retireReason = []\<rparr>"

inductive pool_step :: "pool_state \<Rightarrow> pool_state \<Rightarrow> bool" where
  read_generation: "pool_step s (s\<lparr>ps_pool := snd (poolGenerationOf key now (ps_pool s))\<rparr>)"
| look_up: "lookupOrRetire key specHash entryKey g force now (ps_pool s) = (look, closed, p) \<Longrightarrow>
    pool_step s (s\<lparr>ps_pool := p, ps_users := new_users look @ ps_users s, ps_closed := ps_closed s @ map fst closed\<rparr>)"
| build: "pool_step s (s\<lparr>ps_builds := ps_next s # ps_builds s, ps_next := Suc (ps_next s)\<rparr>)"
| store: "b \<in> set (ps_builds s) \<Longrightarrow>
    storePooledBackend key g (built_entry b specHash built now) (ps_pool s) = (stored, rel, discard, p) \<Longrightarrow>
    pool_step s (s\<lparr>ps_pool := p, ps_users := (stored, rel) # ps_users s, ps_builds := remove1 b (ps_builds s),
      ps_closed := ps_closed s @ map fst (closes_of discard ''duplicate pool backend'')\<rparr>)"
| release: "(b, r) \<in> set (ps_users s) \<Longrightarrow> run_release r (ps_pool s) = (closed, p) \<Longrightarrow>
    pool_step s (s\<lparr>ps_pool := p, ps_users := remove1 (b, r) (ps_users s), ps_closed := ps_closed s @ map fst closed\<rparr>)"
| retire: "retirePoolEntry key g force reason now (ps_pool s) = (retired, staleKey, closed, p) \<Longrightarrow>
    pool_step s (s\<lparr>ps_pool := p, ps_closed := ps_closed s @ map fst closed\<rparr>)"
| retire_key: "retireEntryWithKey key entryKey reason now (ps_pool s) = (closed, p) \<Longrightarrow>
    pool_step s (s\<lparr>ps_pool := p, ps_closed := ps_closed s @ map fst closed\<rparr>)"
| evict: "evictPoolKey key now (ps_pool s) = (closed, p) \<Longrightarrow>
    pool_step s (s\<lparr>ps_pool := p, ps_closed := ps_closed s @ map fst closed\<rparr>)"
| delete: "evictPoolKeyForDelete key now (ps_pool s) = (closed, p) \<Longrightarrow>
    pool_step s (s\<lparr>ps_pool := p, ps_closed := ps_closed s @ map fst closed\<rparr>)"

inductive pool_reachable :: "pool_state \<Rightarrow> bool" where
  start: "pool_reachable initial_pool_state"
| step: "pool_reachable s \<Longrightarrow> pool_step s s' \<Longrightarrow> pool_reachable s'"

section \<open>Ownership\<close>

definition live :: "pooledEntry \<Rightarrow> bool" where
  "live e \<longleftrightarrow> \<not> pe_retired e \<or> 0 < pe_holders e"

definition owned :: "backend_pool \<Rightarrow> backend multiset" where
  "owned p = mset (map pe_backend (filter live (bp_objects p)))"

fun own_part :: "release \<Rightarrow> backend multiset" where
  "own_part (Hold i) = {#}"
| "own_part (Owning b reason) = {#b#}"
| "own_part (Unguarded b reason) = {#b#}"

definition owners :: "release multiset \<Rightarrow> backend multiset" where
  "owners R = (\<Sum>r \<in># R. own_part r)"

fun release_backend :: "backend_pool \<Rightarrow> release \<Rightarrow> backend" where
  "release_backend p (Hold i) = pe_backend (bp_objects p ! i)"
| "release_backend p (Owning b reason) = b"
| "release_backend p (Unguarded b reason) = b"

text \<open>
  The pool's map points at exactly the objects that are not retired, each under one key, and an
  object is held once for every release that was not run.
\<close>

definition entries_ok :: "(poolKey, nat) gomap \<Rightarrow> pooledEntry list \<Rightarrow> bool" where
  "entries_ok m os \<longleftrightarrow>
     (\<forall>k i. map_of m k = Some i \<longrightarrow> i < length os \<and> \<not> pe_retired (os ! i))
     \<and> (\<forall>k k' i. map_of m k = Some i \<longrightarrow> map_of m k' = Some i \<longrightarrow> k = k')
     \<and> (\<forall>i < length os. \<not> pe_retired (os ! i) \<longrightarrow> (\<exists>k. map_of m k = Some i))"

definition holds_ok :: "pooledEntry list \<Rightarrow> release multiset \<Rightarrow> bool" where
  "holds_ok os R \<longleftrightarrow> (\<forall>i < length os. pe_holders (os ! i) = int (count R (Hold i))) \<and> (\<forall>i. Hold i \<in># R \<longrightarrow> i < length os)"

definition pool_inv :: "backend_pool \<Rightarrow> release multiset \<Rightarrow> bool" where
  "pool_inv p R \<longleftrightarrow> entries_ok (bp_entries p) (bp_objects p) \<and> holds_ok (bp_objects p) R"

definition same_build :: "pooledEntry \<Rightarrow> pooledEntry \<Rightarrow> bool" where
  "same_build e e' \<longleftrightarrow> pe_backend e' = pe_backend e \<and> pe_specHash e' = pe_specHash e \<and> pe_key e' = pe_key e \<and> pe_secrets e' = pe_secrets e"

definition objects_keep :: "backend_pool \<Rightarrow> backend_pool \<Rightarrow> bool" where
  "objects_keep p p' \<longleftrightarrow> length (bp_objects p) \<le> length (bp_objects p')
     \<and> (\<forall>i < length (bp_objects p). same_build (bp_objects p ! i) (bp_objects p' ! i))"

text \<open>One operation moves backends between the pool, the releases, the builds and the closed ones.\<close>

definition moves :: "backend_pool \<Rightarrow> release multiset \<Rightarrow> backend multiset \<Rightarrow> backend_pool \<Rightarrow> release multiset \<Rightarrow> backend list \<Rightarrow> bool" where
  "moves p R built p' R' closed \<longleftrightarrow> pool_inv p' R' \<and> objects_keep p p'
     \<and> owned p + owners R + built = owned p' + owners R' + mset closed"

lemma same_build_refl [simp]: "same_build e e"
  by (simp add: same_build_def)

lemma objects_keep_refl [simp]: "objects_keep p p"
  by (simp add: objects_keep_def)

lemma objects_keep_trans: "objects_keep p q \<Longrightarrow> objects_keep q r \<Longrightarrow> objects_keep p r"
  by (auto simp: objects_keep_def same_build_def)

lemma moves_refl: "pool_inv p R \<Longrightarrow> moves p R {#} p R []"
  by (simp add: moves_def)

lemma moves_trans: "moves p R b q R' c \<Longrightarrow> moves q R' b' r R'' c' \<Longrightarrow> moves p R (b + b') r R'' (c @ c')"
proof -
  assume a: "moves p R b q R' c" and b: "moves q R' b' r R'' c'"
  have "owned p + owners R + (b + b') = (owned p + owners R + b) + b'" by (simp add: ac_simps)
  also have "\<dots> = (owned q + owners R' + b') + mset c" using a by (simp add: moves_def ac_simps)
  also have "\<dots> = owned r + owners R'' + mset (c @ c')" using b by (simp add: moves_def ac_simps)
  finally show ?thesis using a b objects_keep_trans [of p q r] by (simp add: moves_def)
qed

lemma owners_simps [simp]: "owners {#} = {#}" "owners (add_mset r R) = own_part r + owners R"
  by (simp_all add: owners_def)

lemma owned_update:
  assumes "i < length (bp_objects p)"
  shows "owned (p\<lparr>bp_objects := (bp_objects p)[i := e]\<rparr>) + (if live (bp_objects p ! i) then {#pe_backend (bp_objects p ! i)#} else {#})
    = owned p + (if live e then {#pe_backend e#} else {#})"
proof -
  let ?xs = "bp_objects p"
  have "owned p = mset (map pe_backend (filter live (take i ?xs @ ?xs ! i # drop (Suc i) ?xs)))"
    using id_take_nth_drop [OF assms] by (simp add: owned_def)
  moreover have "owned (p\<lparr>bp_objects := ?xs[i := e]\<rparr>) = mset (map pe_backend (filter live (take i ?xs @ e # drop (Suc i) ?xs)))"
    using upd_conv_take_nth_drop [OF assms] by (simp add: owned_def)
  ultimately show ?thesis by simp
qed

text \<open>Operations that change neither objects nor entries.\<close>

lemma moves_frame:
  assumes "pool_inv p R" "bp_objects q = bp_objects p" "bp_entries q = bp_entries p"
  shows "moves p R {#} q R []"
  using assms by (simp add: moves_def pool_inv_def owned_def objects_keep_def)

lemma objects_keep_update:
  "same_build (bp_objects p ! i) e \<Longrightarrow> objects_keep p (p\<lparr>bp_objects := (bp_objects p)[i := e]\<rparr>)"
proof -
  assume "same_build (bp_objects p ! i) e"
  then have "same_build (bp_objects p ! j) ((bp_objects p)[i := e] ! j)" if "j < length (bp_objects p)" for j
    using that by (cases "i = j") simp_all
  then show ?thesis by (simp add: objects_keep_def)
qed

lemma pool_inv_entry:
  assumes "pool_inv p R" "map_of (bp_entries p) k = Some i"
  shows "i < length (bp_objects p)" "\<not> pe_retired (bp_objects p ! i)" "live (bp_objects p ! i)"
  using assms by (auto simp: pool_inv_def entries_ok_def live_def)

lemma pool_inv_hold: "pool_inv p R \<Longrightarrow> Hold i \<in># R \<Longrightarrow> i < length (bp_objects p)"
  by (simp add: pool_inv_def holds_ok_def)

lemma pool_inv_holders: "pool_inv p R \<Longrightarrow> i < length (bp_objects p) \<Longrightarrow> pe_holders (bp_objects p ! i) = int (count R (Hold i))"
  by (simp add: pool_inv_def holds_ok_def)

text \<open>Changing one object and the releases that hold it.\<close>

lemma entries_ok_cong:
  assumes "entries_ok m os" "length os' = length os" "\<And>j. j < length os \<Longrightarrow> pe_retired (os' ! j) = pe_retired (os ! j)"
  shows "entries_ok m os'"
  using assms(1) unfolding entries_ok_def assms(2) using assms(3) by metis

lemma holds_ok_update:
  assumes ok: "holds_ok os R" and i: "i < length os"
    and h: "pe_holders e = int (count R' (Hold i))" and R: "\<And>j. j \<noteq> i \<Longrightarrow> count R' (Hold j) = count R (Hold j)"
  shows "holds_ok (os[i := e]) R'"
  unfolding holds_ok_def length_list_update
proof (intro conjI allI impI)
  fix j assume j: "j < length os"
  then have "pe_holders (os ! j) = int (count R (Hold j))" using ok by (simp add: holds_ok_def)
  then show "pe_holders (os[i := e] ! j) = int (count R' (Hold j))" using h R [of j] j by (cases "i = j") simp_all
next
  fix j assume j: "Hold j \<in># R'"
  show "j < length os"
  proof (cases "j = i")
    case False
    then have "0 < count R (Hold j)" using j R [OF False] by (metis count_greater_zero_iff)
    then show ?thesis using ok by (simp add: holds_ok_def)
  qed (use i in simp)
qed

lemma pool_inv_update:
  assumes "pool_inv p R" "i < length (bp_objects p)" "pe_retired e = pe_retired (bp_objects p ! i)"
    and "pe_holders e = int (count R' (Hold i))" "\<And>j. j \<noteq> i \<Longrightarrow> count R' (Hold j) = count R (Hold j)"
  shows "pool_inv (p\<lparr>bp_objects := (bp_objects p)[i := e]\<rparr>) R'"
proof -
  have "pe_retired ((bp_objects p)[i := e] ! j) = pe_retired (bp_objects p ! j)" if "j < length (bp_objects p)" for j
    using assms(3) that by (cases "i = j") simp_all
  then have "entries_ok (bp_entries p) ((bp_objects p)[i := e])"
    using entries_ok_cong [of "bp_entries p" "bp_objects p"] assms(1) by (simp add: pool_inv_def)
  moreover have "holds_ok ((bp_objects p)[i := e]) R'"
    by (rule holds_ok_update [OF _ assms(2,4,5)]) (use assms(1) in \<open>simp_all add: pool_inv_def\<close>)
  ultimately show ?thesis by (simp add: pool_inv_def)
qed

lemma moves_update:
  assumes inv: "pool_inv p R" and i: "i < length (bp_objects p)" and same: "same_build (bp_objects p ! i) e"
    and e: "pe_retired e = pe_retired (bp_objects p ! i)"
    and h: "pe_holders e = int (count R' (Hold i))" and R: "\<And>j. j \<noteq> i \<Longrightarrow> count R' (Hold j) = count R (Hold j)"
    and own: "owners R' = owners R"
    and c: "mset closed + (if live e then {#pe_backend e#} else {#})
      = (if live (bp_objects p ! i) then {#pe_backend (bp_objects p ! i)#} else {#})"
  shows "moves p R {#} (p\<lparr>bp_objects := (bp_objects p)[i := e]\<rparr>) R' closed"
proof -
  let ?q = "p\<lparr>bp_objects := (bp_objects p)[i := e]\<rparr>" and ?l = "if live e then {#pe_backend e#} else {#}"
  have "owned ?q + (mset closed + ?l) = owned p + ?l" unfolding c by (rule owned_update [OF i])
  then have "owned p = owned ?q + mset closed" by (metis (no_types, lifting) add.assoc add_right_cancel)
  then show ?thesis
    using pool_inv_update [OF inv i e h R] objects_keep_update [OF same] own by (simp add: moves_def ac_simps)
qed

lemma moves_touch:
  assumes "pool_inv p R" "map_of (bp_entries p) k = Some i"
  shows "moves p R {#} (p\<lparr>bp_objects := (bp_objects p)[i := (bp_objects p ! i)\<lparr>pe_lastUsed := now\<rparr>]\<rparr>) R []"
  using pool_inv_entry [OF assms] pool_inv_holders [OF assms(1)]
  by (intro moves_update [OF assms(1)]) (simp_all add: same_build_def live_def)

lemma moves_hold:
  assumes "pool_inv p R" "map_of (bp_entries p) k = Some i"
  shows "moves p R {#} (snd (holdLocked i p)) (add_mset (Hold i) R) []"
  unfolding holdLocked_def Let_def snd_conv
  using pool_inv_entry [OF assms] pool_inv_holders [OF assms(1)]
  by (intro moves_update [OF assms(1)]) (simp_all add: same_build_def live_def)

lemma owners_remove: "r \<in># R \<Longrightarrow> owners R = own_part r + owners (R - {#r#})"
  using owners_simps(2) [of r "R - {#r#}"] by simp

lemma moves_release:
  assumes "pool_inv p R" "r \<in># R"
  shows "moves p R {#} (snd (run_release r p)) (R - {#r#}) (map fst (fst (run_release r p)))"
proof (cases r)
  case (Hold i)
  let ?e = "bp_objects p ! i"
  have i: "i < length (bp_objects p)" using pool_inv_hold assms Hold by blast
  obtain m where m: "count R (Hold i) = Suc m" using assms(2) Hold by (meson count_eq_zero_iff not0_implies_Suc)
  then have h: "pe_holders ?e = 1 + int m" using pool_inv_holders [OF assms(1) i] by simp
  have own: "owners (R - {#Hold i#}) = owners R" using owners_remove [OF assms(2)] Hold by simp
  show ?thesis unfolding Hold run_release.simps Let_def snd_conv fst_conv
    by (rule moves_update [OF assms(1) i]) (use h m own in \<open>auto simp: same_build_def live_def\<close>)
next
  case (Owning b reason)
  moreover have "pool_inv p (R - {#r#})" using assms(1) Owning by (auto simp: pool_inv_def holds_ok_def dest: in_diffD)
  ultimately show ?thesis using owners_remove [OF assms(2)] by (simp add: moves_def)
next
  case (Unguarded b reason)
  moreover have "pool_inv p (R - {#r#})" using assms(1) Unguarded by (auto simp: pool_inv_def holds_ok_def dest: in_diffD)
  ultimately show ?thesis using owners_remove [OF assms(2)] by (simp add: moves_def)
qed

lemma entries_ok_retire:
  assumes ok: "entries_ok m os" and k: "map_of m k = Some i" and e: "pe_retired e"
  shows "entries_ok (AList.delete k m) (os[i := e])"
  unfolding entries_ok_def length_list_update
proof (intro conjI allI impI)
  fix k' j assume "map_of (AList.delete k m) k' = Some j"
  then have k': "k' \<noteq> k" "map_of m k' = Some j" by (simp_all split: if_splits)
  then have "j \<noteq> i" using ok k by (auto simp: entries_ok_def)
  then show "j < length os" "\<not> pe_retired (os[i := e] ! j)" using ok k'(2) by (auto simp: entries_ok_def)
next
  fix k1 k2 j assume "map_of (AList.delete k m) k1 = Some j" "map_of (AList.delete k m) k2 = Some j"
  then have "map_of m k1 = Some j" "map_of m k2 = Some j" by (simp_all split: if_splits)
  then show "k1 = k2" using ok by (auto simp: entries_ok_def)
next
  fix j assume j: "j < length os" "\<not> pe_retired (os[i := e] ! j)"
  then have "j \<noteq> i" using e by auto
  then obtain k' where "map_of m k' = Some j" using ok j by (auto simp: entries_ok_def)
  then show "\<exists>k'. map_of (AList.delete k m) k' = Some j" using k \<open>j \<noteq> i\<close> by (intro exI [of _ k']) auto
qed

lemma moves_retire:
  assumes inv: "pool_inv p R"
  shows "moves p R {#} (snd (retireLocked k reason now p)) R (map fst (closes_of (fst (retireLocked k reason now p)) reason'))"
proof (cases "map_of (bp_entries p) k")
  case None
  then show ?thesis using moves_frame [OF inv] by (simp add: retireLocked_def Let_def closes_of_def)
next
  case (Some i)
  let ?e = "(bp_objects p ! i)\<lparr>pe_retired := True, pe_retireReason := reason\<rparr>"
  let ?os = "(bp_objects p)[i := ?e]" and ?q = "snd (retireLocked k reason now p)"
  let ?c = "closes_of (fst (retireLocked k reason now p)) reason'"
  have q: "bp_objects ?q = ?os" "bp_entries ?q = AList.delete k (bp_entries p)"
    using Some by (simp_all add: retireLocked_def Let_def)
  note i = pool_inv_entry [OF inv Some]
  have ok: "entries_ok (bp_entries p) (bp_objects p)" "holds_ok (bp_objects p) R" using inv by (simp_all add: pool_inv_def)
  have "entries_ok (AList.delete k (bp_entries p)) ?os" by (rule entries_ok_retire [OF ok(1) Some]) simp
  moreover have "holds_ok ?os R" by (rule holds_ok_update [OF ok(2) i(1)]) (use pool_inv_holders [OF inv i(1)] in simp_all)
  ultimately have inv': "pool_inv ?q R" by (simp add: pool_inv_def q)
  have keep: "objects_keep p ?q"
    using objects_keep_update [of p i ?e] by (simp add: objects_keep_def q same_build_def)
  have "mset (map fst ?c) + (if live ?e then {#pe_backend ?e#} else {#}) = {#pe_backend (bp_objects p ! i)#}"
    using Some pool_inv_holders [OF inv i(1)] by (simp add: retireLocked_def Let_def closes_of_def live_def)
  moreover have "owned ?q + {#pe_backend (bp_objects p ! i)#} = owned p + (if live ?e then {#pe_backend ?e#} else {#})"
    using owned_update [OF i(1), of ?e] i(3) by (simp add: owned_def q)
  ultimately have "owned p = owned ?q + mset (map fst ?c)" by (metis (no_types, lifting) add.assoc add_right_cancel)
  then show ?thesis using inv' keep by (simp add: moves_def ac_simps)
qed

lemma moves_generation: "pool_inv p R \<Longrightarrow> moves p R {#} (snd (generationLocked k now p)) R []"
  by (rule moves_frame) simp_all

lemma moves_expire: "pool_inv p R \<Longrightarrow> moves p R {#} (pruneExpiredTombstonesLocked now p) R []"
  by (rule moves_frame) (simp_all add: pruneExpiredTombstonesLocked_def)

lemma moves_inv: "moves p R b q R' c \<Longrightarrow> pool_inv q R'"
  by (simp add: moves_def)

lemma moves_prune_entry:
  assumes "moves p R {#} (snd st) R (fst st)"
  shows "moves p R {#} (snd (prune_entry now k st)) R (fst (prune_entry now k st))"
proof -
  obtain stale q where st: "st = (stale, q)" by fastforce
  note r = moves_trans [OF assms moves_retire [OF moves_inv [OF assms], of k "''ttl expired''" now "[]"]]
  show ?thesis using assms r
    by (auto simp: prune_entry_def st Let_def closes_of_def split: option.splits prod.splits)
qed

lemma moves_prune:
  assumes "pool_inv p R"
  shows "moves p R {#} (snd (pruneStaleEntriesLocked now p)) R (fst (pruneStaleEntriesLocked now p))"
proof -
  have "moves p R {#} (snd st) R (fst st) \<Longrightarrow> moves p R {#} (snd (fold (prune_entry now) ks st)) R (fst (fold (prune_entry now) ks st))" for ks st
    by (induction ks arbitrary: st) (simp_all add: moves_prune_entry)
  from this [of "([], p)" "map fst (bp_entries p)"] moves_refl [OF assms]
  have f: "moves p R {#} (snd (fold (prune_entry now) (map fst (bp_entries p)) ([], p))) R
      (fst (fold (prune_entry now) (map fst (bp_entries p)) ([], p)))" by simp
  show ?thesis using moves_trans [OF f moves_expire [OF moves_inv [OF f], of now]]
    by (simp add: pruneStaleEntriesLocked_def split_beta)
qed

section \<open>Conservation by every operation\<close>

abbreviation releases :: "(backend \<times> release) list \<Rightarrow> release multiset" where
  "releases us \<equiv> mset (map snd us)"

definition user_ok :: "backend_pool \<Rightarrow> backend \<times> release \<Rightarrow> bool" where
  "user_ok p u \<longleftrightarrow> release_backend p (snd u) = fst u"

lemma user_ok_keep:
  assumes "objects_keep p q" "pool_inv p R" "snd u \<in># R" "user_ok p u"
  shows "user_ok q u"
proof (cases "snd u")
  case (Hold i)
  then have "i < length (bp_objects p)" using pool_inv_hold assms(2,3) by simp
  then show ?thesis using assms(1,4) Hold by (simp add: user_ok_def objects_keep_def same_build_def)
qed (use assms(4) in \<open>simp_all add: user_ok_def\<close>)

definition lookup_ok :: "backend_pool \<Rightarrow> release multiset \<Rightarrow> poolLookup \<Rightarrow> closes \<Rightarrow> backend_pool \<Rightarrow> bool" where
  "lookup_ok p R look closed q \<longleftrightarrow> moves p R {#} q (releases (new_users look) + R) (map fst closed) \<and> list_all (user_ok q) (new_users look)"

lemma lookup_entry_ok:
  assumes inv: "pool_inv p R" and i: "map_of (bp_entries p) key = Some i" and look: "pl_hit look = None"
    and r: "lookup_entry key h k g force now i look p = (look', closed, q)"
  shows "lookup_ok p R look' closed q"
proof -
  let ?e = "bp_objects p ! i"
  let ?p1 = "snd (if force then (0, p) else generationLocked key now p)"
  let ?pt = "p\<lparr>bp_objects := (bp_objects p)[i := ?e\<lparr>pe_lastUsed := now\<rparr>]\<rparr>"
  have g: "moves p R {#} ?p1 R []" using moves_generation [OF inv] moves_refl [OF inv] by simp
  note t = moves_touch [OF inv i, of now]
  have h: "moves p R {#} (snd (holdLocked i ?pt)) (add_mset (Hold i) R) []"
    using moves_trans [OF t moves_hold [OF moves_inv [OF t]]] i by simp
  have b: "pe_backend (bp_objects (snd (holdLocked i ?pt)) ! i) = pe_backend ?e"
    using pool_inv_entry(1) [OF inv i] by (simp add: holdLocked_def Let_def)
  have ret: "moves p R {#} (snd (retireLocked key reason now ?p1)) R (map fst (closes_of (fst (retireLocked key reason now ?p1)) reason))" for reason
    using moves_trans [OF g moves_retire [OF moves_inv [OF g]]] by simp
  consider "pe_key ?e = k" | "pe_key ?e \<noteq> k" "\<not> force \<and> fst (generationLocked key now p) \<noteq> g"
    | "pe_key ?e \<noteq> k" "\<not> (\<not> force \<and> fst (generationLocked key now p) \<noteq> g)" by blast
  then show ?thesis
  proof cases
    case 1
    then have "look' = look\<lparr>pl_hit := Some (pe_backend ?e), pl_release := Some (Hold i)\<rparr>" "closed = []" "q = snd (holdLocked i ?pt)"
      using r by (auto simp: lookup_entry_def Let_def split_beta holdLocked_def)
    then show ?thesis using h b by (simp add: lookup_ok_def new_users_def user_ok_def)
  next
    case 2
    then have "look' = look\<lparr>pl_reread := True, pl_staleKey := pe_key ?e\<rparr>" "closed = []" "q = ?p1"
      using r by (auto simp: lookup_entry_def Let_def split_beta)
    then show ?thesis using g look by (simp add: lookup_ok_def new_users_def)
  next
    case 3
    let ?reason = "if pe_specHash ?e = h then ''referenced secret change'' else ''spec hash change''"
    have nf: "\<not> (\<not> force \<and> fst (if force then (0, p) else generationLocked key now p) \<noteq> g)" using 3(2) by (cases force) simp_all
    have "lookup_entry key h k g force now i look p = (look\<lparr>pl_previous := if pe_specHash ?e = h then Some (pe_secrets ?e) else None\<rparr>,
      closes_of (fst (retireLocked key ?reason now ?p1)) ?reason, snd (retireLocked key ?reason now ?p1))"
      by (simp only: lookup_entry_def Let_def split_beta if_not_P [OF 3(1)] if_not_P [OF nf])
    then have "pl_hit look' = None" "closed = closes_of (fst (retireLocked key ?reason now ?p1)) ?reason"
      "q = snd (retireLocked key ?reason now ?p1)"
      using r look by simp_all
    then show ?thesis using ret by (simp add: lookup_ok_def new_users_def)
  qed
qed

lemma lookup_ok_trans:
  assumes "moves p R {#} q R c" "lookup_ok q R look closed r" "moves r (releases (new_users look) + R) {#} r' (releases (new_users look) + R) []"
    and "new_users look' = new_users look"
  shows "moves p R {#} r' (releases (new_users look') + R) (c @ map fst closed) \<and> list_all (user_ok r') (new_users look')"
proof
  have m: "moves p R {#} r (releases (new_users look) + R) (c @ map fst closed)"
    using moves_trans [OF assms(1)] assms(2) by (fastforce simp: lookup_ok_def)
  show "moves p R {#} r' (releases (new_users look') + R) (c @ map fst closed)" using moves_trans [OF m assms(3)] assms(4) by simp
  have keep: "objects_keep r r'" using assms(3) by (simp add: moves_def)
  show "list_all (user_ok r') (new_users look')"
    using assms(2,4) user_ok_keep [OF keep moves_inv [OF m]] by (auto simp: lookup_ok_def list_all_iff)
qed

lemma lookup_moves:
  assumes inv: "pool_inv p R" and r: "lookupOrRetire key h k g force now p = (look, closed, q)"
  shows "moves p R {#} q (releases (new_users look) + R) (map fst closed) \<and> list_all (user_ok q) (new_users look)"
proof -
  let ?l0 = "\<lparr>pl_hit = None, pl_release = None, pl_previous = None, pl_generation = 0, pl_now = now, pl_reread = False, pl_staleKey = []\<rparr>"
  let ?p1 = "snd (pruneStaleEntriesLocked now p)" and ?c1 = "fst (pruneStaleEntriesLocked now p)"
  let ?x = "case map_of (bp_entries ?p1) key of None \<Rightarrow> (?l0, [], ?p1) | Some i \<Rightarrow> lookup_entry key h k g force now i ?l0 ?p1"
  note m1 = moves_prune [OF inv, of now]
  note inv1 = moves_inv [OF m1]
  have x: "lookup_ok ?p1 R (fst ?x) (fst (snd ?x)) (snd (snd ?x))"
  proof (cases "map_of (bp_entries ?p1) key")
    case None
    then show ?thesis using moves_refl [OF inv1] by (simp add: lookup_ok_def new_users_def)
  next
    case (Some i)
    show ?thesis using lookup_entry_ok [OF inv1 Some, of ?l0 h k g force now] Some by simp
  qed
  let ?p3 = "snd (generationLocked key now (snd (snd ?x)))"
  have look: "look = (fst ?x)\<lparr>pl_generation := fst (generationLocked key now (snd (snd ?x)))\<rparr>"
    "closed = map (\<lambda>b. (b, ''ttl expired'')) ?c1 @ fst (snd ?x)" "q = ?p3"
    using r by (auto simp: lookupOrRetire_def Let_def split_beta)
  have g: "moves (snd (snd ?x)) (releases (new_users (fst ?x)) + R) {#} ?p3 (releases (new_users (fst ?x)) + R) []"
    by (rule moves_generation) (use x in \<open>simp add: lookup_ok_def moves_def\<close>)
  have "new_users look = new_users (fst ?x)" by (simp add: look(1) new_users_def)
  from lookup_ok_trans [OF m1 x g this] show ?thesis by (simp add: look(2,3) comp_def)
qed

lemma moves_surplus: "moves p R {#} q R' [] \<Longrightarrow> moves p R {#b#} q R' [b]"
  by (simp add: moves_def)

lemma holds_ok_owning: "holds_ok os R \<Longrightarrow> holds_ok os (add_mset (Owning b reason) R)"
  by (simp add: holds_ok_def)

lemma moves_owning: "pool_inv p R \<Longrightarrow> moves p R {#b#} p (add_mset (Owning b reason) R) []"
  by (simp add: moves_def pool_inv_def holds_ok_owning)

lemma entries_ok_new:
  assumes ok: "entries_ok m os" and k: "map_of m k = None" and e: "\<not> pe_retired e"
  shows "entries_ok (AList.update k (length os) m) (os @ [e])"
  unfolding entries_ok_def
proof (intro conjI allI impI)
  fix k' j assume "map_of (AList.update k (length os) m) k' = Some j"
  then have "j = length os \<or> j < length os \<and> \<not> pe_retired (os ! j)"
    using ok by (auto simp: entries_ok_def split: if_splits)
  then show "j < length (os @ [e])" "\<not> pe_retired ((os @ [e]) ! j)" using e by (auto simp: nth_append)
next
  fix k1 k2 j assume "map_of (AList.update k (length os) m) k1 = Some j" "map_of (AList.update k (length os) m) k2 = Some j"
  then show "k1 = k2" using ok by (auto simp: entries_ok_def split: if_splits)
next
  fix j assume "j < length (os @ [e])" "\<not> pe_retired ((os @ [e]) ! j)"
  then have "j = length os \<or> (\<exists>k'. map_of m k' = Some j)" using ok by (auto simp: entries_ok_def nth_append split: if_splits)
  then show "\<exists>k'. map_of (AList.update k (length os) m) k' = Some j"
  proof
    assume "\<exists>k'. map_of m k' = Some j"
    then obtain k' where "map_of m k' = Some j" by blast
    then show ?thesis using k by (intro exI [of _ k']) auto
  qed auto
qed

lemma moves_new:
  assumes inv: "pool_inv p R" and k: "map_of (bp_entries p) key = None" and e: "\<not> pe_retired entry" "pe_holders entry = 0"
  defines "q \<equiv> p\<lparr>bp_objects := bp_objects p @ [entry], bp_entries := AList.update key (length (bp_objects p)) (bp_entries p)\<rparr>"
  shows "moves p R {#pe_backend entry#} q R []"
proof -
  have ok: "entries_ok (bp_entries p) (bp_objects p)" "holds_ok (bp_objects p) R" using inv by (simp_all add: pool_inv_def)
  have "count R (Hold (length (bp_objects p))) = 0" using ok(2) by (auto simp: holds_ok_def not_in_iff [symmetric])
  then have "holds_ok (bp_objects p @ [entry]) R"
    using ok(2) e(2) by (auto simp: holds_ok_def nth_append less_Suc_eq)
  moreover have "objects_keep p q" by (simp add: objects_keep_def q_def nth_append)
  moreover have "owned q = add_mset (pe_backend entry) (owned p)" using e by (simp add: owned_def q_def live_def)
  ultimately show ?thesis using entries_ok_new [OF ok(1) k e(1)] by (simp add: moves_def pool_inv_def q_def)
qed

lemma store_moves:
  assumes inv: "pool_inv p R" and e: "\<not> pe_retired entry" "pe_holders entry = 0"
    and r: "storePooledBackend key g entry p = (stored, rel, discard, q)"
  shows "moves p R {#pe_backend entry#} q (add_mset rel R) (map fst (closes_of discard reason)) \<and> user_ok q (stored, rel)"
proof -
  let ?own = "\<exists>reason. stored = pe_backend entry \<and> rel = Owning (pe_backend entry) reason \<and> discard = None \<and> q = p"
  have own: ?thesis if ?own using that moves_owning [OF inv] by (auto simp: closes_of_def user_ok_def)
  show ?thesis
  proof (cases "map_of (bp_tombstones p) key")
    case (Some t)
    then have ?own using r by (auto simp: storePooledBackend_def owningRelease_def)
    then show ?thesis by (rule own)
  next
    case tomb: None
    show ?thesis
    proof (cases "map_of (bp_entries p) key")
      case (Some i)
      let ?pt = "p\<lparr>bp_objects := (bp_objects p)[i := (bp_objects p ! i)\<lparr>pe_lastUsed := pe_lastUsed entry\<rparr>]\<rparr>"
      show ?thesis
      proof (cases "pe_key (bp_objects p ! i) = pe_key entry")
        case True
        then have q: "stored = pe_backend (bp_objects p ! i)" "rel = Hold i" "discard = Some (pe_backend entry)" "q = snd (holdLocked i ?pt)"
          using r tomb Some by (auto simp: storePooledBackend_def Let_def split_beta holdLocked_def)
        note t = moves_touch [OF inv Some, of "pe_lastUsed entry"]
        have "moves p R {#} q (add_mset (Hold i) R) []" using moves_trans [OF t moves_hold [OF moves_inv [OF t]]] Some q(4) by simp
        then show ?thesis using q pool_inv_entry(1) [OF inv Some] moves_surplus
          by (simp add: closes_of_def user_ok_def holdLocked_def Let_def)
      next
        case False
        then have ?own using r tomb Some by (auto simp: storePooledBackend_def owningRelease_def)
        then show ?thesis by (rule own)
      qed
    next
      case None
      show ?thesis
      proof (cases "generation_value key p = g")
        case True
        let ?i = "length (bp_objects p)"
        let ?p1 = "p\<lparr>bp_objects := bp_objects p @ [entry], bp_entries := AList.update key ?i (bp_entries p)\<rparr>"
        let ?p2 = "bumpGenerationLocked key (pe_lastUsed entry) ?p1"
        have q: "stored = pe_backend entry" "rel = Hold ?i" "discard = None" "q = snd (holdLocked ?i ?p2)"
          using r tomb None True by (auto simp: storePooledBackend_def Let_def split_beta holdLocked_def)
        note n = moves_new [OF inv None e]
        have m2: "moves ?p1 R {#} ?p2 R []" by (rule moves_frame [OF moves_inv [OF n]]) simp_all
        have "map_of (bp_entries ?p2) key = Some ?i" by simp
        from moves_trans [OF n moves_trans [OF m2 moves_hold [OF moves_inv [OF m2] this]]]
        have "moves p R {#pe_backend entry#} q (add_mset (Hold ?i) R) []" using q(4) by simp
        then show ?thesis using q by (simp add: closes_of_def user_ok_def holdLocked_def Let_def)
      next
        case False
        then have ?own using r tomb None by (auto simp: storePooledBackend_def owningRelease_def)
        then show ?thesis by (rule own)
      qed
    qed
  qed
qed

lemma retire_moves:
  assumes "pool_inv p R" "retirePoolEntry key g force reason now p = (retired, staleKey, closed, q)"
  shows "moves p R {#} q R (map fst closed)"
proof -
  note g = moves_generation [OF assms(1), of key now]
  note r = moves_retire [OF assms(1), of key reason now reason] moves_trans [OF g moves_retire [OF moves_inv [OF g], of key reason now reason]]
  show ?thesis using assms(2) g r by (auto simp: retirePoolEntry_def Let_def split_beta split: option.splits if_splits)
qed

lemma retire_key_moves:
  "pool_inv p R \<Longrightarrow> retireEntryWithKey key entryKey reason now p = (closed, q) \<Longrightarrow> moves p R {#} q R (map fst closed)"
  using moves_retire [of p R key reason now reason] moves_refl [of p R]
  by (auto simp: retireEntryWithKey_def Let_def split_beta split: option.splits if_splits)

lemma evict_moves: "pool_inv p R \<Longrightarrow> evictPoolKey key now p = (closed, q) \<Longrightarrow> moves p R {#} q R (map fst closed)"
  using moves_retire [of p R key "''explicit eviction''" now "''explicit eviction''"] by (auto simp: evictPoolKey_def Let_def split_beta)

lemma delete_moves:
  assumes "pool_inv p R" "evictPoolKeyForDelete key now p = (closed, q)"
  shows "moves p R {#} q R (map fst closed)"
proof -
  let ?r = "retireLocked key ''sink delete eviction'' now p"
  let ?p2 = "(snd ?r)\<lparr>bp_tombstones := AList.update key now (bp_tombstones (snd ?r))\<rparr>"
  note r = moves_retire [OF assms(1), of key "''sink delete eviction''" now "''sink delete eviction''"]
  have t: "moves (snd ?r) R {#} ?p2 R []" by (rule moves_frame [OF moves_inv [OF r]]) simp_all
  show ?thesis using moves_trans [OF r moves_trans [OF t moves_expire [OF moves_inv [OF t], of now]]] assms(2)
    by (auto simp: evictPoolKeyForDelete_def Let_def split_beta)
qed

section \<open>The invariant of every run\<close>

definition state_inv :: "pool_state \<Rightarrow> bool" where
  "state_inv s \<longleftrightarrow> pool_inv (ps_pool s) (releases (ps_users s)) \<and> list_all (user_ok (ps_pool s)) (ps_users s)
     \<and> owned (ps_pool s) + owners (releases (ps_users s)) + mset (ps_builds s) + mset (ps_closed s) = mset [0..<ps_next s]"

lemma state_inv_pool: "state_inv s \<Longrightarrow> pool_inv (ps_pool s) (releases (ps_users s))"
  by (simp add: state_inv_def)

lemma state_inv_moves:
  assumes inv: "state_inv s" and m: "moves (ps_pool s) (releases (ps_users s)) built q (releases us) closed"
    and builds: "mset (ps_builds s) = built + mset builds"
    and old: "\<And>u. u \<in> set us \<Longrightarrow> u \<in> set (ps_users s) \<or> user_ok q u"
  shows "state_inv (s\<lparr>ps_pool := q, ps_users := us, ps_builds := builds, ps_closed := ps_closed s @ closed\<rparr>)"
proof -
  have users: "user_ok q u" if "u \<in> set us" for u
  proof (cases "u \<in> set (ps_users s)")
    case True
    then have "snd u \<in># releases (ps_users s)" by simp
    then show ?thesis using user_ok_keep [of "ps_pool s" q "releases (ps_users s)" u] inv m True
      by (auto simp: state_inv_def moves_def list_all_iff)
  qed (use old [OF that] in blast)
  have "owned q + owners (releases us) + mset builds + mset (ps_closed s @ closed)
      = (owned q + owners (releases us) + mset closed) + mset builds + mset (ps_closed s)" by (simp add: ac_simps)
  also have "\<dots> = owned (ps_pool s) + owners (releases (ps_users s)) + (built + mset builds) + mset (ps_closed s)"
    using m by (simp add: moves_def ac_simps)
  also have "\<dots> = mset [0..<ps_next s]" using inv unfolding state_inv_def builds by blast
  finally show ?thesis unfolding state_inv_def
    by (intro conjI) (use m users in \<open>simp_all add: moves_def list_all_iff\<close>)
qed

lemma state_inv_keep:
  assumes "state_inv s" "moves (ps_pool s) (releases (ps_users s)) {#} q (releases (ps_users s)) closed"
  shows "state_inv (s\<lparr>ps_pool := q, ps_closed := ps_closed s @ closed\<rparr>)"
  using state_inv_moves [OF assms, of "ps_builds s"] by simp

lemma state_inv_step: "pool_step s s' \<Longrightarrow> state_inv s \<Longrightarrow> state_inv s'"
proof (induction rule: pool_step.induct)
  case (read_generation s key now)
  then have "pool_inv (ps_pool s) (releases (ps_users s))" by (simp add: state_inv_def)
  from state_inv_keep [OF read_generation moves_generation [OF this, of key now]] show ?case by (simp add: poolGenerationOf_def)
next
  case (look_up key specHash entryKey g force now s look closed p)
  then have "pool_inv (ps_pool s) (releases (ps_users s))" by (simp add: state_inv_def)
  from lookup_moves [OF this look_up.hyps]
  have m: "moves (ps_pool s) (releases (ps_users s)) {#} p (releases (new_users look @ ps_users s)) (map fst closed)"
    "list_all (user_ok p) (new_users look)" by simp_all
  have "state_inv (s\<lparr>ps_pool := p, ps_users := new_users look @ ps_users s, ps_builds := ps_builds s, ps_closed := ps_closed s @ map fst closed\<rparr>)"
    by (rule state_inv_moves [OF look_up.prems m(1)]) (use m(2) in \<open>auto simp: list_all_iff\<close>)
  then show ?case by simp
next
  case (build s)
  then show ?case by (simp add: state_inv_def)
next
  case (store b s key g specHash built now stored rel discard p)
  then have inv: "pool_inv (ps_pool s) (releases (ps_users s))" by (simp add: state_inv_def)
  have "\<not> pe_retired (built_entry b specHash built now)" "pe_holders (built_entry b specHash built now) = 0"
    by (simp_all add: built_entry_def)
  from store_moves [OF inv this store.hyps(2), of "''duplicate pool backend''"]
  have m: "moves (ps_pool s) (releases (ps_users s)) {#b#} p (releases ((stored, rel) # ps_users s))
      (map fst (closes_of discard ''duplicate pool backend''))" "user_ok p (stored, rel)" by (simp_all add: built_entry_def)
  show ?case by (rule state_inv_moves [OF store.prems m(1)]) (use m(2) store.hyps(1) in auto)
next
  case (release b r s closed p)
  then have inv: "pool_inv (ps_pool s) (releases (ps_users s))" by (simp add: state_inv_def)
  have r: "r \<in># releases (ps_users s)" using release.hyps(1) by force
  have "releases (remove1 (b, r) (ps_users s)) = releases (ps_users s) - {#r#}"
    using release.hyps(1) by (simp add: image_mset_Diff)
  then have m: "moves (ps_pool s) (releases (ps_users s)) {#} p (releases (remove1 (b, r) (ps_users s))) (map fst closed)"
    using moves_release [OF inv r] release.hyps(2) by simp
  have "state_inv (s\<lparr>ps_pool := p, ps_users := remove1 (b, r) (ps_users s), ps_builds := ps_builds s, ps_closed := ps_closed s @ map fst closed\<rparr>)"
    by (rule state_inv_moves [OF release.prems m]) (auto dest: notin_set_remove1 set_remove1_subset [THEN subsetD])
  then show ?case by simp
next
  case (retire key g force reason now s retired staleKey closed p)
  from state_inv_keep [OF retire.prems retire_moves [OF state_inv_pool [OF retire.prems] retire.hyps]] show ?case .
next
  case (retire_key key entryKey reason now s closed p)
  from state_inv_keep [OF retire_key.prems retire_key_moves [OF state_inv_pool [OF retire_key.prems] retire_key.hyps]] show ?case .
next
  case (evict key now s closed p)
  from state_inv_keep [OF evict.prems evict_moves [OF state_inv_pool [OF evict.prems] evict.hyps]] show ?case .
next
  case (delete key now s closed p)
  from state_inv_keep [OF delete.prems delete_moves [OF state_inv_pool [OF delete.prems] delete.hyps]] show ?case .
qed

lemma state_inv_reachable: "pool_reachable s \<Longrightarrow> state_inv s"
proof (induction rule: pool_reachable.induct)
  case start
  show ?case by (simp add: state_inv_def initial_pool_state_def pool_inv_def entries_ok_def holds_ok_def globalBackendPool_def owned_def)
qed (rule state_inv_step)

text \<open>What the conservation law says: no backend is in two places.\<close>

lemma state_inv_count:
  assumes "state_inv s"
  shows "count (owned (ps_pool s)) b + count (owners (releases (ps_users s))) b + count (mset (ps_builds s)) b + count (mset (ps_closed s)) b
    = (if b < ps_next s then 1 else 0)"
proof -
  have "count (owned (ps_pool s) + owners (releases (ps_users s)) + mset (ps_builds s) + mset (ps_closed s)) b = count (mset [0..<ps_next s]) b"
    using assms unfolding state_inv_def by (elim conjE) (rule arg_cong)
  moreover have "count (mset [0..<ps_next s]) b = (if b < ps_next s then 1 else 0)"
    using distinct_count_atmost_1 [of "[0..<ps_next s]"] by (simp del: mset_upt)
  ultimately show ?thesis by (simp only: count_union)
qed

lemma state_inv_count_le:
  assumes "state_inv s"
  shows "count (owned (ps_pool s)) b + count (owners (releases (ps_users s))) b + count (mset (ps_builds s)) b + count (mset (ps_closed s)) b \<le> 1"
  unfolding state_inv_count [OF assms] by simp

lemma user_owned:
  assumes inv: "state_inv s" and u: "(b, r) \<in> set (ps_users s)"
  shows "b \<in># owned (ps_pool s) + owners (releases (ps_users s))"
proof -
  have r: "r \<in># releases (ps_users s)" using u by force
  have b: "release_backend (ps_pool s) r = b" using inv u by (auto simp: state_inv_def list_all_iff user_ok_def)
  show ?thesis
  proof (cases r)
    case (Hold i)
    note i = pool_inv_hold [OF state_inv_pool [OF inv] r [unfolded Hold]]
    have "live (bp_objects (ps_pool s) ! i)"
      using pool_inv_holders [OF state_inv_pool [OF inv] i] r Hold by (simp add: live_def)
    then show ?thesis using i b Hold by (force simp: owned_def)
  qed (use owners_remove [OF r] b in auto)
qed

lemma pooled_owned:
  assumes "state_inv s" "map_of (bp_entries (ps_pool s)) k = Some i"
  shows "pe_backend (bp_objects (ps_pool s) ! i) \<in># owned (ps_pool s)"
  using pool_inv_entry [OF state_inv_pool [OF assms(1)] assms(2)] by (force simp: owned_def)

lemma closed_apart:
  assumes "state_inv s" "b \<in># owned (ps_pool s) + owners (releases (ps_users s))"
  shows "b \<notin> set (ps_closed s)"
proof
  assume "b \<in> set (ps_closed s)"
  then have "0 < count (mset (ps_closed s)) b" by simp
  moreover have "0 < count (owned (ps_pool s)) b + count (owners (releases (ps_users s))) b"
    using assms(2) by (metis count_greater_zero_iff count_union)
  ultimately show False using state_inv_count_le [OF assms(1), of b] by linarith
qed

text \<open>C29. No use after close and no double close: in every run of the pool, however lookups, builds,
  stores, releases, retires, evictions and deletions interleave, a backend that an acquirer still
  holds, or that the pool would hand out next, was not closed, and no backend is closed twice.\<close>

theorem pool_never_closes_backend_in_use:
  assumes "pool_reachable s"
  shows "(\<forall>u \<in> set (ps_users s). fst u \<notin> set (ps_closed s))
    \<and> (\<forall>k i. map_of (bp_entries (ps_pool s)) k = Some i \<longrightarrow> pe_backend (bp_objects (ps_pool s) ! i) \<notin> set (ps_closed s))
    \<and> distinct (ps_closed s)"
proof (intro conjI)
  note inv = state_inv_reachable [OF assms]
  show "\<forall>u \<in> set (ps_users s). fst u \<notin> set (ps_closed s)" using closed_apart [OF inv user_owned [OF inv]] by fastforce
  show "\<forall>k i. map_of (bp_entries (ps_pool s)) k = Some i \<longrightarrow> pe_backend (bp_objects (ps_pool s) ! i) \<notin> set (ps_closed s)"
    using closed_apart [OF inv] pooled_owned [OF inv] by (metis union_iff)
  have le: "count (mset (ps_closed s)) b \<le> 1" for b using state_inv_count_le [OF inv, of b] by linarith
  have "count (mset (ps_closed s)) b = (if b \<in> set (ps_closed s) then 1 else 0)" for b
    using le [of b] count_greater_zero_iff [of "mset (ps_closed s)" b] by (cases "b \<in> set (ps_closed s)") (simp_all add: le_Suc_eq)
  then show "distinct (ps_closed s)" by (simp add: distinct_count_atmost_1)
qed

text \<open>Two acquires build for the same sink; the second build is surplus and closed at once.\<close>

definition example_pool :: "pooledEntry list \<Rightarrow> backend_pool" where
  "example_pool os = \<lparr>bp_objects = os, bp_entries = (if os = [] then [] else [(''uid:a'', 0)]), bp_tombstones = [],
     bp_generations = [(''uid:a'', \<lparr>pg_value = (if os = [] then 1 else 2), pg_changed = 5\<rparr>)], bp_counter = (if os = [] then 1 else 2)\<rparr>"

definition example_state :: pool_state where
  "example_state = \<lparr>ps_pool = example_pool [(built_entry 0 ''h'' [] 5)\<lparr>pe_holders := 2\<rparr>], ps_users = [(0, Hold 0), (0, Hold 0)],
     ps_builds = [], ps_closed = [1], ps_next = 2\<rparr>"

lemma example_lookup:
  "lookupOrRetire ''uid:a'' ''h'' ''k'' 0 False 5 globalBackendPool
   = (\<lparr>pl_hit = None, pl_release = None, pl_previous = None, pl_generation = 1, pl_now = 5, pl_reread = False, pl_staleKey = []\<rparr>,
      [], example_pool [])"
  by code_simp

lemma example_reachable: "pool_reachable example_state"
proof -
  let ?s1 = "initial_pool_state\<lparr>ps_pool := example_pool []\<rparr>"
  let ?s3 = "?s1\<lparr>ps_builds := [1, 0], ps_next := 2\<rparr>"
  let ?s4 = "?s3\<lparr>ps_pool := example_pool [(built_entry 0 ''h'' [] 5)\<lparr>pe_holders := 1\<rparr>], ps_users := [(0, Hold 0)], ps_builds := [1]\<rparr>"
  have "pool_step initial_pool_state ?s1"
    using pool_step.look_up [of "''uid:a''" "''h''" "''k''" 0 False 5 initial_pool_state] example_lookup
    by (simp add: initial_pool_state_def new_users_def)
  then have 1: "pool_reachable ?s1" by (rule pool_reachable.step [OF pool_reachable.start])
  have 3: "pool_reachable ?s3"
    using pool_reachable.step [OF pool_reachable.step [OF 1 pool_step.build] pool_step.build]
    by (simp add: initial_pool_state_def numeral_2_eq_2)
  have "storePooledBackend ''uid:a'' 1 (built_entry 0 ''h'' [] 5) (example_pool [])
      = (0, Hold 0, None, example_pool [(built_entry 0 ''h'' [] 5)\<lparr>pe_holders := 1\<rparr>])"
    by (simp add: storePooledBackend_def example_pool_def generation_value_def bumpGenerationLocked_def holdLocked_def built_entry_def)
  with pool_step.store [of 0 ?s3 "''uid:a''" 1 "''h''" "[]" 5] have "pool_step ?s3 ?s4"
    by (simp add: closes_of_def initial_pool_state_def)
  then have 4: "pool_reachable ?s4" by (rule pool_reachable.step [OF 3])
  have "storePooledBackend ''uid:a'' 1 (built_entry 1 ''h'' [] 5) (ps_pool ?s4)
      = (0, Hold 0, Some 1, example_pool [(built_entry 0 ''h'' [] 5)\<lparr>pe_holders := 2\<rparr>])"
    by (simp add: storePooledBackend_def example_pool_def holdLocked_def built_entry_def)
  with pool_step.store [of 1 ?s4 "''uid:a''" 1 "''h''" "[]" 5] have "pool_step ?s4 example_state"
    by (simp add: closes_of_def initial_pool_state_def example_state_def)
  then show ?thesis by (rule pool_reachable.step [OF 4])
qed

theorem pool_never_closes_backend_in_use_witness:
  "pool_reachable example_state \<and> ps_closed example_state = [1] \<and> ps_users example_state \<noteq> []
   \<and> fst (hd (ps_users example_state)) \<notin> set (ps_closed example_state) \<and> distinct (ps_closed example_state)"
  using pool_never_closes_backend_in_use [OF example_reachable] example_reachable by (simp add: example_state_def)

text \<open>C30. No leak: once nobody uses or builds a backend, every backend ever built is either pooled
  or was closed, and never both.\<close>

theorem idle_pool_leaks_nothing:
  assumes "pool_reachable s" and "ps_users s = []" and "ps_builds s = []" and "b < ps_next s"
  shows "b \<in> set (ps_closed s) \<longleftrightarrow>
    \<not> (\<exists>k i. map_of (bp_entries (ps_pool s)) k = Some i \<and> pe_backend (bp_objects (ps_pool s) ! i) = b)"
proof -
  note inv = state_inv_reachable [OF assms(1)]
  have c: "count (owned (ps_pool s)) b + count (mset (ps_closed s)) b = 1" using state_inv_count [OF inv, of b] assms(2-4) by simp
  have idle: "pe_holders (bp_objects (ps_pool s) ! i) = 0" if "i < length (bp_objects (ps_pool s))" for i
    using pool_inv_holders [OF state_inv_pool [OF inv] that] assms(2) by simp
  have "b \<in># owned (ps_pool s) \<longleftrightarrow> (\<exists>k i. map_of (bp_entries (ps_pool s)) k = Some i \<and> pe_backend (bp_objects (ps_pool s) ! i) = b)" (is "?l = ?r")
  proof
    assume ?l
    then obtain i where i: "i < length (bp_objects (ps_pool s))" "live (bp_objects (ps_pool s) ! i)" "pe_backend (bp_objects (ps_pool s) ! i) = b"
      by (auto simp: owned_def in_set_conv_nth)
    then have "\<not> pe_retired (bp_objects (ps_pool s) ! i)" using idle by (simp add: live_def)
    then obtain k where "map_of (bp_entries (ps_pool s)) k = Some i"
      using i(1) state_inv_pool [OF inv] by (auto simp: pool_inv_def entries_ok_def)
    then show ?r using i(3) by blast
  next
    assume ?r
    then show ?l using pooled_owned [OF inv] by blast
  qed
  moreover have "b \<in># mset (ps_closed s) \<longleftrightarrow> b \<notin># owned (ps_pool s)"
    unfolding count_greater_zero_iff [symmetric] using c by linarith
  ultimately show ?thesis by simp
qed

definition example_idle :: pool_state where
  "example_idle = example_state\<lparr>ps_pool := example_pool [built_entry 0 ''h'' [] 5], ps_users := []\<rparr>"

lemma example_idle_reachable: "pool_reachable example_idle"
proof -
  let ?s1 = "example_state\<lparr>ps_pool := example_pool [(built_entry 0 ''h'' [] 5)\<lparr>pe_holders := 1\<rparr>], ps_users := [(0, Hold 0)]\<rparr>"
  have "pool_step example_state ?s1"
    using pool_step.release [of 0 "Hold 0" example_state "[]" "ps_pool ?s1"]
    by (simp add: example_state_def example_pool_def built_entry_def)
  then have 1: "pool_reachable ?s1" by (rule pool_reachable.step [OF example_reachable])
  have "pool_step ?s1 example_idle"
    using pool_step.release [of 0 "Hold 0" ?s1 "[]" "ps_pool example_idle"]
    by (simp add: example_state_def example_idle_def example_pool_def built_entry_def)
  then show ?thesis by (rule pool_reachable.step [OF 1])
qed

theorem idle_pool_leaks_nothing_witness:
  "pool_reachable example_idle \<and> (1 \<in> set (ps_closed example_idle) \<longleftrightarrow>
     \<not> (\<exists>k i. map_of (bp_entries (ps_pool example_idle)) k = Some i \<and> pe_backend (bp_objects (ps_pool example_idle) ! i) = 1))"
  using idle_pool_leaks_nothing [of example_idle 1] example_idle_reachable by (simp add: example_idle_def example_state_def)

end
