(* ===== verification/Sink_Debounce.thy ===== *)
theory Sink_Debounce
  imports Error_Classes Redact Sink_Secrets Admission
begin

text \<open>
  The per-sink export bookkeeping of the inventory controllers,
  \<open>src/internal/controller/per_sink_export.go\<close>: the tracker that decides whether an export to a sink is
  skipped as unchanged, and the outcome and status entries of an export pass. A tracker method
  holds the tracker's mutex over its work and is one state transformer. A pointer into the list of
  status entries is an index of it. \<open>meta.SetStatusCondition\<close> of apimachinery is the argument \<open>setc\<close>;
  clock readings are arguments.
\<close>

section \<open>State\<close>

definition coalesceStateTTL :: duration where "coalesceStateTTL = 2 * MaxExportInterval"

record sinkExportIdentity =
  ie_inventoryUID :: string
  ie_sinkUID :: string
  ie_sinkGeneration :: int

text \<open>Of the common sink fields an export pass reads the default interval only.\<close>

record SinkCommonFields =
  scf_ExportMinInterval :: "duration option"

record ResolvedSink =
  rs_Spec :: KollectSinkSpec
  rs_ExportMinInterval :: "SinkCommonFields option"
  rs_Namespace :: string
  rs_Name :: string
  rs_Family :: string
  rs_UID :: string
  rs_Generation :: int

definition newSinkExportIdentity :: "string \<Rightarrow> ResolvedSink option \<Rightarrow> sinkExportIdentity" where
  "newSinkExportIdentity inventoryUID resolved = (case resolved of
     None \<Rightarrow> \<lparr>ie_inventoryUID = inventoryUID, ie_sinkUID = [], ie_sinkGeneration = 0\<rparr>
   | Some r \<Rightarrow> \<lparr>ie_inventoryUID = inventoryUID, ie_sinkUID = rs_UID r, ie_sinkGeneration = rs_Generation r\<rparr>)"

record sinkCoalesceState =
  cs_identity :: sinkExportIdentity
  cs_lastExport :: time
  cs_lastChecksum :: string
  cs_lastGeneration :: int
  cs_lastRequestedAt :: string
  cs_lastSkipped :: time

type_synonym perSinkCoalesceTracker = "(string, sinkCoalesceState) gomap"

text \<open>The key of a binding in the tracker: the inventory and the sink with a zero byte between.\<close>

definition tracker_key :: "string \<Rightarrow> string \<Rightarrow> string" where
  "tracker_key invKey sinkName = invKey @ CHR 0x00 # sinkName"

definition latestTime :: "time \<Rightarrow> time \<Rightarrow> time" where
  "latestTime a b = (if a < b then b else a)"

section \<open>The tracker\<close>

definition shouldSkip ::
  "string \<Rightarrow> string \<Rightarrow> sinkExportIdentity \<Rightarrow> int \<Rightarrow> string \<Rightarrow> string \<Rightarrow> duration \<Rightarrow> time \<Rightarrow> perSinkCoalesceTracker
   \<Rightarrow> bool \<times> perSinkCoalesceTracker" where
  "shouldSkip invKey sinkName identity generation checksum requestedAt interval now t =
     (case map_of t (tracker_key invKey sinkName) of
        None \<Rightarrow> (False, t)
      | Some state \<Rightarrow>
          (if cs_lastGeneration state \<noteq> generation then (False, t)
           else if cs_identity state \<noteq> identity then (False, t)
           else if cs_lastChecksum state \<noteq> checksum then (False, t)
           else if cs_lastRequestedAt state \<noteq> requestedAt then (False, t)
           else if interval = 0 then (True, AList.update (tracker_key invKey sinkName) (state\<lparr>cs_lastSkipped := now\<rparr>) t)
           else if IsZero (cs_lastExport state) then (False, t)
           else (now - cs_lastExport state < interval, t)))"

definition pruneStaleLocked :: "time \<Rightarrow> perSinkCoalesceTracker \<Rightarrow> perSinkCoalesceTracker" where
  "pruneStaleLocked now t =
     filter (\<lambda>(k, state). \<not> coalesceStateTTL < now - latestTime (cs_lastExport state) (cs_lastSkipped state)) t"

definition record_export ::
  "string \<Rightarrow> string \<Rightarrow> sinkExportIdentity \<Rightarrow> int \<Rightarrow> string \<Rightarrow> string \<Rightarrow> time \<Rightarrow> perSinkCoalesceTracker \<Rightarrow> perSinkCoalesceTracker" where
  "record_export invKey sinkName identity generation checksum requestedAt now t =
     (let t' = pruneStaleLocked now t; k = tracker_key invKey sinkName;
          skipped = (case map_of t' k of None \<Rightarrow> zero_time | Some state \<Rightarrow> cs_lastSkipped state)
      in AList.update k \<lparr>cs_identity = identity, cs_lastExport = now, cs_lastChecksum = checksum, cs_lastGeneration = generation,
           cs_lastRequestedAt = requestedAt, cs_lastSkipped = skipped\<rparr> t')"

definition forget :: "string \<Rightarrow> string \<Rightarrow> perSinkCoalesceTracker \<Rightarrow> perSinkCoalesceTracker" where
  "forget invKey sinkName t = AList.delete (tracker_key invKey sinkName) t"

definition nextDue :: "string \<Rightarrow> string \<Rightarrow> duration \<Rightarrow> time \<Rightarrow> perSinkCoalesceTracker \<Rightarrow> duration" where
  "nextDue invKey sinkName interval now t =
     (if interval = 0 then ZeroIntervalWatchdog
      else case map_of t (tracker_key invKey sinkName) of
        None \<Rightarrow> Second
      | Some state \<Rightarrow>
          (if IsZero (cs_lastExport state) then Second
           else let remaining = interval - (now - cs_lastExport state) in if remaining < Second then Second else remaining))"

section \<open>Status entries\<close>

record Condition =
  co_Type :: string
  co_Status :: bool
  co_Reason :: string
  co_Message :: string
  co_ObservedGeneration :: int
  co_LastTransitionTime :: time

type_synonym set_condition = "Condition \<Rightarrow> Condition list \<Rightarrow> Condition list"

record InventorySinkExportStatus =
  ses_Name :: string
  ses_Namespace :: string
  ses_LastExportTime :: "time option"
  ses_LastChecksum :: string
  ses_LastExportPaths :: "string list"
  ses_Conditions :: "Condition list"

definition conditionSinkSynced :: string where "conditionSinkSynced = ''Synced''"

definition setSinkExportSynced ::
  "set_condition \<Rightarrow> time \<Rightarrow> int \<Rightarrow> bool \<Rightarrow> string \<Rightarrow> string \<Rightarrow> InventorySinkExportStatus \<Rightarrow> InventorySinkExportStatus" where
  "setSinkExportSynced setc clock generation ok reason message status =
     status\<lparr>ses_Conditions := setc \<lparr>co_Type = conditionSinkSynced, co_Status = ok, co_Reason = reason,
       co_Message = Text message [], co_ObservedGeneration = generation, co_LastTransitionTime = clock\<rparr> (ses_Conditions status)\<rparr>"

text \<open>\<open>Duration.String\<close> of the standard library.\<close>

definition frac_part :: "nat \<Rightarrow> nat \<Rightarrow> string" where
  "frac_part prec v = (let ds = rev (dropWhile (\<lambda>c. c = CHR ''0'') (rev (pad_nat prec v))) in if ds = [] then [] else CHR ''.'' # ds)"

definition duration_String :: "duration \<Rightarrow> string" where
  "duration_String d =
     (let u = nat \<bar>d\<bar>; sign = (if d < 0 then ''-'' else []) in
      if u = 0 then ''0s''
      else if u < 1000 then sign @ show_nat u @ ''ns''
      else if u < 1000000 then sign @ show_nat (u div 1000) @ frac_part 3 (u mod 1000) @ [CHR 0xC2, CHR 0xB5, CHR ''s'']
      else if u < 1000000000 then sign @ show_nat (u div 1000000) @ frac_part 6 (u mod 1000000) @ ''ms''
      else let secs = u div 1000000000; mins = secs div 60; hours = mins div 60 in
        sign @ (if 0 < hours then show_nat hours @ ''h'' else [])
          @ (if 0 < mins then show_nat (mins mod 60) @ ''m'' else [])
          @ show_nat (secs mod 60) @ frac_part 9 (u mod 1000000000) @ ''s'')"

definition ReasonDebounced :: string where "ReasonDebounced = ''Debounced''"

definition setSinkExportDebounced ::
  "set_condition \<Rightarrow> time \<Rightarrow> int \<Rightarrow> duration \<Rightarrow> InventorySinkExportStatus \<Rightarrow> InventorySinkExportStatus" where
  "setSinkExportDebounced setc clock generation interval status =
     setSinkExportSynced setc clock generation True ReasonDebounced
       (if interval = 0 then ''payload unchanged since the last export; exports only on change (interval 0s)''
        else ''payload unchanged since the last export; re-exported every '' @ duration_String interval) status"

text \<open>The pointer that is returned is the index of the entry.\<close>

fun index_of_name :: "InventorySinkExportStatus list \<Rightarrow> string \<Rightarrow> nat option" where
  "index_of_name [] name = None"
| "index_of_name (e # es) name = (if ses_Name e = name then Some 0 else map_option Suc (index_of_name es name))"

definition upsertSinkExportStatus ::
  "InventorySinkExportStatus list \<Rightarrow> string \<Rightarrow> nat \<times> InventorySinkExportStatus list" where
  "upsertSinkExportStatus exports name = (case index_of_name exports name of
     Some i \<Rightarrow> (i, exports)
   | None \<Rightarrow> (length exports, exports @ [\<lparr>ses_Name = name, ses_Namespace = [], ses_LastExportTime = None, ses_LastChecksum = [],
       ses_LastExportPaths = [], ses_Conditions = []\<rparr>]))"

definition carryOverSinkExport ::
  "InventorySinkExportStatus list \<Rightarrow> string \<Rightarrow> InventorySinkExportStatus \<Rightarrow> InventorySinkExportStatus" where
  "carryOverSinkExport previous exportKey status = (case find (\<lambda>e. ses_Name e = exportKey) previous of
     None \<Rightarrow> status
   | Some seed \<Rightarrow> status\<lparr>ses_LastExportTime := ses_LastExportTime seed, ses_LastChecksum := ses_LastChecksum seed,
       ses_LastExportPaths := ses_LastExportPaths seed, ses_Conditions := ses_Conditions seed\<rparr>)"

definition maxRecordedExportPaths :: nat where "maxRecordedExportPaths = 32"

fun dedupe_paths :: "string list \<Rightarrow> string list \<Rightarrow> string list" where
  "dedupe_paths seen [] = []"
| "dedupe_paths seen (p # ps) = (if p \<in> set seen then dedupe_paths seen ps else p # dedupe_paths (p # seen) ps)"

definition recordExportPaths :: "string list \<Rightarrow> string list \<Rightarrow> string list" where
  "recordExportPaths written previous =
     (if written = [] then previous
      else let out = sort (dedupe_paths [] written)
        in if maxRecordedExportPaths < length out then take maxRecordedExportPaths out else out)"

definition latestExportTime :: "InventorySinkExportStatus list \<Rightarrow> time option" where
  "latestExportTime exports = fold (\<lambda>e latest. case ses_LastExportTime e of
     None \<Rightarrow> latest
   | Some t \<Rightarrow> (case latest of None \<Rightarrow> Some t | Some l \<Rightarrow> if l < t then Some t else latest)) exports None"

section \<open>Outcome of a pass\<close>

record perSinkExportOutcome =
  po_ExportedCount :: nat
  po_DebouncedCount :: nat
  po_FailedCount :: nat
  po_FailedSink :: string
  po_ExportErr :: "go_error option"
  po_SinkExports :: "InventorySinkExportStatus list"
  po_RequeueAfter :: duration
  po_failedSinks :: "string list"
  po_exportErrs :: "go_error list"
  po_trackerKey :: string
  po_exportedSinks :: "string list"

definition zero_outcome :: perSinkExportOutcome where
  "zero_outcome = \<lparr>po_ExportedCount = 0, po_DebouncedCount = 0, po_FailedCount = 0, po_FailedSink = [], po_ExportErr = None,
     po_SinkExports = [], po_RequeueAfter = 0, po_failedSinks = [], po_exportErrs = [], po_trackerKey = [], po_exportedSinks = []\<rparr>"

definition markExported :: "string \<Rightarrow> string \<Rightarrow> perSinkExportOutcome \<Rightarrow> perSinkExportOutcome" where
  "markExported invKey exportKey oc = oc\<lparr>po_trackerKey := invKey, po_exportedSinks := po_exportedSinks oc @ [exportKey]\<rparr>"

definition forgetUnpersistedExports :: "perSinkExportOutcome \<Rightarrow> perSinkCoalesceTracker \<Rightarrow> perSinkCoalesceTracker" where
  "forgetUnpersistedExports oc t = fold (\<lambda>exportKey. forget (po_trackerKey oc) exportKey) (po_exportedSinks oc) t"

definition addSinkFailure :: "api_errors \<Rightarrow> string \<Rightarrow> go_error \<Rightarrow> perSinkExportOutcome \<Rightarrow> perSinkExportOutcome" where
  "addSinkFailure api exportKey err oc =
     (let sinks = po_failedSinks oc @ [exportKey]; errs = po_exportErrs oc @ [err]
      in oc\<lparr>po_FailedCount := po_FailedCount oc + 1, po_failedSinks := sinks, po_exportErrs := errs,
           po_FailedSink := Join '','' sinks, po_ExportErr := aggregateExportErrs api errs\<rparr>)"

definition sinkExportFailureReason :: "go_error \<Rightarrow> string" where
  "sinkExportFailureReason err = (if err_is err ErrSpillRequired then ''SpillRequired'' else ''ExportFailed'')"

definition update_export :: "nat \<Rightarrow> (InventorySinkExportStatus \<Rightarrow> InventorySinkExportStatus) \<Rightarrow> perSinkExportOutcome \<Rightarrow> perSinkExportOutcome" where
  "update_export i f oc = oc\<lparr>po_SinkExports := (po_SinkExports oc)[i := f (po_SinkExports oc ! i)]\<rparr>"

definition failSinkExport ::
  "api_errors \<Rightarrow> set_condition \<Rightarrow> time \<Rightarrow> nat \<Rightarrow> string \<Rightarrow> string \<Rightarrow> int \<Rightarrow> go_error
   \<Rightarrow> perSinkCoalesceTracker \<times> perSinkExportOutcome \<Rightarrow> perSinkCoalesceTracker \<times> perSinkExportOutcome" where
  "failSinkExport api setc clock i invKey exportKey generation err st = (case st of (t, oc) \<Rightarrow>
     (forget invKey exportKey t,
      update_export i (setSinkExportSynced setc clock generation False (sinkExportFailureReason err) (error_text err))
        (addSinkFailure api exportKey err oc)))"

definition isTotalExportFailure :: "perSinkExportOutcome \<Rightarrow> bool" where
  "isTotalExportFailure oc \<longleftrightarrow> po_ExportErr oc \<noteq> None \<and> po_ExportedCount oc = 0 \<and> po_DebouncedCount oc = 0"

definition mergeRequeueAfter :: "duration \<Rightarrow> duration \<Rightarrow> duration" where
  "mergeRequeueAfter current next' = (if current = 0 \<or> next' < current then next' else current)"

definition setSyncedCondition :: "set_condition \<Rightarrow> time \<Rightarrow> int \<Rightarrow> bool \<Rightarrow> string \<Rightarrow> string \<Rightarrow> Condition list \<Rightarrow> Condition list" where
  "setSyncedCondition setc clock generation ok reason message conditions =
     setc \<lparr>co_Type = ''Synced'', co_Status = ok, co_Reason = reason, co_Message = Text message [],
       co_ObservedGeneration = generation, co_LastTransitionTime = clock\<rparr> conditions"

definition sinksUpToDateMessage :: "nat \<Rightarrow> nat \<Rightarrow> string" where
  "sinksUpToDateMessage exported debounced =
     (let upToDate = show_nat (exported + debounced) in upToDate @ ''/'' @ upToDate @ '' sink(s) up to date'')"

definition aggregateInventorySync ::
  "set_condition \<Rightarrow> time \<Rightarrow> int \<Rightarrow> nat \<Rightarrow> nat \<Rightarrow> nat \<Rightarrow> Condition list \<Rightarrow> Condition list" where
  "aggregateInventorySync setc clock generation exported debounced failed conditions =
     (if 0 < failed \<and> 0 < exported then
        setSyncedCondition setc clock generation False ''PartiallySynced''
          (show_nat exported @ ''/'' @ show_nat (exported + failed) @ '' sinks exported; '' @ show_nat failed @ '' failed'') conditions
      else if 0 < failed then
        setSyncedCondition setc clock generation False ''Progressing'' (show_nat failed @ '' sink(s) failed export'') conditions
      else setSyncedCondition setc clock generation True ''Exported'' (sinksUpToDateMessage exported debounced) conditions)"

section \<open>The debounce decision\<close>

text \<open>A history of the tracker: the calls of its methods, in the order they hold the mutex.\<close>

datatype tracker_op =
    Op_Skip string string sinkExportIdentity int string string duration time
  | Op_Record string string sinkExportIdentity int string string time
  | Op_Forget string string

fun tracker_op_apply :: "tracker_op \<Rightarrow> perSinkCoalesceTracker \<Rightarrow> perSinkCoalesceTracker" where
  "tracker_op_apply (Op_Skip i s d g c r v now) t = snd (shouldSkip i s d g c r v now t)"
| "tracker_op_apply (Op_Record i s d g c r now) t = record_export i s d g c r now t"
| "tracker_op_apply (Op_Forget i s) t = forget i s t"

definition tracker_after :: "tracker_op list \<Rightarrow> perSinkCoalesceTracker" where
  "tracker_after ops = fold tracker_op_apply ops []"

fun op_inv :: "tracker_op \<Rightarrow> string" where
  "op_inv (Op_Skip i s d g c r v now) = i"
| "op_inv (Op_Record i s d g c r now) = i"
| "op_inv (Op_Forget i s) = i"

fun op_clock :: "tracker_op \<Rightarrow> time list" where
  "op_clock (Op_Skip i s d g c r v now) = [now]"
| "op_clock (Op_Record i s d g c r now) = [now]"
| "op_clock (Op_Forget i s) = []"

text \<open>A history the controller can produce: clock readings in order and set, keys without a zero byte.\<close>

definition history_ok :: "tracker_op list \<Rightarrow> time \<Rightarrow> bool" where
  "history_ok ops now \<longleftrightarrow> sorted (concat (map op_clock ops) @ [now])
     \<and> list_all (\<lambda>t. zero_time < t) (concat (map op_clock ops) @ [now])
     \<and> list_all (\<lambda>op. CHR 0x00 \<notin> set (op_inv op)) ops"

text \<open>The export a binding is compared with: the last one recorded for it, unless it was dropped since.\<close>

fun baseline_step :: "string \<Rightarrow> string \<Rightarrow> tracker_op
    \<Rightarrow> (sinkExportIdentity \<times> int \<times> string \<times> string \<times> time) option \<Rightarrow> (sinkExportIdentity \<times> int \<times> string \<times> string \<times> time) option" where
  "baseline_step invKey sink (Op_Skip i s d g c r v now) b = b"
| "baseline_step invKey sink (Op_Record i s d g c r now) b = (if i = invKey \<and> s = sink then Some (d, g, c, r, now) else b)"
| "baseline_step invKey sink (Op_Forget i s) b = (if i = invKey \<and> s = sink then None else b)"

definition last_export :: "string \<Rightarrow> string \<Rightarrow> tracker_op list \<Rightarrow> (sinkExportIdentity \<times> int \<times> string \<times> string \<times> time) option" where
  "last_export invKey sink ops = fold (baseline_step invKey sink) ops None"

lemma tracker_after_snoc: "tracker_after (ops @ [op]) = tracker_op_apply op (tracker_after ops)"
  by (simp add: tracker_after_def)

lemma last_export_snoc: "last_export invKey sink (ops @ [op]) = baseline_step invKey sink op (last_export invKey sink ops)"
  by (simp add: last_export_def)

lemma tracker_key_inj:
  assumes "CHR 0x00 \<notin> set a" "CHR 0x00 \<notin> set b"
  shows "tracker_key a x = tracker_key b y \<longleftrightarrow> a = b \<and> x = y"
proof
  assume eq: "tracker_key a x = tracker_key b y"
  have "takeWhile (\<lambda>c. c \<noteq> CHR 0x00) (tracker_key u z) = u" if "CHR 0x00 \<notin> set u" for u z
    using that unfolding tracker_key_def by (subst takeWhile_append2) auto
  then have "a = b" using assms eq by metis
  then show "a = b \<and> x = y" using eq by (simp add: tracker_key_def)
qed simp

text \<open>
  What the tracker holds of a binding with baseline \<open>b\<close> at time \<open>now\<close>: the baseline, or nothing, and
  then there is no baseline or it is older than the entry's lifetime.
\<close>

definition tracks :: "time \<Rightarrow> (sinkExportIdentity \<times> int \<times> string \<times> string \<times> time) option \<Rightarrow> sinkCoalesceState option \<Rightarrow> bool" where
  "tracks now b st = (case st of
     None \<Rightarrow> (case b of None \<Rightarrow> True | Some (d, g, c, r, t) \<Rightarrow> coalesceStateTTL < now - t)
   | Some s \<Rightarrow> b = Some (cs_identity s, cs_lastGeneration s, cs_lastChecksum s, cs_lastRequestedAt s, cs_lastExport s)
       \<and> zero_time < cs_lastExport s)"

lemma tracks_later: "tracks now b st \<Longrightarrow> now \<le> now' \<Longrightarrow> tracks now' b st"
  by (auto simp: tracks_def split: option.splits)

lemma map_of_filter_distinct:
  "distinct (map fst t) \<Longrightarrow> map_of (filter (\<lambda>(k, v). P v) t) k = (case map_of t k of None \<Rightarrow> None | Some v \<Rightarrow> if P v then Some v else None)"
proof (induction t)
  case (Cons a t)
  have "a = (k, v) \<Longrightarrow> map_of t k = None" for v
    using Cons.prems by (auto simp: map_of_eq_None_iff)
  then show ?case using Cons by (cases a) auto
qed simp

lemma pruned_tracks:
  assumes "tracks now b (map_of t k)" "distinct (map fst t)"
  shows "tracks now b (map_of (pruneStaleLocked now t) k)"
proof (cases "map_of t k")
  case None
  then show ?thesis using assms unfolding pruneStaleLocked_def by (simp add: map_of_filter_distinct)
next
  case (Some s)
  then have b: "b = Some (cs_identity s, cs_lastGeneration s, cs_lastChecksum s, cs_lastRequestedAt s, cs_lastExport s)"
    using assms(1) by (simp add: tracks_def)
  have "cs_lastExport s \<le> latestTime (cs_lastExport s) (cs_lastSkipped s)" by (simp add: latestTime_def)
  then show ?thesis using assms Some b unfolding pruneStaleLocked_def
    by (auto simp: map_of_filter_distinct tracks_def)
qed

lemma tracker_distinct: "distinct (map fst (tracker_after ops))"
proof (induction ops rule: rev_induct)
  case (snoc op ops)
  have "distinct (map fst (pruneStaleLocked now t))" if "distinct (map fst t)" for now t
    using that unfolding pruneStaleLocked_def by (rule distinct_map_filter)
  then show ?case using snoc
    by (cases op) (simp_all add: tracker_after_snoc shouldSkip_def record_export_def forget_def Let_def distinct_update
        distinct_delete split: option.split)
qed (simp add: tracker_after_def)

lemma skip_state:
  "snd (shouldSkip i s d g c r v n t) = t
     \<or> (\<exists>st. map_of t (tracker_key i s) = Some st
          \<and> snd (shouldSkip i s d g c r v n t) = AList.update (tracker_key i s) (st\<lparr>cs_lastSkipped := n\<rparr>) t)"
  by (cases "map_of t (tracker_key i s)") (simp_all add: shouldSkip_def)

lemma skip_tracks:
  assumes "tracks now b (map_of t k)"
  shows "tracks now b (map_of (snd (shouldSkip i s d g c r v n t)) k)"
  using skip_state [of i s d g c r v n t]
proof (elim disjE exE conjE)
  fix st
  assume st: "map_of t (tracker_key i s) = Some st"
    and eq: "snd (shouldSkip i s d g c r v n t) = AList.update (tracker_key i s) (st\<lparr>cs_lastSkipped := n\<rparr>) t"
  show ?thesis using assms st unfolding eq update_conv by (cases "k = tracker_key i s") (simp_all add: tracks_def)
qed (use assms in simp)

lemma record_tracks:
  assumes "tracks now b (map_of t (tracker_key invKey sink))" "distinct (map fst t)" "zero_time < now"
    and "CHR 0x00 \<notin> set invKey" "CHR 0x00 \<notin> set i"
  shows "tracks now (baseline_step invKey sink (Op_Record i s d g c r now) b) (map_of (record_export i s d g c r now t) (tracker_key invKey sink))"
proof (cases "i = invKey \<and> s = sink")
  case True
  then show ?thesis using assms(3) by (simp add: record_export_def Let_def update_conv tracks_def)
next
  case False
  then have "tracker_key invKey sink \<noteq> tracker_key i s" unfolding tracker_key_inj [OF assms(4,5)] by auto
  then have "map_of (record_export i s d g c r now t) (tracker_key invKey sink) = map_of (pruneStaleLocked now t) (tracker_key invKey sink)"
    unfolding record_export_def Let_def update_conv by (rule fun_upd_other)
  moreover have "baseline_step invKey sink (Op_Record i s d g c r now) b = b" using False by auto
  ultimately show ?thesis using pruned_tracks [OF assms(1,2)] by (simp only:)
qed

lemma forget_tracks:
  assumes "tracks now b (map_of t (tracker_key invKey sink))" "CHR 0x00 \<notin> set invKey" "CHR 0x00 \<notin> set i"
  shows "tracks now (baseline_step invKey sink (Op_Forget i s) b) (map_of (forget i s t) (tracker_key invKey sink))"
proof (cases "i = invKey \<and> s = sink")
  case True
  then show ?thesis by (simp add: forget_def delete_conv tracks_def)
next
  case False
  then have "tracker_key invKey sink \<noteq> tracker_key i s" unfolding tracker_key_inj [OF assms(2,3)] by auto
  then have "map_of (forget i s t) (tracker_key invKey sink) = map_of t (tracker_key invKey sink)"
    unfolding forget_def delete_conv by (rule fun_upd_other)
  moreover have "baseline_step invKey sink (Op_Forget i s) b = b" using False by auto
  ultimately show ?thesis using assms(1) by (simp only:)
qed

lemma history_snoc:
  "history_ok (ops @ [op]) now \<Longrightarrow> history_ok ops now \<and> CHR 0x00 \<notin> set (op_inv op)
     \<and> (\<forall>t \<in> set (op_clock op). history_ok ops t \<and> zero_time < t \<and> t \<le> now)"
  by (cases op) (auto simp: history_ok_def sorted_append)

lemma tracker_tracks:
  assumes "history_ok ops now" "CHR 0x00 \<notin> set invKey"
  shows "tracks now (last_export invKey sink ops) (map_of (tracker_after ops) (tracker_key invKey sink))"
  using assms
proof (induction ops arbitrary: now rule: rev_induct)
  case Nil
  then show ?case by (simp add: tracker_after_def last_export_def tracks_def)
next
  case (snoc op ops)
  note h = history_snoc [OF snoc.prems(1)]
  show ?case
  proof (cases op)
    case (Op_Skip i s d g c r v n)
    then show ?thesis using skip_tracks [OF snoc.IH [OF _ assms(2)]] h by (simp add: tracker_after_snoc last_export_snoc)
  next
    case (Op_Record i s d g c r n)
    then have "history_ok ops n" "zero_time < n" "n \<le> now" "CHR 0x00 \<notin> set i" using h by auto
    then have "tracks n (last_export invKey sink (ops @ [op])) (map_of (tracker_after (ops @ [op])) (tracker_key invKey sink))"
      using record_tracks [OF snoc.IH [OF _ assms(2)] tracker_distinct _ assms(2)] Op_Record
      by (simp only: tracker_after_snoc last_export_snoc tracker_op_apply.simps)
    then show ?thesis using \<open>n \<le> now\<close> by (rule tracks_later)
  next
    case (Op_Forget i s)
    then have "history_ok ops now" "CHR 0x00 \<notin> set i" using h by simp_all
    then show ?thesis using forget_tracks [OF snoc.IH [OF _ assms(2)] assms(2)] Op_Forget
      by (simp only: tracker_after_snoc last_export_snoc tracker_op_apply.simps)
  qed
qed

lemma skip_absent:
  "map_of t (tracker_key invKey sink) = None \<Longrightarrow> \<not> fst (shouldSkip invKey sink d g c r interval now t)"
  by (simp add: shouldSkip_def)

lemma skip_present:
  assumes "map_of t (tracker_key invKey sink) = Some s" "interval \<noteq> 0" "\<not> IsZero (cs_lastExport s)"
  shows "fst (shouldSkip invKey sink d g c r interval now t) \<longleftrightarrow>
    cs_identity s = d \<and> cs_lastGeneration s = g \<and> cs_lastChecksum s = c \<and> cs_lastRequestedAt s = r \<and> now - cs_lastExport s < interval"
  using assms by (simp add: shouldSkip_def)



text \<open>
  A binding that exports on change only is skipped against its last export alone, however old.
\<close>

theorem debounce_on_change_sound:
  assumes "history_ok ops now" "CHR 0x00 \<notin> set invKey"
    and "fst (shouldSkip invKey sink identity generation checksum requestedAt 0 now (tracker_after ops))"
  shows "\<exists>t. last_export invKey sink ops = Some (identity, generation, checksum, requestedAt, t)"
proof (cases "map_of (tracker_after ops) (tracker_key invKey sink)")
  case (Some s)
  then have "last_export invKey sink ops =
      Some (cs_identity s, cs_lastGeneration s, cs_lastChecksum s, cs_lastRequestedAt s, cs_lastExport s)"
    using tracker_tracks [OF assms(1,2), of sink] by (simp add: tracks_def)
  then show ?thesis using assms(3) Some by (simp add: shouldSkip_def split: if_splits)
qed (use assms(3) skip_absent in blast)

text \<open>
  A skipped binding is not skipped forever: the requeue delay that the pass takes from the
  tracker is positive and at most the interval (or a second for shorter rests), and when it has
  passed with nothing recorded in between, the same check lets the export through.
\<close>

theorem skipped_binding_becomes_due:
  assumes "fst (shouldSkip invKey sink identity generation checksum requestedAt interval now t)" "0 < interval"
  shows "0 < nextDue invKey sink interval now t \<and> nextDue invKey sink interval now t
        \<le> max Second (interval - (now - cs_lastExport (the (map_of t (tracker_key invKey sink)))))
    \<and> \<not> fst (shouldSkip invKey sink identity generation checksum requestedAt interval (now + nextDue invKey sink interval now t) t)"
proof (cases "map_of t (tracker_key invKey sink)")
  case (Some s)
  then have z: "\<not> IsZero (cs_lastExport s)" using assms by (simp add: shouldSkip_def split: if_splits)
  have i: "interval \<noteq> 0" using assms(2) by simp
  have "0 < Second" by (simp add: Second_def)
  then have d: "nextDue invKey sink interval now t = max Second (interval - (now - cs_lastExport s))"
    using Some z i by (simp add: nextDue_def Let_def max_def)
  have "\<not> now + max Second (interval - (now - cs_lastExport s)) - cs_lastExport s < interval" by simp
  then show ?thesis using skip_present [OF Some i z] d Some \<open>0 < Second\<close> by simp
qed (use assms(1) skip_absent in blast)

theorem skipped_binding_becomes_due_witness:
  "\<not> fst (shouldSkip ''team/inv'' ''event/a'' (newSinkExportIdentity ''u'' None) 1 ''sum'' [] (30 * Second)
      (20 * Second + nextDue ''team/inv'' ''event/a'' (30 * Second) (20 * Second)
         (record_export ''team/inv'' ''event/a'' (newSinkExportIdentity ''u'' None) 1 ''sum'' [] (5 * Second) []))
      (record_export ''team/inv'' ''event/a'' (newSinkExportIdentity ''u'' None) 1 ''sum'' [] (5 * Second) []))"
proof -
  let ?t = "record_export ''team/inv'' ''event/a'' (newSinkExportIdentity ''u'' None) 1 ''sum'' [] (5 * Second) []"
  have "fst (shouldSkip ''team/inv'' ''event/a'' (newSinkExportIdentity ''u'' None) 1 ''sum'' [] (30 * Second) (20 * Second) ?t)"
    by (simp add: shouldSkip_def record_export_def pruneStaleLocked_def Let_def IsZero_def zero_time_def Second_def)
  moreover have "0 < 30 * Second" by (simp add: Second_def)
  ultimately show ?thesis
    using skipped_binding_becomes_due [of "''team/inv''" "''event/a''" "newSinkExportIdentity ''u'' None" 1 "''sum''" "[]"
        "30 * Second" "20 * Second" ?t] by blast
qed

section \<open>Recorded paths\<close>

lemma dedupe_paths_set: "set (dedupe_paths seen ps) = set ps - set seen"
  by (induction seen ps rule: dedupe_paths.induct) auto

lemma dedupe_paths_distinct: "distinct (dedupe_paths seen ps)"
  by (induction seen ps rule: dedupe_paths.induct) (auto simp: dedupe_paths_set)

text \<open>
  The recorded paths are the written ones, each once, in order, cut to the first 32; an export that
  wrote nothing keeps the record.
\<close>

theorem recorded_paths_exact:
  "recordExportPaths written previous =
     (if written = [] then previous else take maxRecordedExportPaths (sorted_list_of_set (set written)))"
proof -
  have "sort (dedupe_paths [] written) = sorted_list_of_set (set written)"
    by (rule sorted_distinct_set_unique) (simp_all add: dedupe_paths_distinct dedupe_paths_set)
  then show ?thesis by (simp add: recordExportPaths_def Let_def)
qed

end
