(* ===== verification/Export_Pass.thy ===== *)
theory Export_Pass
  imports Sink_Debounce Partition Scope "HOL-Library.Multiset"
begin

text \<open>
  One export pass of the namespaced inventory controller,
  \<open>src/internal/controller/kollectinventory_controller.go\<close>: the content fingerprint cache, the preview
  of an unchanged inventory, the export to the bound sinks, and the status write. What a pass reads
  from outside (the clock, the sinks it loads, the result of exporting one part) is the argument
  \<open>pass_env\<close>; the order in which the export goroutines take the outcome's mutex is the argument
  \<open>order\<close>. \<open>pe_clock key n\<close> is the \<open>n\<close>th clock reading that stamps the status entry \<open>key\<close>. Log lines, metrics and Kubernetes events are left out.
\<close>

section \<open>State\<close>

record KollectInventoryStatus =
  is_ObservedGeneration :: int
  is_ItemCount :: nat
  is_LastExportTime :: "time option"
  is_SinkExports :: "InventorySinkExportStatus list"
  is_Conditions :: "Condition list"

record KollectInventory =
  ki_Namespace :: string
  ki_Name :: string
  ki_UID :: string
  ki_Generation :: int
  ki_Annotations :: "(string, string) gomap"
  ki_Spec :: KollectInventorySpec
  ki_Status :: KollectInventoryStatus

record pass_env =
  pe_now :: time
  pe_clock :: "string \<Rightarrow> nat \<Rightarrow> time"
  pe_partClock :: clock
  pe_scopes :: "string + KollectScope list"
  pe_maxExportBytesGlobal :: int
  pe_load :: "InventorySinkBinding \<Rightarrow> go_error + ResolvedSink"
  pe_run :: "string \<Rightarrow> string \<Rightarrow> EnvelopePartition \<Rightarrow> string list \<times> go_error option"
  pe_setc :: set_condition
  pe_removec :: "string \<Rightarrow> Condition list \<Rightarrow> Condition list"
  pe_api :: api_errors

definition inventorySinkBindings :: "KollectInventory option \<Rightarrow> InventorySinkBinding list" where
  "inventorySinkBindings inventory = (case inventory of None \<Rightarrow> [] | Some i \<Rightarrow> CollectInventorySinkBindings (ki_Spec i))"

definition totalInventorySinkRefs :: "KollectInventory \<Rightarrow> nat" where
  "totalInventorySinkRefs i = TotalInventorySinkRefCount (Some (ki_Spec i))"

definition sinkExportKey :: "InventorySinkBinding \<Rightarrow> string" where
  "sinkExportKey binding = isb_Family binding @ ''/'' @ isb_Name binding"

definition hasSnapshotSinkBinding :: "InventorySinkBinding list \<Rightarrow> bool" where
  "hasSnapshotSinkBinding bindings \<longleftrightarrow> list_ex (\<lambda>b. isb_Family b = SinkFamilySnapshot) bindings"

definition AnnotationRequestedAt :: string where "AnnotationRequestedAt = ''kollect.dev/requestedAt''"

definition exportDebounce :: "KollectInventory \<Rightarrow> duration" where
  "exportDebounce i = InventoryDefaultInterval (Some (ki_Spec i)) 0"

definition scopeFloor :: "string + KollectScope list \<Rightarrow> duration" where
  "scopeFloor listed = (case Load listed of
     Inl err \<Rightarrow> 0
   | Inr binding \<Rightarrow> (if \<not> Enforced binding \<or> b_Scope binding = None then 0 else ScopeMinExportInterval (b_Scope binding)))"

definition maxExportBytes :: "int \<Rightarrow> KollectInventory \<Rightarrow> int" where
  "maxExportBytes globalBytes i = (case inv_MaxExportBytes (ki_Spec i) of
     Some b \<Rightarrow> (if 0 < b then b else globalBytes) | None \<Rightarrow> globalBytes)"

section \<open>The fingerprint cache\<close>

record namespaceFingerprintEntry =
  fe_version :: "64 word"
  fe_fingerprint :: string

type_synonym namespaceFingerprintCache = "(string, namespaceFingerprintEntry) gomap"

text \<open>
  The cache's mutex is held for the lookup and, after the computation, for the store. The sequential
  run is \<open>getOrCompute\<close>; whether the fingerprint was computed is part of its result.
\<close>

definition cache_lookup :: "string \<Rightarrow> 64 word \<Rightarrow> namespaceFingerprintCache \<Rightarrow> string option" where
  "cache_lookup namespace version c = (case map_of c namespace of
     None \<Rightarrow> None | Some entry \<Rightarrow> (if fe_version entry = version then Some (fe_fingerprint entry) else None))"

definition cache_store :: "string \<Rightarrow> 64 word \<Rightarrow> string \<Rightarrow> namespaceFingerprintCache \<Rightarrow> namespaceFingerprintCache" where
  "cache_store namespace version fingerprint c = AList.update namespace \<lparr>fe_version = version, fe_fingerprint = fingerprint\<rparr> c"

definition getOrCompute :: "string \<Rightarrow> 64 word \<Rightarrow> string \<Rightarrow> namespaceFingerprintCache \<Rightarrow> (string \<times> bool) \<times> namespaceFingerprintCache" where
  "getOrCompute namespace version computed c = (case cache_lookup namespace version c of
     Some fingerprint \<Rightarrow> ((fingerprint, False), c)
   | None \<Rightarrow> ((computed, True), cache_store namespace version computed c))"

text \<open>
  The fingerprint of a reconcile: the version is read from the store as it is at one time, the rows
  as they are at a later one. A fingerprint that fails is the empty string for the cache and an
  error for the reconcile that computed it.
\<close>

definition content_fingerprint :: "string \<Rightarrow> store \<Rightarrow> string" where
  "content_fingerprint namespace s = (case ItemsFingerprint (fst (SnapshotNamespace namespace s)) of Inl e \<Rightarrow> [] | Inr fp \<Rightarrow> fp)"

definition reconcile_fingerprint ::
  "string \<Rightarrow> store \<Rightarrow> store \<Rightarrow> namespaceFingerprintCache \<Rightarrow> (export_error + string) \<times> namespaceFingerprintCache" where
  "reconcile_fingerprint namespace atVersion atSnapshot c =
     (case getOrCompute namespace (NamespaceVersion namespace atVersion) (content_fingerprint namespace atSnapshot) c of
        ((fingerprint, itemsComputed), c') \<Rightarrow>
          (if itemsComputed
           then (case ItemsFingerprint (fst (SnapshotNamespace namespace atSnapshot)) of Inl e \<Rightarrow> Inl e | Inr fp \<Rightarrow> Inr fingerprint)
           else Inr fingerprint, c'))"

section \<open>The export pass\<close>

record sinkJob =
  sj_binding :: InventorySinkBinding
  sj_resolved :: ResolvedSink
  sj_identity :: sinkExportIdentity
  sj_interval :: duration
  sj_status :: nat
  sj_parts :: "EnvelopePartition list"
  sj_sinkChecksum :: string

type_synonym pass_state = "perSinkCoalesceTracker \<times> perSinkExportOutcome"

definition requestedAt_of :: "KollectInventory \<Rightarrow> string" where
  "requestedAt_of i = map_get_or [] (ki_Annotations i) AnnotationRequestedAt"

definition binding_interval :: "pass_env \<Rightarrow> KollectInventory \<Rightarrow> InventorySinkBinding \<Rightarrow> ResolvedSink \<Rightarrow> duration" where
  "binding_interval e i binding resolved =
     ResolveSinkExportInterval (isb_Ref binding) (Option.bind (rs_ExportMinInterval resolved) scf_ExportMinInterval)
       (exportDebounce i) (scopeFloor (pe_scopes e))"

text \<open>The entry of a binding at the start of its turn: found or appended, then seeded from the previous status.\<close>

definition seed_entry :: "KollectInventory \<Rightarrow> string \<Rightarrow> perSinkExportOutcome \<Rightarrow> nat \<times> perSinkExportOutcome" where
  "seed_entry i exportKey oc = (case upsertSinkExportStatus (po_SinkExports oc) exportKey of
     (n, exports) \<Rightarrow> (n, update_export n (carryOverSinkExport (is_SinkExports (ki_Status i)) exportKey) (oc\<lparr>po_SinkExports := exports\<rparr>)))"

definition mark_debounced :: "pass_env \<Rightarrow> KollectInventory \<Rightarrow> string \<Rightarrow> string \<Rightarrow> duration \<Rightarrow> nat \<Rightarrow> pass_state \<Rightarrow> pass_state" where
  "mark_debounced e i invKey exportKey interval n st = (case st of (t, oc) \<Rightarrow>
     (t, update_export n (setSinkExportDebounced (pe_setc e) (pe_clock e exportKey 0) (ki_Generation i) interval)
           (oc\<lparr>po_DebouncedCount := po_DebouncedCount oc + 1,
               po_RequeueAfter := mergeRequeueAfter (po_RequeueAfter oc) (nextDue invKey exportKey interval (pe_now e) t)\<rparr>)))"

definition binding_parts :: "pass_env \<Rightarrow> KollectInventory \<Rightarrow> item list \<Rightarrow> InventorySinkBinding \<Rightarrow> export_error + EnvelopePartition list" where
  "binding_parts e i items binding =
     (let ceiling = ResolveBindingMaxExportBytes (isr_MaxExportBytes (isb_Ref binding)) (maxExportBytes (pe_maxExportBytesGlobal e) i);
          ceiling' = (if isb_Family binding \<noteq> SinkFamilySnapshot then 0 else ceiling)
      in PartitionEnvelopes (pe_partClock e) items
           \<lparr>Generation = ki_Generation i, Cluster = [], ExportedAt = pe_now e, PartIndex = 0, PartTotal = 0\<rparr> ceiling')"

definition prepare_binding ::
  "pass_env \<Rightarrow> KollectInventory \<Rightarrow> string \<Rightarrow> item list \<Rightarrow> string \<Rightarrow> InventorySinkBinding \<Rightarrow> pass_state \<times> sinkJob list \<Rightarrow> pass_state \<times> sinkJob list" where
  "prepare_binding e i invKey items checksum binding st = (case st of ((t, oc), jobs) \<Rightarrow>
     let exportKey = sinkExportKey binding; (n, oc') = seed_entry i exportKey oc;
         fail = (\<lambda>err. (failSinkExport (pe_api e) (pe_setc e) (pe_clock e exportKey 0) n invKey exportKey (ki_Generation i) err (t, oc'), jobs))
     in case pe_load e binding of
          Inl err \<Rightarrow> fail err
        | Inr resolved \<Rightarrow>
            let identity = newSinkExportIdentity (ki_UID i) (Some resolved); interval = binding_interval e i binding resolved
            in case binding_parts e i items binding of
                 Inl err \<Rightarrow> fail (ClassError (Some (Sentinel ErrTerminal)) (Message err))
               | Inr parts \<Rightarrow>
                   let sinkChecksum = (if isb_Family binding = SinkFamilySnapshot then PartitionsChecksum parts else checksum);
                       (skip, t') = shouldSkip invKey exportKey identity (ki_Generation i) sinkChecksum (requestedAt_of i) interval (pe_now e) t
                   in if skip then (mark_debounced e i invKey exportKey interval n (t', oc'), jobs)
                      else ((t', oc'), jobs @ [\<lparr>sj_binding = binding, sj_resolved = resolved, sj_identity = identity,
                        sj_interval = interval, sj_status = n, sj_parts = parts, sj_sinkChecksum = sinkChecksum\<rparr>]))"

fun export_parts ::
  "(string \<Rightarrow> EnvelopePartition \<Rightarrow> string list \<times> go_error option) \<Rightarrow> string \<Rightarrow> EnvelopePartition list \<Rightarrow> string list
   \<Rightarrow> string list \<times> go_error option" where
  "export_parts run objectPath [] written = (written, None)"
| "export_parts run objectPath (part # parts) written =
     (case run (PartitionObjectPath objectPath (ep_Index part) (ep_Total part)) part of
        (partWritten, Some err) \<Rightarrow> (written, Some err)
      | (partWritten, None) \<Rightarrow> export_parts run objectPath parts (written @ partWritten))"

definition mark_success :: "pass_env \<Rightarrow> KollectInventory \<Rightarrow> sinkJob \<Rightarrow> string list \<Rightarrow> InventorySinkExportStatus \<Rightarrow> InventorySinkExportStatus" where
  "mark_success e i job written status =
     setSinkExportSynced (pe_setc e) (pe_clock e (ses_Name status) 1) (ki_Generation i) True ''Exported'' ''export completed''
       (status\<lparr>ses_LastExportTime := Some (pe_clock e (ses_Name status) 0), ses_LastChecksum := sj_sinkChecksum job,
               ses_LastExportPaths := recordExportPaths written (ses_LastExportPaths status)\<rparr>)"

definition finish_job :: "pass_env \<Rightarrow> KollectInventory \<Rightarrow> string \<Rightarrow> string \<Rightarrow> sinkJob \<Rightarrow> pass_state \<Rightarrow> pass_state" where
  "finish_job e i invKey objectPath job st = (case st of (t, oc) \<Rightarrow>
     let exportKey = sinkExportKey (sj_binding job) in
     case export_parts (pe_run e exportKey) objectPath (sj_parts job) [] of
       (written, Some err) \<Rightarrow>
         failSinkExport (pe_api e) (pe_setc e) (pe_clock e exportKey 0) (sj_status job) invKey exportKey (ki_Generation i) err (t, oc)
     | (written, None) \<Rightarrow>
         (record_export invKey exportKey (sj_identity job) (ki_Generation i) (sj_sinkChecksum job) (requestedAt_of i) (pe_now e) t,
          let oc' = update_export (sj_status job) (mark_success e i job written) (markExported invKey exportKey oc)
          in oc'\<lparr>po_ExportedCount := po_ExportedCount oc' + 1,
                 po_RequeueAfter := mergeRequeueAfter (po_RequeueAfter oc') (RequeueAfterForZeroInterval (sj_interval job))\<rparr>))"

definition exportToSinks ::
  "pass_env \<Rightarrow> (sinkJob list \<Rightarrow> sinkJob list) \<Rightarrow> KollectInventory \<Rightarrow> string \<Rightarrow> item list \<Rightarrow> string \<Rightarrow> perSinkCoalesceTracker \<Rightarrow> pass_state" where
  "exportToSinks e order i invKey items checksum t =
     (case fold (prepare_binding e i invKey items checksum) (inventorySinkBindings (Some i))
             ((t, zero_outcome\<lparr>po_RequeueAfter := exportDebounce i\<rparr>), []) of
        (st, jobs) \<Rightarrow>
          let objectPath = ''inventory/'' @ ki_Namespace i @ ''/'' @ ki_Name i @ ''.json''
          in fold (finish_job e i invKey objectPath) (order jobs) st)"

section \<open>The preview\<close>

fun preview_bindings ::
  "pass_env \<Rightarrow> KollectInventory \<Rightarrow> string \<Rightarrow> string \<Rightarrow> InventorySinkBinding list \<Rightarrow> pass_state \<Rightarrow> perSinkExportOutcome option \<times> perSinkCoalesceTracker" where
  "preview_bindings e i invKey checksum [] (t, oc) = (Some oc, t)"
| "preview_bindings e i invKey checksum (binding # bindings) (t, oc) =
     (let exportKey = sinkExportKey binding; (n, oc') = seed_entry i exportKey oc
      in case pe_load e binding of
           Inl err \<Rightarrow> (None, t)
         | Inr resolved \<Rightarrow>
             let interval = binding_interval e i binding resolved;
                 (skip, t') = shouldSkip invKey exportKey (newSinkExportIdentity (ki_UID i) (Some resolved)) (ki_Generation i)
                   checksum (requestedAt_of i) interval (pe_now e) t
             in if skip then preview_bindings e i invKey checksum bindings (mark_debounced e i invKey exportKey interval n (t', oc'))
                else (None, t'))"

definition previewAllSinksDebounced ::
  "pass_env \<Rightarrow> KollectInventory \<Rightarrow> string \<Rightarrow> string \<Rightarrow> perSinkCoalesceTracker \<Rightarrow> perSinkExportOutcome option \<times> perSinkCoalesceTracker" where
  "previewAllSinksDebounced e i invKey checksum t =
     (let bindings = inventorySinkBindings (Some i) in
      if bindings = [] then (None, t)
      else case preview_bindings e i invKey checksum bindings (t, zero_outcome\<lparr>po_RequeueAfter := exportDebounce i\<rparr>) of
        (None, t') \<Rightarrow> (None, t')
      | (Some oc, t') \<Rightarrow> (if po_DebouncedCount oc \<noteq> length bindings then (None, t') else (Some oc, t')))"

section \<open>The status write\<close>

text \<open>The API server's answer to a status update; a conflict is told from other errors.\<close>

datatype status_write = Write_Ok | Write_Conflict | Write_Error go_error

record ctrl_Result =
  RequeueAfter :: duration

definition conflictRequeueAfter :: duration where "conflictRequeueAfter = Second"

definition write_answer :: "status_write \<Rightarrow> duration \<Rightarrow> ctrl_Result \<times> go_error option" where
  "write_answer w requeue = (case w of
     Write_Ok \<Rightarrow> (\<lparr>RequeueAfter = requeue\<rparr>, None)
   | Write_Conflict \<Rightarrow> (\<lparr>RequeueAfter = conflictRequeueAfter\<rparr>, None)
   | Write_Error err \<Rightarrow> (\<lparr>RequeueAfter = 0\<rparr>, Some err))"

definition set_condition_of :: "set_condition \<Rightarrow> string \<Rightarrow> time \<Rightarrow> int \<Rightarrow> bool \<Rightarrow> string \<Rightarrow> string \<Rightarrow> Condition list \<Rightarrow> Condition list" where
  "set_condition_of setc type clock generation ok reason message =
     setc \<lparr>co_Type = type, co_Status = ok, co_Reason = reason, co_Message = message,
           co_ObservedGeneration = generation, co_LastTransitionTime = clock\<rparr>"

definition setSinkReachableCondition :: "set_condition \<Rightarrow> time \<Rightarrow> int \<Rightarrow> bool \<Rightarrow> string \<Rightarrow> string \<Rightarrow> Condition list \<Rightarrow> Condition list" where
  "setSinkReachableCondition setc clock generation ok reason message =
     set_condition_of setc ''SinkReachable'' clock generation ok reason (Text message [])"

definition setSinkReachableFromExport ::
  "api_errors \<Rightarrow> set_condition \<Rightarrow> time \<Rightarrow> int \<Rightarrow> go_error option \<Rightarrow> Condition list \<Rightarrow> Condition list" where
  "setSinkReachableFromExport api setc clock generation exportErr = (case exportErr of
     None \<Rightarrow> setSinkReachableCondition setc clock generation True ''ExportSucceeded'' ''last export completed successfully''
   | Some err \<Rightarrow> setSinkReachableCondition setc clock generation False
       (if IsTerminal api err then ''ExportTerminal'' else ''ExportFailed'') (error_text err))"

definition ready_conditions :: "pass_env \<Rightarrow> time \<Rightarrow> KollectInventory \<Rightarrow> nat \<Rightarrow> perSinkExportOutcome \<Rightarrow> Condition list \<Rightarrow> Condition list" where
  "ready_conditions e clock i itemCount oc conditions =
     (let sinkCount = totalInventorySinkRefs i; set = set_condition_of (pe_setc e) in
      if po_FailedCount oc = 0 \<and> po_ExportErr oc = None then
        set ''Ready'' clock (ki_Generation i) True ''Exported''
          (''exported '' @ show_nat itemCount @ '' item(s) across '' @ show_nat sinkCount @ '' sink(s)'') (pe_removec e ''Degraded'' conditions)
      else if 0 < po_ExportedCount oc then
        set ''Ready'' clock (ki_Generation i) True ''PartiallySynced''
          (''exported '' @ show_nat itemCount @ '' item(s) to '' @ show_nat (po_ExportedCount oc) @ ''/'' @ show_nat sinkCount @ '' sink(s)'')
          (pe_removec e ''Degraded'' conditions)
      else if 0 < po_FailedCount oc \<and> po_ExportedCount oc = 0 then
        let message = (case po_ExportErr oc of None \<Rightarrow> ''export failed'' | Some err \<Rightarrow> Text (error_text err) [])
        in set ''Ready'' clock (ki_Generation i) False ''ExportFailed'' message
             (set ''Degraded'' clock (ki_Generation i) True ''ExportFailed'' message conditions)
      else conditions)"

definition updateStatus ::
  "pass_env \<Rightarrow> time \<Rightarrow> (KollectInventory \<Rightarrow> status_write) \<Rightarrow> KollectInventory \<Rightarrow> nat \<Rightarrow> pass_state
   \<Rightarrow> (ctrl_Result \<times> go_error option) \<times> KollectInventory \<times> perSinkCoalesceTracker" where
  "updateStatus e clock write i itemCount st = (case st of (t, oc) \<Rightarrow>
     let s = (ki_Status i)\<lparr>is_ObservedGeneration := ki_Generation i, is_ItemCount := itemCount, is_SinkExports := po_SinkExports oc\<rparr>;
         s' = (if totalInventorySinkRefs i = 0 then s
               else s\<lparr>is_LastExportTime := (case latestExportTime (po_SinkExports oc) of None \<Rightarrow> is_LastExportTime s | Some l \<Rightarrow> Some l),
                      is_Conditions := ready_conditions e clock i itemCount oc
                        (aggregateInventorySync (pe_setc e) clock (ki_Generation i) (po_ExportedCount oc) (po_DebouncedCount oc) (po_FailedCount oc)
                          (setSinkReachableFromExport (pe_api e) (pe_setc e) clock (ki_Generation i) (po_ExportErr oc) (is_Conditions s)))\<rparr>);
         i' = i\<lparr>ki_Status := s'\<rparr>; w = write i'
     in (write_answer w (if po_RequeueAfter oc \<le> 0 then exportDebounce i else po_RequeueAfter oc), i',
         if w = Write_Ok then t else forgetUnpersistedExports oc t))"

definition setInventoryDegraded ::
  "pass_env \<Rightarrow> time \<Rightarrow> (KollectInventory \<Rightarrow> status_write) \<Rightarrow> KollectInventory \<Rightarrow> nat \<Rightarrow> string \<Rightarrow> string
   \<Rightarrow> (ctrl_Result \<times> go_error option) \<times> KollectInventory" where
  "setInventoryDegraded e clock write i itemCount reason message =
     (let msg = Text message [];
          conditions = set_condition_of (pe_setc e) ''Degraded'' clock (ki_Generation i) True reason msg
            (setSyncedCondition (pe_setc e) clock (ki_Generation i) False reason msg (pe_removec e ''Ready'' (is_Conditions (ki_Status i))));
          i' = i\<lparr>ki_Status := (ki_Status i)\<lparr>is_ItemCount := itemCount, is_ObservedGeneration := ki_Generation i, is_Conditions := conditions\<rparr>\<rparr>
      in (write_answer (write i') (RequeueAfterForZeroInterval (exportDebounce i)), i'))"

definition applyInventoryExportOutcome ::
  "pass_env \<Rightarrow> time \<Rightarrow> (sinkJob list \<Rightarrow> sinkJob list) \<Rightarrow> (KollectInventory \<Rightarrow> status_write) \<Rightarrow> KollectInventory \<Rightarrow> nat \<Rightarrow> string
   \<Rightarrow> item list \<Rightarrow> string \<Rightarrow> perSinkCoalesceTracker \<Rightarrow> (ctrl_Result \<times> go_error option) \<times> KollectInventory \<times> perSinkCoalesceTracker" where
  "applyInventoryExportOutcome e clock order write i itemCount invKey items fingerprint t =
     (case exportToSinks e order i invKey items fingerprint t of (t', oc) \<Rightarrow>
        (case po_ExportErr oc of
           Some err \<Rightarrow>
             (if isTotalExportFailure oc then
                let reason = (if err_is err ErrSpillRequired then ''SpillRequired''
                              else if IsTerminal (pe_api e) err then ''ExportTerminal'' else ''Progressing'');
                    conditions = setSyncedCondition (pe_setc e) clock (ki_Generation i) False reason (error_text err)
                      (setSinkReachableFromExport (pe_api e) (pe_setc e) clock (ki_Generation i) (Some err) (is_Conditions (ki_Status i)));
                    i' = i\<lparr>ki_Status := (ki_Status i)\<lparr>is_Conditions := conditions, is_SinkExports := po_SinkExports oc\<rparr>\<rparr>
                in case setInventoryDegraded e clock write i' itemCount reason (error_text err) of
                     ((result, werr), i'') \<Rightarrow>
                       (((if IsTerminal (pe_api e) err then result\<lparr>RequeueAfter := 0\<rparr> else result), werr), i'', t')
              else updateStatus e clock write i itemCount (t', oc))
         | None \<Rightarrow> updateStatus e clock write i itemCount (t', oc)))"

section \<open>What a pass keeps\<close>

text \<open>
  The invariant of a pass over bindings with pairwise distinct keys. \<open>pend\<close> lists the bindings that
  are not settled yet, by key and index of their entry; \<open>bs\<close> are the bindings that had their turn.
\<close>

definition same_record :: "InventorySinkExportStatus \<Rightarrow> InventorySinkExportStatus \<Rightarrow> bool" where
  "same_record a b \<longleftrightarrow> ses_LastExportTime a = ses_LastExportTime b \<and> ses_LastChecksum a = ses_LastChecksum b
     \<and> ses_LastExportPaths a = ses_LastExportPaths b"

definition blank_entry :: "string \<Rightarrow> InventorySinkExportStatus" where
  "blank_entry name = \<lparr>ses_Name = name, ses_Namespace = [], ses_LastExportTime = None, ses_LastChecksum = [],
     ses_LastExportPaths = [], ses_Conditions = []\<rparr>"

definition carried :: "InventorySinkExportStatus list \<Rightarrow> string \<Rightarrow> InventorySinkExportStatus" where
  "carried prev name = carryOverSinkExport prev name (blank_entry name)"

definition count_ok :: "api_errors \<Rightarrow> nat \<Rightarrow> perSinkExportOutcome \<Rightarrow> (string \<times> nat) list \<Rightarrow> bool" where
  "count_ok api n oc pend \<longleftrightarrow> length (po_exportedSinks oc) = po_ExportedCount oc \<and> length (po_failedSinks oc) = po_FailedCount oc
     \<and> length (po_exportErrs oc) = po_FailedCount oc \<and> po_ExportErr oc = aggregateExportErrs api (po_exportErrs oc)
     \<and> po_ExportedCount oc + po_DebouncedCount oc + po_FailedCount oc + length pend = n"

definition keys_ok :: "string list \<Rightarrow> perSinkExportOutcome \<Rightarrow> (string \<times> nat) list \<Rightarrow> bool" where
  "keys_ok keys oc pend \<longleftrightarrow> map ses_Name (po_SinkExports oc) = keys \<and> distinct keys
     \<and> distinct (map fst pend @ po_failedSinks oc @ po_exportedSinks oc)
     \<and> set (po_failedSinks oc @ po_exportedSinks oc) \<subseteq> set keys
     \<and> (\<forall>p \<in> set pend. snd p < length keys \<and> keys ! snd p = fst p)"

definition record_ok :: "InventorySinkExportStatus list \<Rightarrow> perSinkExportOutcome \<Rightarrow> bool" where
  "record_ok prev oc \<longleftrightarrow> (\<forall>x \<in> set (po_SinkExports oc). ses_Name x \<notin> set (po_exportedSinks oc) \<longrightarrow> same_record x (carried prev (ses_Name x)))"

definition forgotten_ok :: "string \<Rightarrow> perSinkCoalesceTracker \<Rightarrow> perSinkExportOutcome \<Rightarrow> bool" where
  "forgotten_ok invKey t oc \<longleftrightarrow> (\<forall>k \<in> set (po_failedSinks oc). map_of t (tracker_key invKey k) = None)"

definition recorded_ok :: "string \<Rightarrow> time \<Rightarrow> perSinkCoalesceTracker \<Rightarrow> perSinkExportOutcome \<Rightarrow> bool" where
  "recorded_ok invKey now t oc \<longleftrightarrow> (po_exportedSinks oc \<noteq> [] \<longrightarrow> po_trackerKey oc = invKey)
     \<and> (\<forall>x \<in> set (po_SinkExports oc). ses_Name x \<in> set (po_exportedSinks oc) \<longrightarrow>
          (\<exists>s. map_of t (tracker_key invKey (ses_Name x)) = Some s \<and> cs_lastExport s = now \<and> cs_lastChecksum s = ses_LastChecksum x))"

definition pass_ok :: "api_errors \<Rightarrow> InventorySinkExportStatus list \<Rightarrow> string \<Rightarrow> time \<Rightarrow> string list \<Rightarrow> pass_state \<Rightarrow> (string \<times> nat) list \<Rightarrow> bool" where
  "pass_ok api prev invKey now keys st pend \<longleftrightarrow> distinct (map fst (fst st)) \<and> count_ok api (length keys) (snd st) pend
     \<and> keys_ok keys (snd st) pend \<and> record_ok prev (snd st) \<and> forgotten_ok invKey (fst st) (snd st) \<and> recorded_ok invKey now (fst st) (snd st)"

lemma update_export_fields [simp]:
  "po_ExportedCount (update_export n f oc) = po_ExportedCount oc" "po_DebouncedCount (update_export n f oc) = po_DebouncedCount oc"
  "po_FailedCount (update_export n f oc) = po_FailedCount oc" "po_ExportErr (update_export n f oc) = po_ExportErr oc"
  "po_failedSinks (update_export n f oc) = po_failedSinks oc" "po_exportErrs (update_export n f oc) = po_exportErrs oc"
  "po_trackerKey (update_export n f oc) = po_trackerKey oc" "po_exportedSinks (update_export n f oc) = po_exportedSinks oc"
  "po_RequeueAfter (update_export n f oc) = po_RequeueAfter oc"
  by (simp_all add: update_export_def)

lemma update_export_names:
  assumes "\<And>x. ses_Name (f x) = ses_Name x"
  shows "map ses_Name (po_SinkExports (update_export n f oc)) = map ses_Name (po_SinkExports oc)"
proof (cases "n < length (po_SinkExports oc)")
  case True
  then have "(map ses_Name (po_SinkExports oc))[n := ses_Name (po_SinkExports oc ! n)] = map ses_Name (po_SinkExports oc)"
    by (metis list_update_id nth_map)
  then show ?thesis using assms by (simp add: update_export_def map_update)
next
  case False
  then show ?thesis by (simp add: update_export_def list_update_beyond)
qed

lemma update_export_entry:
  assumes "x \<in> set (po_SinkExports (update_export n f oc))"
  shows "x \<in> set (po_SinkExports oc) \<or> (n < length (po_SinkExports oc) \<and> x = f (po_SinkExports oc ! n))"
proof (cases "n < length (po_SinkExports oc)")
  case True
  then show ?thesis using assms set_update_subset_insert [of "po_SinkExports oc" n] by (auto simp: update_export_def)
next
  case False
  then show ?thesis using assms by (simp add: update_export_def list_update_beyond)
qed

text \<open>An update that keeps the record of an entry.\<close>

definition keeps_record :: "(InventorySinkExportStatus \<Rightarrow> InventorySinkExportStatus) \<Rightarrow> bool" where
  "keeps_record f \<longleftrightarrow> (\<forall>x. ses_Name (f x) = ses_Name x \<and> same_record (f x) x)"

lemma keeps_record_synced: "keeps_record (setSinkExportSynced setc clock g ok reason message)"
  by (simp add: keeps_record_def setSinkExportSynced_def same_record_def)

lemma keeps_record_debounced: "keeps_record (setSinkExportDebounced setc clock g interval)"
  unfolding setSinkExportDebounced_def by (rule keeps_record_synced)

lemma update_export_same:
  assumes "keeps_record f" "x \<in> set (po_SinkExports (update_export n f oc))"
  shows "\<exists>y \<in> set (po_SinkExports oc). ses_Name x = ses_Name y \<and> same_record x y"
  using update_export_entry [OF assms(2)] assms(1) by (auto simp: keeps_record_def same_record_def)

lemma same_record_trans: "same_record a b \<Longrightarrow> same_record b c \<Longrightarrow> same_record a c"
  by (simp add: same_record_def)

lemma record_ok_update:
  assumes "keeps_record f" "record_ok prev oc"
  shows "record_ok prev (update_export n f oc)"
  unfolding record_ok_def update_export_fields
proof (intro ballI impI)
  fix x assume x: "x \<in> set (po_SinkExports (update_export n f oc))" "ses_Name x \<notin> set (po_exportedSinks oc)"
  obtain y where "y \<in> set (po_SinkExports oc)" "ses_Name x = ses_Name y" "same_record x y"
    using update_export_same [OF assms(1) x(1)] by blast
  then show "same_record x (carried prev (ses_Name x))"
    using assms(2) x(2) same_record_trans unfolding record_ok_def by metis
qed

lemma recorded_ok_update:
  assumes "keeps_record f" "recorded_ok invKey now t oc"
  shows "recorded_ok invKey now t (update_export n f oc)"
  unfolding recorded_ok_def update_export_fields
proof (intro conjI ballI impI)
  fix x assume x: "x \<in> set (po_SinkExports (update_export n f oc))" "ses_Name x \<in> set (po_exportedSinks oc)"
  obtain y where "y \<in> set (po_SinkExports oc)" "ses_Name x = ses_Name y" "ses_LastChecksum x = ses_LastChecksum y"
    using update_export_same [OF assms(1) x(1)] by (auto simp: same_record_def)
  then show "\<exists>s. map_of t (tracker_key invKey (ses_Name x)) = Some s \<and> cs_lastExport s = now \<and> cs_lastChecksum s = ses_LastChecksum x"
    using assms(2) x(2) unfolding recorded_ok_def by metis
qed (use assms(2) in \<open>simp add: recorded_ok_def\<close>)

lemma keys_ok_update:
  assumes "\<And>x. ses_Name (f x) = ses_Name x" "keys_ok keys oc pend"
  shows "keys_ok keys (update_export n f oc) pend"
  using assms(2) update_export_names [of f n oc, OF assms(1)] unfolding keys_ok_def update_export_fields by simp

subsection \<open>Settling a binding\<close>

lemma map_of_forget: "map_of (forget invKey k t) (tracker_key invKey k') = (if k' = k then None else map_of t (tracker_key invKey k'))"
  by (simp add: forget_def delete_conv tracker_key_def)

lemma fail_ok:
  assumes "pass_ok api prev invKey now keys (t, oc) ((k, n) # pend)"
  shows "pass_ok api prev invKey now keys (failSinkExport api setc clock n invKey k g err (t, oc)) pend"
proof -
  let ?f = "setSinkExportSynced setc clock g False (sinkExportFailureReason err) (error_text err)"
  let ?oc = "addSinkFailure api k err oc"
  have eqs: "po_SinkExports ?oc = po_SinkExports oc" "po_exportedSinks ?oc = po_exportedSinks oc" "po_trackerKey ?oc = po_trackerKey oc"
    "po_failedSinks ?oc = po_failedSinks oc @ [k]"
    by (simp_all add: addSinkFailure_def Let_def)
  have d: "distinct (map fst t)" and c: "count_ok api (length keys) oc ((k, n) # pend)" and ks: "keys_ok keys oc ((k, n) # pend)"
    and r: "record_ok prev oc" and f: "forgotten_ok invKey t oc" and e: "recorded_ok invKey now t oc"
    using assms by (simp_all add: pass_ok_def)
  have "k \<notin> set (po_exportedSinks oc)" "k \<in> set keys" using ks by (auto simp: keys_ok_def)
  have "count_ok api (length keys) ?oc pend" using c by (simp add: count_ok_def addSinkFailure_def Let_def)
  moreover have "keys_ok keys ?oc pend" using ks \<open>k \<in> set keys\<close> by (auto simp: keys_ok_def eqs)
  moreover have "record_ok prev ?oc" using r by (simp add: record_ok_def eqs)
  moreover have "forgotten_ok invKey (forget invKey k t) ?oc" using f by (simp add: forgotten_ok_def eqs map_of_forget)
  moreover have "recorded_ok invKey now (forget invKey k t) ?oc"
    using e \<open>k \<notin> set (po_exportedSinks oc)\<close> unfolding recorded_ok_def eqs map_of_forget by metis
  moreover have "distinct (map fst (forget invKey k t))" using d by (simp add: forget_def distinct_delete)
  moreover have "keeps_record ?f" by (rule keeps_record_synced)
  moreover have "ses_Name (?f x) = ses_Name x" for x by (simp add: setSinkExportSynced_def)
  ultimately show ?thesis
    unfolding pass_ok_def failSinkExport_def prod.case fst_conv snd_conv
    using keys_ok_update [of ?f] record_ok_update [of ?f] recorded_ok_update [of ?f]
    by (simp add: count_ok_def forgotten_ok_def)
qed

lemma skip_other:
  assumes "k' \<noteq> k"
  shows "map_of (snd (shouldSkip invKey k d g c r v now t)) (tracker_key invKey k') = map_of t (tracker_key invKey k')"
proof -
  have "tracker_key invKey k' \<noteq> tracker_key invKey k" using assms by (simp add: tracker_key_def)
  then show ?thesis using skip_state [of invKey k d g c r v now t] by (auto simp: update_conv)
qed

lemma skip_ok:
  assumes "pass_ok api prev invKey now keys (t, oc) ((k, n) # pend)"
  shows "pass_ok api prev invKey now keys (snd (shouldSkip invKey k d g c r v now t), oc) ((k, n) # pend)"
proof -
  let ?t = "snd (shouldSkip invKey k d g c r v now t)"
  have d: "distinct (map fst t)" and ks: "keys_ok keys oc ((k, n) # pend)" and f: "forgotten_ok invKey t oc" and e: "recorded_ok invKey now t oc"
    using assms by (simp_all add: pass_ok_def)
  have k: "k \<notin> set (po_exportedSinks oc)" "k \<notin> set (po_failedSinks oc)" using ks by (auto simp: keys_ok_def)
  have "forgotten_ok invKey ?t oc" using f k skip_other unfolding forgotten_ok_def by metis
  moreover have "recorded_ok invKey now ?t oc" using e k skip_other unfolding recorded_ok_def by metis
  moreover have "distinct (map fst ?t)" using d skip_state [of invKey k d g c r v now t] by (auto simp: distinct_update)
  ultimately show ?thesis using assms by (simp add: pass_ok_def)
qed

lemma debounced_ok:
  assumes "pass_ok api prev invKey now keys (t, oc) ((k, n) # pend)"
  shows "pass_ok api prev invKey now keys (mark_debounced e i invKey k v n (t, oc)) pend"
proof -
  let ?f = "setSinkExportDebounced (pe_setc e) (pe_clock e k 0) (ki_Generation i) v"
  let ?oc = "oc\<lparr>po_DebouncedCount := po_DebouncedCount oc + 1,
    po_RequeueAfter := mergeRequeueAfter (po_RequeueAfter oc) (nextDue invKey k v (pe_now e) t)\<rparr>"
  have "count_ok api (length keys) ?oc pend" using assms by (simp add: pass_ok_def count_ok_def)
  moreover have "keys_ok keys ?oc pend" using assms by (auto simp: pass_ok_def keys_ok_def)
  moreover have "record_ok prev ?oc = record_ok prev oc" by (simp add: record_ok_def)
  moreover have "forgotten_ok invKey t ?oc = forgotten_ok invKey t oc" by (simp add: forgotten_ok_def)
  moreover have "recorded_ok invKey now t ?oc = recorded_ok invKey now t oc" by (simp add: recorded_ok_def)
  moreover have "record_ok prev oc" "forgotten_ok invKey t oc" "recorded_ok invKey now t oc" "distinct (map fst t)"
    using assms by (simp_all add: pass_ok_def)
  moreover have "keeps_record ?f" by (rule keeps_record_debounced)
  moreover have "ses_Name (?f x) = ses_Name x" for x by (simp add: setSinkExportDebounced_def setSinkExportSynced_def)
  ultimately show ?thesis
    unfolding pass_ok_def mark_debounced_def prod.case fst_conv snd_conv
    using keys_ok_update [of ?f] record_ok_update [of ?f] recorded_ok_update [of ?f]
    by (simp add: count_ok_def forgotten_ok_def)
qed

lemma map_of_record:
  assumes "distinct (map fst t)"
  shows "\<exists>s. map_of (record_export invKey k d g c r now t) (tracker_key invKey k) = Some s \<and> cs_lastExport s = now \<and> cs_lastChecksum s = c"
    and "k' \<noteq> k \<Longrightarrow> map_of t (tracker_key invKey k') = None \<Longrightarrow>
      map_of (record_export invKey k d g c r now t) (tracker_key invKey k') = None"
    and "k' \<noteq> k \<Longrightarrow> map_of t (tracker_key invKey k') = Some s \<Longrightarrow> cs_lastExport s = now \<Longrightarrow>
      map_of (record_export invKey k d g c r now t) (tracker_key invKey k') = Some s"
proof -
  show "\<exists>s. map_of (record_export invKey k d g c r now t) (tracker_key invKey k) = Some s \<and> cs_lastExport s = now \<and> cs_lastChecksum s = c"
    by (simp add: record_export_def Let_def update_conv)
  have other: "map_of (record_export invKey k d g c r now t) (tracker_key invKey k') = map_of (pruneStaleLocked now t) (tracker_key invKey k')"
    if "k' \<noteq> k" for k'
    unfolding record_export_def Let_def update_conv using that by (simp add: tracker_key_def)
  show "map_of (record_export invKey k d g c r now t) (tracker_key invKey k') = None"
    if "k' \<noteq> k" "map_of t (tracker_key invKey k') = None"
    unfolding other [OF that(1)] pruneStaleLocked_def map_of_filter_distinct [OF assms] that(2) by simp
  have ttl: "0 \<le> coalesceStateTTL" by (simp add: coalesceStateTTL_def MaxExportInterval_def Hour_def Minute_def Second_def)
  have latest: "cs_lastExport s \<le> latestTime (cs_lastExport s) (cs_lastSkipped s)" for s by (simp add: latestTime_def)
  have "\<not> coalesceStateTTL < cs_lastExport s - latestTime (cs_lastExport s) (cs_lastSkipped s)" for s
    using ttl latest [of s] by linarith
  then show "map_of (record_export invKey k d g c r now t) (tracker_key invKey k') = Some s"
    if "k' \<noteq> k" "map_of t (tracker_key invKey k') = Some s" "cs_lastExport s = now"
    unfolding other [OF that(1)] pruneStaleLocked_def map_of_filter_distinct [OF assms] that(2) using that(3) by auto
qed

lemma record_distinct: "distinct (map fst t) \<Longrightarrow> distinct (map fst (record_export invKey k d g c r now t))"
  unfolding record_export_def Let_def pruneStaleLocked_def by (intro distinct_update distinct_map_filter)

definition job_pend :: "sinkJob \<Rightarrow> string \<times> nat" where
  "job_pend job = (sinkExportKey (sj_binding job), sj_status job)"

definition counted :: "duration \<Rightarrow> perSinkExportOutcome \<Rightarrow> perSinkExportOutcome" where
  "counted v oc = oc\<lparr>po_ExportedCount := po_ExportedCount oc + 1,
     po_RequeueAfter := mergeRequeueAfter (po_RequeueAfter oc) (RequeueAfterForZeroInterval v)\<rparr>"

lemma mark_success_fields:
  "ses_Name (mark_success e i job w x) = ses_Name x" "ses_LastChecksum (mark_success e i job w x) = sj_sinkChecksum job"
  by (simp_all add: mark_success_def setSinkExportSynced_def)

lemma success_entries:
  assumes ks: "keys_ok keys oc ((k, n) # pend)" and x: "x \<in> set (po_SinkExports (update_export n (mark_success e i job w) oc))"
  shows "(ses_Name x = k \<and> ses_LastChecksum x = sj_sinkChecksum job) \<or> (ses_Name x \<noteq> k \<and> x \<in> set (po_SinkExports oc))"
proof -
  let ?xs = "po_SinkExports oc"
  have names: "map ses_Name ?xs = keys" and "distinct keys" and n: "n < length keys" "keys ! n = k" using ks by (simp_all add: keys_ok_def)
  have len: "length ?xs = length keys" using arg_cong [OF names, of length] by simp
  obtain j where j: "j < length ?xs" "x = (?xs[n := mark_success e i job w (?xs ! n)]) ! j"
    using x by (auto simp: update_export_def in_set_conv_nth)
  have nm: "ses_Name (?xs ! j) = keys ! j" if "j < length ?xs" for j using that names nth_map by metis
  show ?thesis
  proof (cases "j = n")
    case True
    then show ?thesis using j n nm len by (simp add: mark_success_fields)
  next
    case False
    then have "keys ! j \<noteq> k" using \<open>distinct keys\<close> n j(1) len nth_eq_iff_index_eq by metis
    then show ?thesis using j False nm by simp
  qed
qed

lemma success_ok:
  fixes job :: sinkJob
  defines "k \<equiv> sinkExportKey (sj_binding job)" and "n \<equiv> sj_status job"
  assumes "pass_ok api prev invKey now keys (t, oc) (job_pend job # pend)"
  shows "pass_ok api prev invKey now keys
    (record_export invKey k d g (sj_sinkChecksum job) r now t,
     counted v (update_export n (mark_success e i job w) (markExported invKey k oc))) pend"
proof -
  let ?m = "markExported invKey k oc" and ?f = "mark_success e i job w"
  let ?t = "record_export invKey k d g (sj_sinkChecksum job) r now t"
  let ?oc = "counted v (update_export n ?f ?m)"
  have d: "distinct (map fst t)" and c: "count_ok api (length keys) oc ((k, n) # pend)" and ks: "keys_ok keys oc ((k, n) # pend)"
    and rc: "record_ok prev oc" and f: "forgotten_ok invKey t oc" and e: "recorded_ok invKey now t oc"
    using assms(3) by (simp_all add: pass_ok_def job_pend_def k_def n_def)
  have eqs: "po_exportedSinks ?oc = po_exportedSinks oc @ [k]" "po_failedSinks ?oc = po_failedSinks oc" "po_trackerKey ?oc = invKey"
    "po_SinkExports ?oc = po_SinkExports (update_export n ?f oc)" "po_SinkExports ?m = po_SinkExports oc"
    by (simp_all add: counted_def markExported_def update_export_def)
  have k: "k \<notin> set (po_exportedSinks oc)" "k \<notin> set (po_failedSinks oc)" "k \<in> set keys" using ks by (auto simp: keys_ok_def)
  note entries = success_entries [OF ks, of _ e i job w]
  have "count_ok api (length keys) ?oc pend" using c by (simp add: count_ok_def counted_def markExported_def)
  moreover have "keys_ok keys ?oc pend"
    using ks k update_export_names [of ?f n oc] by (auto simp: keys_ok_def eqs mark_success_fields)
  moreover have "record_ok prev ?oc" unfolding record_ok_def eqs using rc entries unfolding record_ok_def by auto
  moreover have "forgotten_ok invKey ?t ?oc"
    using f k(2) map_of_record(2) [OF d] unfolding forgotten_ok_def eqs by metis
  moreover have "recorded_ok invKey now ?t ?oc"
    unfolding recorded_ok_def eqs
  proof (intro conjI ballI impI)
    fix x assume x: "x \<in> set (po_SinkExports (update_export n ?f oc))" "ses_Name x \<in> set (po_exportedSinks oc @ [k])"
    consider "ses_Name x = k" "ses_LastChecksum x = sj_sinkChecksum job" | "ses_Name x \<noteq> k" "x \<in> set (po_SinkExports oc)"
      using entries [OF x(1)] by blast
    then show "\<exists>s. map_of ?t (tracker_key invKey (ses_Name x)) = Some s \<and> cs_lastExport s = now \<and> cs_lastChecksum s = ses_LastChecksum x"
    proof cases
      case 1
      then show ?thesis using map_of_record(1) [OF d, of invKey k d g "sj_sinkChecksum job" r now] by simp
    next
      case 2
      then obtain s where "map_of t (tracker_key invKey (ses_Name x)) = Some s" "cs_lastExport s = now" "cs_lastChecksum s = ses_LastChecksum x"
        using e x(2) unfolding recorded_ok_def by auto
      then show ?thesis using map_of_record(3) [OF d 2(1)] by blast
    qed
  qed simp
  ultimately show ?thesis using record_distinct [OF d] by (simp add: pass_ok_def)
qed

lemma seed_ok:
  assumes "pass_ok api (is_SinkExports (ki_Status i)) invKey now keys (t, oc) pend" "k \<notin> set keys" "seed_entry i k oc = (n, oc')"
  shows "pass_ok api (is_SinkExports (ki_Status i)) invKey now (keys @ [k]) (t, oc') ((k, n) # pend)"
proof -
  let ?prev = "is_SinkExports (ki_Status i)" and ?xs = "po_SinkExports oc"
  have names: "map ses_Name ?xs = keys" using assms(1) by (simp add: pass_ok_def keys_ok_def)
  have "index_of_name xs k = None" if "k \<notin> set (map ses_Name xs)" for xs
    using that by (induction xs) auto
  then have "index_of_name ?xs k = None" using assms(2) names by metis
  then have n: "n = length ?xs" and oc': "oc' = oc\<lparr>po_SinkExports := ?xs @ [carried ?prev k]\<rparr>"
    using assms(3) by (auto simp: seed_entry_def upsertSinkExportStatus_def update_export_def carried_def blank_entry_def)
  have nm: "ses_Name (carried ?prev k) = k"
    by (simp add: carried_def carryOverSinkExport_def blank_entry_def split: option.split)
  have len: "length ?xs = length keys" using arg_cong [OF names, of length] by simp
  have ks: "keys_ok keys oc pend" using assms(1) by (simp add: pass_ok_def)
  then have "fst p \<in> set keys" if "p \<in> set pend" for p using that nth_mem unfolding keys_ok_def by metis
  then have fresh: "k \<notin> set (po_failedSinks oc)" "k \<notin> set (po_exportedSinks oc)" "k \<notin> fst ` set pend"
    using assms(2) ks by (auto simp: keys_ok_def)
  have "count_ok api (length (keys @ [k])) oc' ((k, n) # pend)" using assms(1) by (simp add: pass_ok_def count_ok_def oc')
  moreover have "keys_ok (keys @ [k]) oc' ((k, n) # pend)"
    using ks fresh assms(2) nm len by (auto simp: keys_ok_def oc' n nth_append)
  moreover have "record_ok ?prev oc'" using assms(1) nm by (simp add: pass_ok_def record_ok_def oc' same_record_def)
  moreover have "forgotten_ok invKey t oc'" using assms(1) by (simp add: pass_ok_def forgotten_ok_def oc')
  moreover have "recorded_ok invKey now t oc" using assms(1) by (simp add: pass_ok_def)
  then have "recorded_ok invKey now t oc'" using nm fresh(2) unfolding recorded_ok_def oc' by simp
  moreover have "distinct (map fst t)" using assms(1) by (simp add: pass_ok_def)
  ultimately show ?thesis by (simp add: pass_ok_def)
qed

lemma pass_ok_perm:
  assumes "pass_ok api prev invKey now keys st pend" "mset pend = mset pend'"
  shows "pass_ok api prev invKey now keys st pend'"
proof -
  have "length pend = length pend'" "set pend = set pend'" using assms(2) mset_eq_length mset_eq_setD by blast+
  moreover have "distinct (map fst pend) = distinct (map fst pend')"
    using assms(2) mset_eq_imp_distinct_iff [of "map fst pend" "map fst pend'"] by simp
  ultimately show ?thesis using assms(1) by (simp add: pass_ok_def count_ok_def keys_ok_def)
qed

subsection \<open>The whole pass\<close>

abbreviation pass_inv :: "pass_env \<Rightarrow> KollectInventory \<Rightarrow> string \<Rightarrow> string list \<Rightarrow> pass_state \<Rightarrow> (string \<times> nat) list \<Rightarrow> bool" where
  "pass_inv e i invKey \<equiv> pass_ok (pe_api e) (is_SinkExports (ki_Status i)) invKey (pe_now e)"

lemma prepare_ok:
  assumes ok: "pass_inv e i invKey keys st (map job_pend jobs)" and "sinkExportKey b \<notin> set keys"
    and eq: "prepare_binding e i invKey items checksum b (st, jobs) = (st', jobs')"
  shows "pass_inv e i invKey (keys @ [sinkExportKey b]) st' (map job_pend jobs')"
proof -
  obtain t oc where st: "st = (t, oc)" by (cases st)
  let ?k = "sinkExportKey b"
  obtain n oc' where seed: "seed_entry i ?k oc = (n, oc')" by (cases "seed_entry i ?k oc")
  have s: "pass_inv e i invKey (keys @ [?k]) (t, oc') ((?k, n) # map job_pend jobs)"
    using seed_ok [OF _ assms(2) seed] ok st by blast
  note unfolded = eq [unfolded prepare_binding_def st prod.case seed Let_def]
  show ?thesis
  proof (cases "pe_load e b")
    case (Inl err)
    then show ?thesis using unfolded fail_ok [OF s] by auto
  next
    case load: (Inr resolved)
    show ?thesis
    proof (cases "binding_parts e i items b")
      case (Inl err)
      then show ?thesis using unfolded load fail_ok [OF s] by auto
    next
      case (Inr parts)
      let ?c = "if isb_Family b = SinkFamilySnapshot then PartitionsChecksum parts else checksum"
      let ?skip = "shouldSkip invKey ?k (newSinkExportIdentity (ki_UID i) (Some resolved)) (ki_Generation i) ?c (requestedAt_of i)
        (binding_interval e i b resolved) (pe_now e) t"
      obtain sk t' where sk: "?skip = (sk, t')" by (cases ?skip)
      have s': "pass_inv e i invKey (keys @ [?k]) (t', oc') ((?k, n) # map job_pend jobs)"
        using skip_ok [OF s, of "newSinkExportIdentity (ki_UID i) (Some resolved)" "ki_Generation i" ?c "requestedAt_of i"
            "binding_interval e i b resolved"] unfolding sk snd_conv .
      show ?thesis
      proof (cases sk)
        case True
        then show ?thesis using unfolded load Inr sk debounced_ok [OF s'] by auto
      next
        case False
        then have "st' = (t', oc')" "map job_pend jobs' = map job_pend jobs @ [(?k, n)]"
          using unfolded load Inr sk by (auto simp: job_pend_def)
        then show ?thesis using pass_ok_perm [OF s'] by simp
      qed
    qed
  qed
qed

lemma prepare_fold:
  assumes "distinct (map sinkExportKey bs)" "distinct (map fst t)"
    and "fold (prepare_binding e i invKey items checksum) bs ((t, zero_outcome\<lparr>po_RequeueAfter := v\<rparr>), []) = (st, jobs)"
  shows "pass_inv e i invKey (map sinkExportKey bs) st (map job_pend jobs)"
  using assms(1,3)
proof (induction bs arbitrary: st jobs rule: rev_induct)
  case Nil
  then show ?case using assms(2)
    by (auto simp: pass_ok_def count_ok_def keys_ok_def record_ok_def forgotten_ok_def recorded_ok_def zero_outcome_def aggregateExportErrs_def)
next
  case (snoc b bs)
  obtain st0 jobs0 where f: "fold (prepare_binding e i invKey items checksum) bs ((t, zero_outcome\<lparr>po_RequeueAfter := v\<rparr>), []) = (st0, jobs0)"
    by fastforce
  then have "pass_inv e i invKey (map sinkExportKey bs) st0 (map job_pend jobs0)" using snoc by simp
  moreover have "prepare_binding e i invKey items checksum b (st0, jobs0) = (st, jobs)" using snoc.prems(2) f by simp
  ultimately show ?case using prepare_ok [of e i invKey "map sinkExportKey bs"] snoc.prems(1) by auto
qed

lemma finish_ok:
  assumes "pass_inv e i invKey keys st (job_pend job # pend)"
  shows "pass_inv e i invKey keys (finish_job e i invKey objectPath job st) pend"
proof -
  obtain t oc where st: "st = (t, oc)" by (cases st)
  let ?k = "sinkExportKey (sj_binding job)"
  obtain w err where run: "export_parts (pe_run e ?k) objectPath (sj_parts job) [] = (w, err)" by fastforce
  note ok = assms [unfolded st]
  show ?thesis
  proof (cases err)
    case None
    show ?thesis
      using success_ok [OF ok, of "sj_identity job" "ki_Generation i" "requestedAt_of i" "sj_interval job" e i w]
      unfolding finish_job_def st prod.case Let_def run None option.case counted_def .
  next
    case (Some x)
    show ?thesis using fail_ok [OF ok [unfolded job_pend_def]] unfolding finish_job_def st prod.case Let_def run Some option.case .
  qed
qed

lemma finish_fold:
  "pass_inv e i invKey keys st (map job_pend jobs) \<Longrightarrow> pass_inv e i invKey keys (fold (finish_job e i invKey objectPath) jobs st) []"
  by (induction jobs arbitrary: st) (simp_all add: finish_ok)

text \<open>The goroutines settle every job once, in any order.\<close>

definition completion_order :: "(sinkJob list \<Rightarrow> sinkJob list) \<Rightarrow> bool" where
  "completion_order order \<longleftrightarrow> (\<forall>jobs. mset (order jobs) = mset jobs)"

lemma pass_result_ok:
  assumes "distinct (map sinkExportKey (inventorySinkBindings (Some i)))" "distinct (map fst t)" "completion_order order"
  shows "pass_inv e i invKey (map sinkExportKey (inventorySinkBindings (Some i))) (exportToSinks e order i invKey items checksum t) []"
proof -
  obtain st jobs where f: "fold (prepare_binding e i invKey items checksum) (inventorySinkBindings (Some i))
      ((t, zero_outcome\<lparr>po_RequeueAfter := exportDebounce i\<rparr>), []) = (st, jobs)" by fastforce
  have "mset (map job_pend jobs) = mset (map job_pend (order jobs))" using assms(3) by (simp add: completion_order_def)
  then have "pass_inv e i invKey (map sinkExportKey (inventorySinkBindings (Some i))) st (map job_pend (order jobs))"
    by (rule pass_ok_perm [OF prepare_fold [OF assms(1,2) f]])
  then show ?thesis unfolding exportToSinks_def f prod.case Let_def by (rule finish_fold)
qed

lemma family_key_prefix:
  "CHR ''/'' \<notin> set f \<Longrightarrow> takeWhile (\<lambda>c. c \<noteq> CHR ''/'') (f @ ''/'' @ x) = f"
  by (subst takeWhile_append2) auto

lemma family_keys_disjoint:
  assumes "CHR ''/'' \<notin> set f" "CHR ''/'' \<notin> set g" "f \<noteq> g"
  shows "sinkExportKey ` set (append_bindings f refs) \<inter> sinkExportKey ` set (append_bindings g refs') = {}"
proof -
  have "f @ ''/'' @ x \<noteq> g @ ''/'' @ y" for x y using family_key_prefix [OF assms(1)] family_key_prefix [OF assms(2)] assms(3) by metis
  then show ?thesis unfolding append_bindings_def sinkExportKey_def by auto
qed

lemma family_keys_distinct: "distinct (map isr_Name refs) \<Longrightarrow> distinct (map sinkExportKey (append_bindings f refs))"
  by (simp add: append_bindings_def sinkExportKey_def o_def distinct_map inj_on_def)

lemma distinct_map_append3:
  assumes "distinct (map f xs)" "distinct (map f ys)" "distinct (map f zs)"
    and "f ` set xs \<inter> f ` set ys = {}" "f ` set xs \<inter> f ` set zs = {}" "f ` set ys \<inter> f ` set zs = {}"
  shows "distinct (map f (xs @ ys @ zs))"
  using assms by (auto simp: Int_Un_distrib)

lemma admitted_keys_distinct:
  assumes "ValidateInventorySpec dns capBytes (ki_Spec i) = []"
  shows "distinct (map sinkExportKey (inventorySinkBindings (Some i)))"
proof -
  let ?s = "append_bindings SinkFamilySnapshot (inv_SnapshotSinkRefs (ki_Spec i))"
    and ?d = "append_bindings SinkFamilyDatabase (inv_DatabaseSinkRefs (ki_Spec i))"
    and ?e = "append_bindings SinkFamilyEvent (inv_EventSinkRefs (ki_Spec i))"
  have "distinct (map sinkExportKey ?s)" "distinct (map sinkExportKey ?d)" "distinct (map sinkExportKey ?e)"
    using family_refs_ok(2) [OF assms] family_keys_distinct by blast+
  moreover have "sinkExportKey ` set ?s \<inter> sinkExportKey ` set ?d = {}" "sinkExportKey ` set ?s \<inter> sinkExportKey ` set ?e = {}"
    "sinkExportKey ` set ?d \<inter> sinkExportKey ` set ?e = {}"
    by (intro family_keys_disjoint; simp add: SinkFamilySnapshot_def SinkFamilyDatabase_def SinkFamilyEvent_def)+
  moreover have "inventorySinkBindings (Some i) = ?s @ ?d @ ?e"
    by (simp add: inventorySinkBindings_def CollectInventorySinkBindings_def collectSinkBindings_def)
  ultimately show ?thesis by (simp only: distinct_map_append3)
qed

text \<open>C32. An export pass over an admitted inventory accounts for every bound sink exactly once, whatever
  the sinks answer and in whatever order the exports finish: the exported, debounced and failed
  counts add up to the number of bindings, the status lists the bindings in their order, each once,
  and the pass carries an error if and only if a sink failed.
\<close>

theorem pass_accounts_for_every_binding:
  assumes "ValidateInventorySpec dns capBytes (ki_Spec i) = []" "completion_order order"
    and "exportToSinks e order i invKey items checksum (tracker_after ops) = (t, oc)"
  shows "po_ExportedCount oc + po_DebouncedCount oc + po_FailedCount oc = length (inventorySinkBindings (Some i))
    \<and> map ses_Name (po_SinkExports oc) = map sinkExportKey (inventorySinkBindings (Some i))
    \<and> (po_ExportErr oc = None \<longleftrightarrow> po_FailedCount oc = 0)"
proof -
  have ok: "pass_inv e i invKey (map sinkExportKey (inventorySinkBindings (Some i))) (t, oc) []"
    using pass_result_ok [OF admitted_keys_distinct [OF assms(1)] tracker_distinct assms(2)] assms(3) by metis
  have "aggregateExportErrs api errs = None \<longleftrightarrow> errs = []" for api errs
    by (auto simp: aggregateExportErrs_def Transient_def Terminal_def split: list.splits)
  moreover have "count_ok (pe_api e) (length (inventorySinkBindings (Some i))) oc []"
    "map ses_Name (po_SinkExports oc) = map sinkExportKey (inventorySinkBindings (Some i))"
    using ok by (simp_all add: pass_ok_def keys_ok_def)
  ultimately show ?thesis by (auto simp: count_ok_def)
qed

text \<open>C33. What a pass leaves behind for each bound sink agrees between the status and the tracker. A sink
  that exported has a baseline of this pass with the checksum its status shows; a sink that did not
  keeps the record of its last export (time, checksum and paths) as it was before the pass; a sink
  that failed has no baseline, so it is not debounced until it has exported again.
\<close>

theorem pass_status_matches_tracker:
  assumes "ValidateInventorySpec dns capBytes (ki_Spec i) = []" "completion_order order"
    and "exportToSinks e order i invKey items checksum (tracker_after ops) = (t, oc)" "x \<in> set (po_SinkExports oc)"
  shows "(ses_Name x \<in> set (po_exportedSinks oc) \<longrightarrow>
        (\<exists>s. map_of t (tracker_key invKey (ses_Name x)) = Some s \<and> cs_lastExport s = pe_now e \<and> cs_lastChecksum s = ses_LastChecksum x))
    \<and> (ses_Name x \<notin> set (po_exportedSinks oc) \<longrightarrow> same_record x (carried (is_SinkExports (ki_Status i)) (ses_Name x)))
    \<and> (ses_Name x \<in> set (po_failedSinks oc) \<longrightarrow> map_of t (tracker_key invKey (ses_Name x)) = None)"
proof -
  have "pass_inv e i invKey (map sinkExportKey (inventorySinkBindings (Some i))) (t, oc) []"
    using pass_result_ok [OF admitted_keys_distinct [OF assms(1)] tracker_distinct assms(2)] assms(3) by metis
  then have r: "recorded_ok invKey (pe_now e) t oc" "record_ok (is_SinkExports (ki_Status i)) oc" "forgotten_ok invKey t oc"
    by (simp_all add: pass_ok_def)
  show ?thesis
  proof (intro conjI impI)
    show "\<exists>s. map_of t (tracker_key invKey (ses_Name x)) = Some s \<and> cs_lastExport s = pe_now e \<and> cs_lastChecksum s = ses_LastChecksum x"
      if "ses_Name x \<in> set (po_exportedSinks oc)"
      using bspec [OF conjunct2 [OF r(1) [unfolded recorded_ok_def]] assms(4)] that by (rule mp)
    show "same_record x (carried (is_SinkExports (ki_Status i)) (ses_Name x))" if "ses_Name x \<notin> set (po_exportedSinks oc)"
      using bspec [OF r(2) [unfolded record_ok_def] assms(4)] that by (rule mp)
    show "map_of t (tracker_key invKey (ses_Name x)) = None" if "ses_Name x \<in> set (po_failedSinks oc)"
      using r(3) [unfolded forgotten_ok_def] that by (rule bspec)
  qed
qed

lemma forget_all:
  "map_of (fold (forget invKey) ks t) (tracker_key invKey k) = (if k \<in> set ks then None else map_of t (tracker_key invKey k))"
  by (induction ks arbitrary: t) (auto simp: map_of_forget)

text \<open>C34. When the status write of a pass fails, no sink that exported or failed in that pass is debounced
  by the next one: whatever the next pass compares, each of them is exported again, so the status
  catches up with what the sinks hold.
\<close>

theorem unpersisted_exports_repeat:
  assumes "ValidateInventorySpec dns capBytes (ki_Spec i) = []" "completion_order order"
    and "exportToSinks e order i invKey items checksum (tracker_after ops) = (t, oc)"
    and "updateStatus e clk write i itemCount (t, oc) = (answer, i', t')" "write i' \<noteq> Write_Ok"
    and "k \<in> set (po_exportedSinks oc) \<union> set (po_failedSinks oc)"
  shows "\<not> fst (shouldSkip invKey k identity generation checksum' requestedAt interval now t')"
proof -
  have "pass_inv e i invKey (map sinkExportKey (inventorySinkBindings (Some i))) (t, oc) []"
    using pass_result_ok [OF admitted_keys_distinct [OF assms(1)] tracker_distinct assms(2)] assms(3) by metis
  then have r: "recorded_ok invKey (pe_now e) t oc" and f: "forgotten_ok invKey t oc" by (simp_all add: pass_ok_def)
  have t': "t' = forgetUnpersistedExports oc t"
    using assms(4,5) unfolding updateStatus_def prod.case Let_def prod.inject by metis
  have "map_of t' (tracker_key invKey k) = None"
  proof (cases "po_exportedSinks oc = []")
    case True
    then show ?thesis using assms(6) f by (simp add: t' forgetUnpersistedExports_def forgotten_ok_def)
  next
    case False
    then have "po_trackerKey oc = invKey" using r by (simp add: recorded_ok_def)
    then show ?thesis using assms(6) f by (auto simp: t' forgetUnpersistedExports_def forget_all forgotten_ok_def)
  qed
  then show ?thesis by (rule skip_absent)
qed

section \<open>Preview and export\<close>

lemma preview_prepare:
  assumes "\<not> hasSnapshotSinkBinding bs" "list_all (\<lambda>b. \<exists>parts. binding_parts e i items b = Inr parts) bs"
    and "preview_bindings e i invKey checksum bs (t, oc) = (Some oc', t')"
  shows "fold (prepare_binding e i invKey items checksum) bs ((t, oc), jobs) = ((t', oc'), jobs)"
  using assms
proof (induction bs arbitrary: t oc)
  case (Cons b bs)
  obtain n oc1 where seed: "seed_entry i (sinkExportKey b) oc = (n, oc1)" by (cases "seed_entry i (sinkExportKey b) oc")
  note pv = Cons.prems(3) [unfolded preview_bindings.simps seed prod.case Let_def]
  obtain resolved where load: "pe_load e b = Inr resolved" using pv by (cases "pe_load e b") simp_all
  let ?v = "binding_interval e i b resolved"
  let ?skip = "shouldSkip invKey (sinkExportKey b) (newSinkExportIdentity (ki_UID i) (Some resolved)) (ki_Generation i) checksum
    (requestedAt_of i) ?v (pe_now e) t"
  obtain sk t1 where sk: "?skip = (sk, t1)" by (cases ?skip)
  have sk': sk using pv unfolding load sum.case sk prod.case by (cases sk) simp_all
  obtain t2 oc2 where m: "mark_debounced e i invKey (sinkExportKey b) ?v n (t1, oc1) = (t2, oc2)" by fastforce
  have rest: "preview_bindings e i invKey checksum bs (t2, oc2) = (Some oc', t')"
    using pv sk' unfolding load sum.case sk prod.case m by simp
  obtain parts where parts: "binding_parts e i items b = Inr parts" using Cons.prems(2) by auto
  have "isb_Family b \<noteq> SinkFamilySnapshot" using Cons.prems(1) by (simp add: hasSnapshotSinkBinding_def)
  then have "prepare_binding e i invKey items checksum b ((t, oc), jobs) = ((t2, oc2), jobs)"
    unfolding prepare_binding_def prod.case seed Let_def load sum.case parts using sk sk' m by simp
  then show ?case using Cons.IH [OF _ _ rest] Cons.prems(1,2) by (simp add: hasSnapshotSinkBinding_def)
qed simp

lemma uncapped_parts:
  assumes "items_ok items" "\<not> IsZero (pe_now e)" "isb_Family b \<noteq> SinkFamilySnapshot"
  shows "\<exists>parts. binding_parts e i items b = Inr parts"
  using assms
  by (simp add: binding_parts_def Let_def PartitionEnvelopes_def stableItems_def partitionItemGroups_def marshal_at_eq
      items_ok_sort part_meta_def)

text \<open>C35. The preview agrees with the export decision: for an inventory without snapshot sinks whose rows
  can be encoded, when the preview reports every sink as unchanged, the full pass over the same state
  exports nothing, fails nothing, and leaves the very outcome and tracker the preview returned.
\<close>

theorem preview_agrees_with_export:
  assumes "\<not> hasSnapshotSinkBinding (inventorySinkBindings (Some i))"
    and "items_ok items" "\<not> IsZero (pe_now e)"
    and "previewAllSinksDebounced e i invKey checksum t = (Some oc, t')" "completion_order order"
  shows "exportToSinks e order i invKey items checksum t = (t', oc)
    \<and> po_DebouncedCount oc = length (inventorySinkBindings (Some i))"
proof -
  have "preview_bindings e i invKey checksum (inventorySinkBindings (Some i))
      (t, zero_outcome\<lparr>po_RequeueAfter := exportDebounce i\<rparr>) = (Some oc, t')"
    and n: "po_DebouncedCount oc = length (inventorySinkBindings (Some i))"
    using assms(4) by (auto simp: previewAllSinksDebounced_def Let_def split: if_splits prod.splits option.splits)
  from preview_prepare [OF assms(1) _ this(1)] uncapped_parts [OF assms(2,3)] assms(1)
  have "exportToSinks e order i invKey items checksum t = fold (finish_job e i invKey (''inventory/'' @ ki_Namespace i @ ''/'' @ ki_Name i @ ''.json''))
      (order []) (t', oc)"
    unfolding exportToSinks_def by (simp add: list_all_iff hasSnapshotSinkBinding_def list_ex_iff)
  moreover have "mset (order []) = mset []" using assms(5) unfolding completion_order_def by (rule spec)
  then have "order [] = []" by simp
  ultimately show ?thesis using n by simp
qed

section \<open>Freshness of the cached fingerprint\<close>

text \<open>
  Reconciles of inventories in one namespace run concurrently and share the cache; the store changes
  at any time. A reconcile reads the namespace's version, looks it up, and on a miss takes a snapshot
  and stores its fingerprint under the version it read.
\<close>

datatype fp_phase = Fp_Read | Fp_Missed | Fp_Computed string

inductive fp_reach :: "store \<Rightarrow> store_op list \<Rightarrow> namespaceFingerprintCache \<Rightarrow> (string \<times> 64 word \<times> fp_phase) list \<Rightarrow> bool"
  for s0 :: store where
  fp_init: "fp_reach s0 [] [] []"
| fp_op: "fp_reach s0 ops c ps \<Longrightarrow> fp_reach s0 (ops @ [op]) c ps"
| fp_start: "fp_reach s0 ops c ps \<Longrightarrow> fp_reach s0 ops c ((ns, NamespaceVersion ns (run_ops ops s0), Fp_Read) # ps)"
| fp_hit: "fp_reach s0 ops c ps \<Longrightarrow> (ns, v, Fp_Read) \<in> set ps \<Longrightarrow> cache_lookup ns v c \<noteq> None \<Longrightarrow>
    fp_reach s0 ops c (remove1 (ns, v, Fp_Read) ps)"
| fp_miss: "fp_reach s0 ops c ps \<Longrightarrow> (ns, v, Fp_Read) \<in> set ps \<Longrightarrow> cache_lookup ns v c = None \<Longrightarrow>
    fp_reach s0 ops c ((ns, v, Fp_Missed) # remove1 (ns, v, Fp_Read) ps)"
| fp_compute: "fp_reach s0 ops c ps \<Longrightarrow> (ns, v, Fp_Missed) \<in> set ps \<Longrightarrow>
    fp_reach s0 ops c ((ns, v, Fp_Computed (content_fingerprint ns (run_ops ops s0))) # remove1 (ns, v, Fp_Missed) ps)"
| fp_store: "fp_reach s0 ops c ps \<Longrightarrow> (ns, v, Fp_Computed f) \<in> set ps \<Longrightarrow>
    fp_reach s0 ops (cache_store ns v f c) (remove1 (ns, v, Fp_Computed f) ps)"

definition read_ok :: "store \<Rightarrow> store_op list \<Rightarrow> string \<Rightarrow> 64 word \<Rightarrow> bool" where
  "read_ok s0 ops ns v \<longleftrightarrow> (\<exists>j \<le> length ops. v = NamespaceVersion ns (run_ops (take j ops) s0))"

definition computed_ok :: "store \<Rightarrow> store_op list \<Rightarrow> string \<Rightarrow> 64 word \<Rightarrow> string \<Rightarrow> bool" where
  "computed_ok s0 ops ns v f \<longleftrightarrow> (\<exists>j k. j \<le> k \<and> k \<le> length ops \<and> v = NamespaceVersion ns (run_ops (take j ops) s0)
     \<and> f = content_fingerprint ns (run_ops (take k ops) s0))"

definition phase_ok :: "store \<Rightarrow> store_op list \<Rightarrow> string \<times> 64 word \<times> fp_phase \<Rightarrow> bool" where
  "phase_ok s0 ops p = (case p of (ns, v, ph) \<Rightarrow> (case ph of Fp_Computed f \<Rightarrow> computed_ok s0 ops ns v f | _ \<Rightarrow> read_ok s0 ops ns v))"

lemma read_ok_op: "read_ok s0 ops ns v \<Longrightarrow> read_ok s0 (ops @ [op]) ns v"
  unfolding read_ok_def by (metis le_SucI length_append_singleton take_append diff_is_0_eq take0 append_Nil2)

lemma computed_ok_op: "computed_ok s0 ops ns v f \<Longrightarrow> computed_ok s0 (ops @ [op]) ns v f"
proof -
  assume "computed_ok s0 ops ns v f"
  then obtain j k where "j \<le> k" "k \<le> length ops" "v = NamespaceVersion ns (run_ops (take j ops) s0)" "f = content_fingerprint ns (run_ops (take k ops) s0)"
    unfolding computed_ok_def by blast
  then show ?thesis unfolding computed_ok_def by (intro exI [of _ j] exI [of _ k]) simp
qed

lemma fp_reach_ok:
  assumes "fp_reach s0 ops c ps"
  shows "(\<forall>p \<in> set ps. phase_ok s0 ops p) \<and> (\<forall>ns entry. map_of c ns = Some entry \<longrightarrow> computed_ok s0 ops ns (fe_version entry) (fe_fingerprint entry))"
  using assms
proof induction
  case (fp_op ops c ps op)
  have "phase_ok s0 (ops @ [op]) p" if "phase_ok s0 ops p" for p
    using that by (cases p) (auto simp: phase_ok_def read_ok_op computed_ok_op split: fp_phase.splits)
  then show ?case using fp_op computed_ok_op by blast
next
  case (fp_start ops c ps ns)
  have "phase_ok s0 ops (ns, NamespaceVersion ns (run_ops ops s0), Fp_Read)"
    by (auto simp: phase_ok_def read_ok_def intro: exI [of _ "length ops"])
  then show ?case using fp_start by simp
next
  case (fp_hit ops c ps ns v)
  then show ?case by (meson notin_set_remove1)
next
  case (fp_miss ops c ps ns v)
  then have "phase_ok s0 ops (ns, v, Fp_Missed)" by (auto simp: phase_ok_def)
  then show ?case using fp_miss notin_set_remove1 by (metis set_ConsD)
next
  case (fp_compute ops c ps ns v)
  then have "read_ok s0 ops ns v" by (auto simp: phase_ok_def)
  then have "phase_ok s0 ops (ns, v, Fp_Computed (content_fingerprint ns (run_ops ops s0)))"
    unfolding phase_ok_def read_ok_def computed_ok_def prod.case fp_phase.case by (metis order_refl take_all)
  then show ?case using fp_compute notin_set_remove1 by (metis set_ConsD)
next
  case (fp_store ops c ps ns v f)
  then have "computed_ok s0 ops ns v f" by (auto simp: phase_ok_def)
  then show ?case using fp_store by (auto simp: cache_store_def update_conv dest: notin_set_remove1)
qed simp

lemma version_interval:
  assumes "j \<le> k" "k \<le> l" "l \<le> length ops" "length ops < 2 ^ 64"
    and "NamespaceVersion ns (run_ops (take j ops) s) = NamespaceVersion ns (run_ops (take l ops) s)"
  shows "shard_of (run_ops (take l ops) s) ns = shard_of (run_ops (take k ops) s) ns"
proof -
  obtain a where tk: "take k ops = take j ops @ a" using assms(1) by (metis append_take_drop_id min.absorb1 take_take)
  obtain b where tl: "take l ops = take k ops @ b" using assms(2) by (metis append_take_drop_id min.absorb1 take_take)
  let ?s = "run_ops (take j ops) s"
  have eq: "run_ops (take l ops) s = run_ops (a @ b) ?s" unfolding tl tk by simp
  have "length (a @ b) \<le> length ops" using arg_cong [OF tl, of length] arg_cong [OF tk, of length] assms(3) by simp
  then have lt: "bumps ns (a @ b) ?s < 2 ^ 64" using bumps_le_length [of ns "a @ b" ?s] assms(4) by linarith
  have "of_nat (bumps ns (a @ b) ?s) = (0 :: 64 word)" using assms(5) version_run_ops [of ns "a @ b" ?s] unfolding eq by simp
  then have "bumps ns (a @ b) ?s = 0" using lt by (rule of_nat_64_eq_0)
  then have "bumps ns b (run_ops a ?s) = 0" by (simp add: bumps_append)
  from shard_unbumped_run [OF this] show ?thesis unfolding eq tk by simp
qed

text \<open>C36. A cached fingerprint is never stale. However reconciles and store changes interleave, a reconcile
  that read the namespace's version at some time and finds a fingerprint cached for it gets the
  fingerprint of the rows as they were at that time or later, as long as fewer than \<open>2 ^ 64\<close> store
  operations ran.
\<close>

theorem cached_fingerprint_not_stale:
  assumes "fp_reach s0 ops c ps" "length ops < 2 ^ 64" "l \<le> length ops"
    and "cache_lookup ns (NamespaceVersion ns (run_ops (take l ops) s0)) c = Some f"
  shows "\<exists>k. l \<le> k \<and> k \<le> length ops \<and> f = content_fingerprint ns (run_ops (take k ops) s0)"
proof -
  obtain entry where "map_of c ns = Some entry" and v: "fe_version entry = NamespaceVersion ns (run_ops (take l ops) s0)"
    and f: "f = fe_fingerprint entry"
    using assms(4) by (auto simp: cache_lookup_def split: option.splits if_splits)
  then have "computed_ok s0 ops ns (fe_version entry) (fe_fingerprint entry)" using fp_reach_ok [OF assms(1)] by blast
  then obtain j k where jk: "j \<le> k" "k \<le> length ops" "NamespaceVersion ns (run_ops (take l ops) s0) = NamespaceVersion ns (run_ops (take j ops) s0)"
    and fk: "f = content_fingerprint ns (run_ops (take k ops) s0)"
    unfolding computed_ok_def v f by metis
  show ?thesis
  proof (cases "l \<le> k")
    case True
    then show ?thesis using jk(2) fk by blast
  next
    case False
    then have "k \<le> l" by simp
    then have "shard_of (run_ops (take l ops) s0) ns = shard_of (run_ops (take k ops) s0) ns"
      by (rule version_interval [OF jk(1) _ assms(3,2) jk(3) [symmetric]])
    then have "f = content_fingerprint ns (run_ops (take l ops) s0)" unfolding fk content_fingerprint_def SnapshotNamespace_fst by simp
    then show ?thesis using assms(3) by blast
  qed
qed

text \<open>
  An error of the fingerprint reaches only the reconcile that computed it: the empty fingerprint is
  cached under the version, and the next reconcile of unchanged rows takes it as the content's.
\<close>

theorem fingerprint_error_cached:
  assumes "ItemsFingerprint (fst (SnapshotNamespace ns s)) = Inl err" "reconcile_fingerprint ns s s [] = (r, c)"
  shows "r = Inl err \<and> reconcile_fingerprint ns s s c = (Inr [], c)"
  using assms by (auto simp: reconcile_fingerprint_def getOrCompute_def cache_lookup_def cache_store_def content_fingerprint_def)

text \<open>
  A terminal failure of every sink whose status write conflicts is not requeued by the pass: the
  delay of the conflict is cleared together with the delay of the failure.
\<close>

theorem terminal_failure_clears_conflict_requeue:
  assumes "exportToSinks e order i invKey items fingerprint t = (t', oc)" "isTotalExportFailure oc"
    and "po_ExportErr oc = Some err" "IsTerminal (pe_api e) err" "\<And>x. write x = Write_Conflict"
  shows "fst (applyInventoryExportOutcome e clk order write i itemCount invKey items fingerprint t) = (\<lparr>RequeueAfter = 0\<rparr>, None)"
  using assms(4,5)
  by (simp add: applyInventoryExportOutcome_def assms(1-3) setInventoryDegraded_def Let_def write_answer_def)

section \<open>Examples\<close>

definition example_resolved :: ResolvedSink where
  "example_resolved = \<lparr>rs_Spec = \<lparr>ss_Type = ''nats'', ss_SecretRef = None, ss_TLS = None, ss_Postgres_DatabaseRef = None,
       ss_BigQuery_SecretRef = None, ss_MongoDB_DatabaseRef = None, ss_Kafka_SecretRef = None, ss_Nats_SecretRef = None, ss_Git_Auth = None\<rparr>,
     rs_ExportMinInterval = None, rs_Namespace = ''team'', rs_Name = ''lake'', rs_Family = ''event'', rs_UID = ''s1'', rs_Generation = 1\<rparr>"

definition example_pass_env :: "(InventorySinkBinding \<Rightarrow> go_error + ResolvedSink) \<Rightarrow> pass_env" where
  "example_pass_env load = \<lparr>pe_now = 100 * Second, pe_clock = (\<lambda>_ _. 100 * Second), pe_partClock = (\<lambda>_ _. 0), pe_scopes = Inr [],
     pe_maxExportBytesGlobal = 1000, pe_load = load, pe_run = (\<lambda>_ _ _. ([''doc.json''], None)), pe_setc = (\<lambda>c cs. [c]),
     pe_removec = (\<lambda>_ cs. cs),
     pe_api = \<lparr>IsNotFound = (\<lambda>_. False), IsInvalid = (\<lambda>_. False), IsBadRequest = (\<lambda>_. False), api_IsForbidden = (\<lambda>_. False)\<rparr>\<rparr>"

definition example_pass_inventory :: KollectInventory where
  "example_pass_inventory = \<lparr>ki_Namespace = ''team'', ki_Name = ''all'', ki_UID = ''u1'', ki_Generation = 1, ki_Annotations = [],
     ki_Spec = \<lparr>inv_SnapshotSinkRefs = [], inv_DatabaseSinkRefs = [], inv_EventSinkRefs = [example_ref],
       inv_ExportMinInterval = None, inv_MaxExportBytes = None, inv_Suspend = False\<rparr>,
     ki_Status = \<lparr>is_ObservedGeneration = 1, is_ItemCount = 0, is_LastExportTime = None, is_SinkExports = [], is_Conditions = []\<rparr>\<rparr>"

definition example_event_binding :: InventorySinkBinding where
  "example_event_binding = \<lparr>isb_Name = ''lake'', isb_Family = ''event'', isb_Ref = example_ref\<rparr>"

lemma example_fields:
  "pe_load (example_pass_env load) = load" "pe_run (example_pass_env load) = (\<lambda>_ _ _. ([''doc.json''], None))"
  "pe_now (example_pass_env load) = 100 * Second" "ki_Namespace example_pass_inventory = ''team''" "ki_Name example_pass_inventory = ''all''"
  by (simp_all add: example_pass_env_def example_pass_inventory_def)

lemma example_bindings: "inventorySinkBindings (Some example_pass_inventory) = [example_event_binding]"
  by (simp add: inventorySinkBindings_def example_pass_inventory_def CollectInventorySinkBindings_def collectSinkBindings_def
      append_bindings_def example_ref_def SinkFamilyEvent_def example_event_binding_def)

lemma example_admitted: "ValidateInventorySpec example_dns 1000 (ki_Spec example_pass_inventory) = []"
  by code_simp

lemma export_parts_ok: "\<exists>w. export_parts (\<lambda>_ _. (ws, None)) objectPath parts written = (w, None)"
  by (induction parts arbitrary: written) auto

lemma example_exports:
  "\<exists>t oc. exportToSinks (example_pass_env (\<lambda>_. Inr example_resolved)) rev example_pass_inventory ''team/all'' [] ''sum'' [] = (t, oc)
     \<and> po_exportedSinks oc = [''event/lake'']"
proof -
  let ?e = "example_pass_env (\<lambda>_. Inr example_resolved)"
  have nz: "\<not> IsZero (pe_now ?e)" by (simp add: example_pass_env_def IsZero_def zero_time_def Second_def)
  have key: "sinkExportKey example_event_binding = ''event/lake''" by (simp add: sinkExportKey_def example_event_binding_def)
  have fam: "isb_Family example_event_binding \<noteq> SinkFamilySnapshot" by (simp add: example_event_binding_def SinkFamilySnapshot_def)
  obtain parts where parts: "binding_parts ?e example_pass_inventory [] example_event_binding = Inr parts"
    using uncapped_parts [OF items_ok_Nil nz fam] by blast
  obtain w where "export_parts (\<lambda>_ _. ([''doc.json''], None)) ''inventory/team/all.json'' parts [] = (w, None)"
    using export_parts_ok by blast
  then show ?thesis
    using parts fam
    by (simp add: exportToSinks_def example_bindings prepare_binding_def key seed_entry_def upsertSinkExportStatus_def zero_outcome_def
        shouldSkip_def finish_job_def markExported_def Let_def example_fields)
qed

lemma example_order: "completion_order rev"
  by (simp add: completion_order_def)

definition example_pass :: pass_state where
  "example_pass = exportToSinks (example_pass_env (\<lambda>_. Inr example_resolved)) rev example_pass_inventory ''team/all'' [] ''sum'' (tracker_after [])"

lemma example_pass_eq:
  "exportToSinks (example_pass_env (\<lambda>_. Inr example_resolved)) rev example_pass_inventory ''team/all'' [] ''sum'' (tracker_after [])
     = (fst example_pass, snd example_pass)"
  by (simp add: example_pass_def)

lemma example_pass_exported: "po_exportedSinks (snd example_pass) = [''event/lake'']"
proof -
  have "tracker_after [] = []" by (simp add: tracker_after_def)
  then show ?thesis using example_exports unfolding example_pass_def by (metis snd_conv)
qed

theorem pass_accounts_for_every_binding_witness:
  "po_ExportedCount (snd example_pass) + po_DebouncedCount (snd example_pass) + po_FailedCount (snd example_pass) = 1
    \<and> map ses_Name (po_SinkExports (snd example_pass)) = [''event/lake'']"
  using pass_accounts_for_every_binding [OF example_admitted example_order example_pass_eq]
  by (simp add: example_bindings example_event_binding_def sinkExportKey_def)

lemma example_pass_names: "map ses_Name (po_SinkExports (snd example_pass)) = [''event/lake'']"
proof -
  have "pass_inv (example_pass_env (\<lambda>_. Inr example_resolved)) example_pass_inventory ''team/all''
      (map sinkExportKey (inventorySinkBindings (Some example_pass_inventory))) example_pass []"
    unfolding example_pass_def by (rule pass_result_ok [OF admitted_keys_distinct [OF example_admitted] tracker_distinct example_order])
  then show ?thesis by (simp add: pass_ok_def keys_ok_def example_bindings example_event_binding_def sinkExportKey_def)
qed

theorem pass_status_matches_tracker_witness:
  "\<exists>s. map_of (fst example_pass) (tracker_key ''team/all'' ''event/lake'') = Some s \<and> cs_lastExport s = 100 * Second"
proof -
  obtain x where x: "x \<in> set (po_SinkExports (snd example_pass))" "ses_Name x = ''event/lake''"
    using example_pass_names by auto
  from pass_status_matches_tracker [OF example_admitted example_order example_pass_eq x(1)]
  have "ses_Name x \<in> set (po_exportedSinks (snd example_pass)) \<longrightarrow>
      (\<exists>s. map_of (fst example_pass) (tracker_key ''team/all'' (ses_Name x)) = Some s \<and> cs_lastExport s = 100 * Second)"
    unfolding example_fields by blast
  then show ?thesis unfolding example_pass_exported x(2) by simp
qed

theorem unpersisted_exports_repeat_witness:
  "\<not> fst (shouldSkip ''team/all'' ''event/lake'' (newSinkExportIdentity ''u1'' (Some example_resolved)) 1 ''sum'' [] (30 * Second) (105 * Second)
      (snd (snd (updateStatus (example_pass_env (\<lambda>_. Inr example_resolved)) 0 (\<lambda>_. Write_Conflict) example_pass_inventory 0 example_pass))))"
proof -
  obtain answer i' t' where u: "updateStatus (example_pass_env (\<lambda>_. Inr example_resolved)) 0 (\<lambda>_. Write_Conflict) example_pass_inventory 0
      (fst example_pass, snd example_pass) = (answer, i', t')"
    using prod_cases3 by blast
  have "''event/lake'' \<in> set (po_exportedSinks (snd example_pass)) \<union> set (po_failedSinks (snd example_pass))"
    by (simp add: example_pass_exported)
  from unpersisted_exports_repeat [OF example_admitted example_order example_pass_eq u _ this] show ?thesis using u by simp
qed

definition example_tracker :: perSinkCoalesceTracker where
  "example_tracker = record_export ''team/all'' ''event/lake'' (newSinkExportIdentity ''u1'' (Some example_resolved)) 1 ''sum'' [] (95 * Second) []"

lemma example_preview:
  "\<exists>oc t. previewAllSinksDebounced (example_pass_env (\<lambda>_. Inr example_resolved)) example_pass_inventory ''team/all'' ''sum'' example_tracker = (Some oc, t)"
proof -
  let ?e = "example_pass_env (\<lambda>_. Inr example_resolved)"
  have key: "sinkExportKey example_event_binding = ''event/lake''" by (simp add: sinkExportKey_def example_event_binding_def)
  have iv: "binding_interval ?e example_pass_inventory example_event_binding example_resolved = 10 * Second"
    by (simp add: binding_interval_def ResolveSinkExportInterval_def example_event_binding_def example_ref_def scopeFloor_def Load_def
        example_pass_env_def)
  have skip: "shouldSkip ''team/all'' ''event/lake'' (newSinkExportIdentity (ki_UID example_pass_inventory) (Some example_resolved))
      (ki_Generation example_pass_inventory) ''sum'' (requestedAt_of example_pass_inventory) (10 * Second) (100 * Second) example_tracker = (True, example_tracker)"
    by (simp add: shouldSkip_def example_tracker_def record_export_def pruneStaleLocked_def Let_def IsZero_def zero_time_def Second_def
        example_pass_inventory_def requestedAt_of_def map_get_or_def)
  show ?thesis
    by (simp add: previewAllSinksDebounced_def example_bindings key seed_entry_def upsertSinkExportStatus_def zero_outcome_def example_fields
        iv skip mark_debounced_def Let_def)
qed

theorem preview_agrees_with_export_witness:
  "\<exists>t oc. exportToSinks (example_pass_env (\<lambda>_. Inr example_resolved)) rev example_pass_inventory ''team/all'' [] ''sum'' example_tracker = (t, oc)
     \<and> po_DebouncedCount oc = 1"
proof -
  let ?e = "example_pass_env (\<lambda>_. Inr example_resolved)"
  obtain oc t where p: "previewAllSinksDebounced ?e example_pass_inventory ''team/all'' ''sum'' example_tracker = (Some oc, t)"
    using example_preview by blast
  have "\<not> hasSnapshotSinkBinding (inventorySinkBindings (Some example_pass_inventory))"
    by (simp add: example_bindings hasSnapshotSinkBinding_def example_event_binding_def SinkFamilySnapshot_def)
  moreover have "\<not> IsZero (pe_now ?e)" by (simp add: example_fields IsZero_def zero_time_def Second_def)
  ultimately show ?thesis using preview_agrees_with_export [OF _ items_ok_Nil _ p example_order] by (simp add: example_bindings)
qed

theorem cached_fingerprint_not_stale_witness:
  "\<exists>k. k \<le> 1 \<and> content_fingerprint ''team'' NewStore = content_fingerprint ''team'' (run_ops (take k [OpRemove ''other'' ''t'' ''u'']) NewStore)"
proof -
  let ?v = "NamespaceVersion ''team'' NewStore" and ?f = "content_fingerprint ''team'' NewStore"
  have "fp_reach NewStore [] [] [(''team'', ?v, Fp_Read)]" using fp_start [OF fp_init] by simp
  from fp_miss [OF this, of "''team''" ?v] have "fp_reach NewStore [] [] [(''team'', ?v, Fp_Missed)]" by (simp add: cache_lookup_def)
  from fp_compute [OF this, of "''team''" ?v] have "fp_reach NewStore [] [] [(''team'', ?v, Fp_Computed ?f)]" by simp
  from fp_store [OF this, of "''team''" ?v ?f] have "fp_reach NewStore [] (cache_store ''team'' ?v ?f []) []" by simp
  from fp_op [OF this] have r: "fp_reach NewStore [OpRemove ''other'' ''t'' ''u''] (cache_store ''team'' ?v ?f []) []" by simp
  show ?thesis
    using cached_fingerprint_not_stale [OF r, of 0 "''team''" ?f] by (simp add: cache_lookup_def cache_store_def)
qed

end
