(* ===== verification/Object_Paths.thy ===== *)
theory Object_Paths
  imports Partition Go_Regexp
begin

text \<open>
  Where a snapshot is written and what its deletion sweeps: \<open>src/internal/pathvalidate/path.go\<close> and
  \<open>src/internal/sink/objectstore/path.go\<close>. Of a sink's spec the functions read three fields, kept in
  \<open>object_path_spec\<close>. On the platforms the operator is built for \<open>filepath\<close> is \<open>path\<close>.
\<close>

section \<open>Relative paths\<close>

datatype path_error = Null_Byte | Not_Relative | Parent_Segment | Template_Error path_error | Missing_Placeholder
  | Unsupported_Placeholder string

definition ValidateRelativeObjectPath :: "string \<Rightarrow> path_error + string" where
  "ValidateRelativeObjectPath objectPath =
     (let p = TrimSpace objectPath in
      if p = [] then Inr []
      else if Contains p [CHR 0x00] then Inl Null_Byte
      else let clean = Clean p in
        if HasPrefix clean ''/'' then Inl Not_Relative
        else if clean = ''..'' \<or> HasPrefix clean ''../'' \<or> Contains clean ''/../'' then Inl Parent_Segment
        else Inr clean)"

definition RejectTraversal :: "string \<Rightarrow> path_error option" where
  "RejectTraversal s =
     (let p = TrimSpace s in
      if p = [] then None
      else if HasPrefix p ''/'' \<or> Contains p ''..'' then Some Parent_Segment else None)"

definition pv_InventoryFromObjectPath :: "string \<Rightarrow> string \<times> string" where
  "pv_InventoryFromObjectPath objectPath =
     (case Split (CHR ''/'') (TrimPrefix (TrimSpace objectPath) ''inventory/'') of
        ns # name # _ \<Rightarrow> (ns, TrimSuffix name ''.json'')
      | [ns] \<Rightarrow> (if ns \<noteq> [] then (ns, []) else ([], []))
      | [] \<Rightarrow> ([], []))"

section \<open>Templates\<close>

definition FormatParquet :: string where "FormatParquet = ''parquet''"
definition DefaultPathTemplate :: string where "DefaultPathTemplate = ''inventory/{namespace}/{name}.json''"
definition DefaultExtension :: string where "DefaultExtension = ''.json''"

definition allowedPlaceholders :: "string list" where
  "allowedPlaceholders = [''cluster'', ''namespace'', ''name'', ''generation'', ''extension'']"

record object_path_spec =
  os_Cluster :: string
  os_PathTemplate :: string
  os_Format :: "string option"

record PathVars =
  pv_Cluster :: string
  pv_Namespace :: string
  pv_Name :: string
  pv_Generation :: int
  pv_Extension :: string

text \<open>
  \<open>strings.NewReplacer\<close>: at each position the first pair whose old string starts there is taken; no old
  string of the sources is empty, and none is a prefix of another.
\<close>

fun replacer :: "(string \<times> string) list \<Rightarrow> nat \<Rightarrow> string \<Rightarrow> string" where
  "replacer pairs skip [] = []"
| "replacer pairs (Suc skip) (c # s) = replacer pairs skip s"
| "replacer pairs 0 (c # s) = (case find (\<lambda>(old, new). HasPrefix (c # s) old) pairs of
     None \<Rightarrow> c # replacer pairs 0 s
   | Some (old, new) \<Rightarrow> new @ replacer pairs (length old - 1) s)"

definition RenderPathTemplate :: "string \<Rightarrow> PathVars \<Rightarrow> string" where
  "RenderPathTemplate template vars =
     (let t = TrimSpace template; t' = (if t = [] then DefaultPathTemplate else t);
          ext = TrimSpace (pv_Extension vars); ext1 = (if ext = [] then DefaultExtension else ext);
          ext2 = (if \<not> HasPrefix ext1 ''.'' then ''.'' @ ext1 else ext1);
          cluster = TrimSpace (pv_Cluster vars); cluster' = (if cluster = [] then ''default'' else cluster)
      in replacer [(''{cluster}'', cluster'), (''{namespace}'', pv_Namespace vars), (''{name}'', pv_Name vars),
           (''{generation}'', show_int (pv_Generation vars)), (''{extension}'', ext2)] 0 t')"

definition Chars :: "string \<Rightarrow> regexp" where
  "Chars w = Cats (map (\<lambda>c. Class (\<lambda>d. d = c)) w)"

definition is_lower :: "char \<Rightarrow> bool" where
  "is_lower c \<longleftrightarrow> (let b = (of_char c :: nat) in 97 \<le> b \<and> b \<le> 122)"

text \<open>\<open>FindAllStringSubmatch\<close>: the texts of the group, from the left.\<close>

fun find_groups :: "pattern \<Rightarrow> nat \<Rightarrow> char option \<Rightarrow> string \<Rightarrow> string list" where
  "find_groups pat 0 p s = []"
| "find_groups pat (Suc n) p [] = []"
| "find_groups pat (Suc n) p (c # s) = (case match_at pat p (c # s) of
     None \<Rightarrow> find_groups pat n (Some c) s
   | Some (i, j, k) \<Rightarrow>
       (if i + j + k = 0 then find_groups pat n (Some c) s
        else take j (drop i (c # s)) # find_groups pat n (char_before p (c # s) (i + j + k)) (drop (i + j + k) (c # s))))"

definition placeholderPattern :: pattern where
  "placeholderPattern = \<lparr>pat_before = Chars ''{'', pat_group = Plus (Class is_lower), pat_after = Chars ''}''\<rparr>"

definition ValidatePathTemplate :: "string \<Rightarrow> path_error option" where
  "ValidatePathTemplate template =
     (let t = TrimSpace template in
      if t = [] then None
      else case RejectTraversal t of
        Some err \<Rightarrow> Some (Template_Error err)
      | None \<Rightarrow>
          (if \<not> Contains t ''{namespace}'' \<or> \<not> Contains t ''{name}'' then Some Missing_Placeholder
           else map_option Unsupported_Placeholder
             (find (\<lambda>g. g \<notin> set allowedPlaceholders) (find_groups placeholderPattern (length t) None t))))"

definition IsParquetFormat :: "object_path_spec \<Rightarrow> bool" where
  "IsParquetFormat spec = (case os_Format spec of None \<Rightarrow> False | Some f \<Rightarrow> EqualFold (TrimSpace f) FormatParquet)"

definition hive_char :: "char \<Rightarrow> bool" where
  "hive_char c \<longleftrightarrow> (let b = (of_char c :: nat) in 97 \<le> b \<and> b \<le> 122 \<or> 65 \<le> b \<and> b \<le> 90 \<or> 48 \<le> b \<and> b \<le> 57 \<or> c \<in> set ''._-'')"

definition hiveSegmentSanitizer :: pattern where
  "hiveSegmentSanitizer = \<lparr>pat_before = Empty, pat_group = Plus (Class (\<lambda>c. \<not> hive_char c)), pat_after = Empty\<rparr>"

definition sanitizeHiveSegment :: "string \<Rightarrow> string" where
  "sanitizeHiveSegment v =
     (let t = TrimSpace v in if t = [] then [] else ReplaceAllString hiveSegmentSanitizer (\<lambda>_. ''_'') t)"

definition ParquetObjectPath :: "string \<Rightarrow> string \<Rightarrow> string \<Rightarrow> int \<Rightarrow> string" where
  "ParquetObjectPath cluster invNamespace invName generation =
     (let c = sanitizeHiveSegment cluster; c' = (if c = [] then ''default'' else c)
      in ''inventory/cluster='' @ c' @ ''/ns='' @ sanitizeHiveSegment invNamespace @ ''/name='' @ sanitizeHiveSegment invName
           @ ''/generation='' @ show_int generation @ ''.parquet'')"

definition ObjectPath :: "object_path_spec \<Rightarrow> string \<Rightarrow> string \<Rightarrow> int \<Rightarrow> string" where
  "ObjectPath spec invNamespace invName generation =
     (if IsParquetFormat spec then ParquetObjectPath (os_Cluster spec) invNamespace invName generation
      else let t = TrimSpace (os_PathTemplate spec); t' = (if t = [] then DefaultPathTemplate else t)
        in RenderPathTemplate t' \<lparr>pv_Cluster = TrimSpace (os_Cluster spec), pv_Namespace = invNamespace, pv_Name = invName,
             pv_Generation = generation, pv_Extension = DefaultExtension\<rparr>)"

definition InventoryFromObjectPath :: "string \<Rightarrow> string \<times> string" where
  "InventoryFromObjectPath objectPath =
     (let p = TrimSpace objectPath in
      if p = [] then ([], [])
      else if Contains p ''/ns='' then
        fold (\<lambda>segment (ns, name).
          (if HasPrefix segment ''ns='' then TrimPrefix segment ''ns='' else ns,
           if HasPrefix segment ''name='' then TrimPrefix segment ''name='' else name)) (Split (CHR ''/'') p) ([], [])
      else let parts = Split (CHR ''/'') (TrimPrefix p ''inventory/'') in
        if length parts < 2 then ([], [])
        else let base = parts ! (length parts - 1)
          in (parts ! (length parts - 2), case LastIndexByte base (CHR ''.'') of Some dot \<Rightarrow> take dot base | None \<Rightarrow> base))"

section \<open>Cleanup\<close>

definition Digits4 :: regexp where
  "Digits4 = Cats [Class is_digit, Class is_digit, Class is_digit, Class is_digit, Star (Class is_digit)]"

text \<open>The optional part suffix; a greedy \<open>?\<close> tries the text first.\<close>

definition partSuffixPatternBody :: regexp where
  "partSuffixPatternBody = Alt (Cats [Chars ''.part-'', Digits4, Chars ''-of-'', Digits4]) Empty"

text \<open>A matcher: the prefix and the pattern between \<open>^\<close> and \<open>$\<close>.\<close>

record KeyMatcher =
  km_Prefix :: string
  km_Rest :: regexp

definition full_match :: "regexp \<Rightarrow> string \<Rightarrow> bool" where
  "full_match r s \<longleftrightarrow> length s \<in> set (match_lens r None s)"

definition Matches :: "KeyMatcher \<Rightarrow> string \<Rightarrow> bool" where
  "Matches m key \<longleftrightarrow>
     (if length key < length (km_Prefix m) \<or> take (length (km_Prefix m)) key \<noteq> km_Prefix m then False
      else full_match (km_Rest m) (drop (length (km_Prefix m)) key))"

definition ListDir :: "KeyMatcher \<Rightarrow> string" where
  "ListDir m =
     (if km_Prefix m = [] then ''.''
      else if HasSuffix (km_Prefix m) ''/'' then TrimSuffix (km_Prefix m) ''/''
      else case LastIndexByte (km_Prefix m) (CHR ''/'') of Some i \<Rightarrow> take i (km_Prefix m) | None \<Rightarrow> ''.'')"

definition JoinDir :: "string \<Rightarrow> string \<Rightarrow> string" where
  "JoinDir dir name = (if dir = ''.'' \<or> dir = [] then name else dir @ ''/'' @ name)"

definition CleanupMatchers :: "string \<Rightarrow> KeyMatcher list" where
  "CleanupMatchers objectPath =
     (let p = TrimPrefix (TrimSpace objectPath) ''./'' in
      if p = [] then []
      else case path_Split p of (dir, file) \<Rightarrow>
        if HasPrefix file ''generation='' \<and> Contains dir ''/name='' then
          [\<lparr>km_Prefix = TrimSuffix dir ''/'',
            km_Rest = Cats [partSuffixPatternBody, Chars ''/generation='', Plus (Class is_digit), Chars ''.parquet'']\<rparr>]
        else (case LastIndexByte file (CHR ''.'') of
            Some (Suc i) \<Rightarrow> [\<lparr>km_Prefix = dir @ take (Suc i) file, km_Rest = Cats [partSuffixPatternBody, Chars (drop (Suc i) file)]\<rparr>]
          | _ \<Rightarrow> [\<lparr>km_Prefix = dir @ file, km_Rest = Cats [partSuffixPatternBody, Chars []]\<rparr>]))"

section \<open>Confinement\<close>

text \<open>In a cleaned relative path the parent segments come first: they are the oldest elements of the stack.\<close>

lemma clean_elems_parents:
  "\<exists>n xs. clean_elems False (ys @ replicate m ''..'') es = xs @ replicate n ''..'' \<and> ''..'' \<notin> set xs" if "''..'' \<notin> set ys"
  using that
proof (induction es arbitrary: ys m)
  case (Cons e es)
  consider "e = [] \<or> e = ''.''" | "e = ''..''" | "e \<noteq> [] \<and> e \<noteq> ''.'' \<and> e \<noteq> ''..''" by blast
  then show ?case
  proof cases
    case 1
    then have "clean_elems False (ys @ replicate m ''..'') (e # es) = clean_elems False (ys @ replicate m ''..'') es" by auto
    then show ?thesis using Cons by metis
  next
    case 2
    show ?thesis
    proof (cases ys)
      case Nil
      then have "clean_elems False (ys @ replicate m ''..'') (e # es) = clean_elems False ([] @ replicate (Suc m) ''..'') es"
        using 2 by (cases m) auto
      then show ?thesis using Cons.IH [of "[]" "Suc m"] by simp
    next
      case (Cons y zs)
      then have "clean_elems False (ys @ replicate m ''..'') (e # es) = clean_elems False (zs @ replicate m ''..'') es"
        using 2 Cons.prems by auto
      then show ?thesis using Cons.IH [of zs m] Cons Cons.prems by simp
    qed
  next
    case 3
    then have "clean_elems False (ys @ replicate m ''..'') (e # es) = clean_elems False ((e # ys) @ replicate m ''..'') es" by simp
    moreover have "''..'' \<notin> set (e # ys)" using Cons.prems 3 by auto
    ultimately show ?thesis using Cons.IH [of "e # ys" m] by metis
  qed
qed auto

lemma Clean_relative:
  assumes "\<not> HasPrefix p ''/''"
  obtains n xs where "''..'' \<notin> set xs" "list_all (\<lambda>e. CHR ''/'' \<notin> set e) (replicate n ''..'' @ xs)"
    "Clean p = (if replicate n ''..'' @ xs = [] then ''.'' else Join ''/'' (replicate n ''..'' @ xs))"
proof -
  let ?st = "clean_elems False [] (Split (CHR ''/'') p)"
  obtain n xs where st: "?st = xs @ replicate n ''..''" "''..'' \<notin> set xs"
    using clean_elems_parents [of "[]" 0 "Split (CHR ''/'') p"] by auto
  have "\<forall>e \<in> set ?st. CHR ''/'' \<notin> set e"
    using set_clean_elems [of False "[]" "Split (CHR ''/'') p"] Split_no_sep [of _ "CHR ''/''" p] by auto
  then have "list_all (\<lambda>e. CHR ''/'' \<notin> set e) (replicate n ''..'' @ rev xs)" using st(1) by (auto simp: list_all_iff)
  moreover have "Clean p = (if replicate n ''..'' @ rev xs = [] then ''.'' else Join ''/'' (replicate n ''..'' @ rev xs))"
    using assms by (simp add: Clean_def Let_def st(1))
  ultimately show ?thesis using that [of "rev xs" n] st(2) by simp
qed

lemma Clean_rooted: "HasPrefix p ''/'' \<Longrightarrow> HasPrefix (Clean p) ''/''"
  by (simp add: Clean_def Let_def HasPrefix_def)

text \<open>C37. An object path that validation accepts stays inside the sink's directory: it is relative and no
  segment of it is a parent reference, wherever such segments stood in the path that was given.
\<close>

theorem relative_path_confined:
  assumes "ValidateRelativeObjectPath s = Inr p"
  shows "\<not> HasPrefix p ''/'' \<and> ''..'' \<notin> set (Split (CHR ''/'') p)"
proof (cases "TrimSpace s = []")
  case True
  then show ?thesis using assms by (simp add: ValidateRelativeObjectPath_def HasPrefix_def)
next
  case False
  let ?t = "TrimSpace s"
  have p: "p = Clean ?t" "\<not> HasPrefix p ''/''" "p \<noteq> ''..''" "\<not> HasPrefix p ''../''"
    using assms False by (auto simp: ValidateRelativeObjectPath_def Let_def split: if_splits)
  then have "\<not> HasPrefix ?t ''/''" using Clean_rooted by blast
  then obtain n xs where xs: "''..'' \<notin> set xs" "list_all (\<lambda>e. CHR ''/'' \<notin> set e) (replicate n ''..'' @ xs)"
    "p = (if replicate n ''..'' @ xs = [] then ''.'' else Join ''/'' (replicate n ''..'' @ xs))"
    using Clean_relative p(1) by metis
  have "n = 0"
  proof (rule ccontr)
    assume "n \<noteq> 0"
    then obtain m where "replicate n ''..'' @ xs = ''..'' # replicate m ''..'' @ xs" by (cases n) auto
    then have "p = ''..'' \<or> HasPrefix p ''../''"
      using xs(3) by (cases "replicate m ''..'' @ xs = []") (auto simp: Join_Cons HasPrefix_def)
    then show False using p by blast
  qed
  then have "p = (if xs = [] then ''.'' else Join ''/'' xs)" using xs(3) by simp
  moreover have "Split (CHR ''/'') (Join ''/'' xs) = xs" if "xs \<noteq> []"
    using xs(2) that by (intro Split_Join) (auto simp: list_all_iff)
  ultimately show ?thesis using p(2) xs(1) by (cases "xs = []") auto
qed

theorem relative_path_confined_witness:
  "ValidateRelativeObjectPath ''a/../inventory//team/./x.json'' = Inr ''inventory/team/x.json''
   \<and> ''..'' \<notin> set (Split (CHR ''/'') ''inventory/team/x.json'')"
proof -
  have v: "ValidateRelativeObjectPath ''a/../inventory//team/./x.json'' = Inr ''inventory/team/x.json''" by code_simp
  then show ?thesis using relative_path_confined [OF v] by blast
qed

section \<open>What cleanup sweeps\<close>

text \<open>A pattern without assertions recognises a set of texts, whatever stands around them.\<close>

definition recognises :: "regexp \<Rightarrow> (string \<Rightarrow> bool) \<Rightarrow> bool" where
  "recognises r L \<longleftrightarrow> (\<forall>p s k. k \<in> set (match_lens r p s) \<longleftrightarrow> k \<le> length s \<and> L (take k s))"

lemma full_match_iff: "recognises r L \<Longrightarrow> full_match r s \<longleftrightarrow> L s"
  by (simp add: recognises_def full_match_def)

lemma recognises_Empty: "recognises Empty (\<lambda>u. u = [])"
  by (auto simp: recognises_def)

lemma recognises_Class: "recognises (Class P) (\<lambda>u. \<exists>c. u = [c] \<and> P c)"
  unfolding recognises_def
proof (intro allI)
  fix p s k
  show "k \<in> set (match_lens (Class P) p s) \<longleftrightarrow> k \<le> length s \<and> (\<exists>c. take k s = [c] \<and> P c)"
    by (cases s; cases k) (auto split: if_splits)
qed

lemma recognises_Alt: "recognises a L \<Longrightarrow> recognises b M \<Longrightarrow> recognises (Alt a b) (\<lambda>u. L u \<or> M u)"
  by (auto simp: recognises_def)

lemma recognises_Cat:
  assumes "recognises a L" "recognises b M"
  shows "recognises (Cat a b) (\<lambda>u. \<exists>x y. u = x @ y \<and> L x \<and> M y)"
  unfolding recognises_def
proof (intro allI iffI)
  fix p s k
  assume "k \<in> set (match_lens (Cat a b) p s)"
  then obtain i j where "i \<in> set (match_lens a p s)" "j \<in> set (match_lens b (char_before p s i) (drop i s))" "k = i + j" by auto
  then have "i \<le> length s" "L (take i s)" "j \<le> length (drop i s)" "M (take j (drop i s))" "k = i + j"
    using assms unfolding recognises_def by blast+
  then show "k \<le> length s \<and> (\<exists>x y. take k s = x @ y \<and> L x \<and> M y)" using take_add by fastforce
next
  fix p s k
  assume "k \<le> length s \<and> (\<exists>x y. take k s = x @ y \<and> L x \<and> M y)"
  then obtain x y where k: "k \<le> length s" and xy: "take k s = x @ y" "L x" "M y" by blast
  have len: "k = length x + length y" using k arg_cong [OF xy(1), of length] by simp
  have "take (length x) s = x" using xy(1) len by (metis append_eq_conv_conj le_add1 min.absorb1 take_take)
  moreover have "take (length y) (drop (length x) s) = y" using xy(1) len by (metis append_eq_conv_conj drop_take add_diff_cancel_left')
  ultimately have "length x \<in> set (match_lens a p s)" "length y \<in> set (match_lens b (char_before p s (length x)) (drop (length x) s))"
    using assms xy k len unfolding recognises_def by auto
  then show "k \<in> set (match_lens (Cat a b) p s)" using len by auto
qed

lemma recognises_cong: "recognises r L \<Longrightarrow> (\<And>u. L u \<longleftrightarrow> M u) \<Longrightarrow> recognises r M"
  by (simp add: recognises_def)

lemma recognises_Chars: "recognises (Chars w) (\<lambda>u. u = w)"
proof (induction w)
  case Nil
  then show ?case by (simp add: Chars_def recognises_Empty)
next
  case (Cons c w)
  have "recognises (Cat (Class (\<lambda>d. d = c)) (Chars w)) (\<lambda>u. \<exists>x y. u = x @ y \<and> (\<exists>d. x = [d] \<and> d = c) \<and> y = w)"
    by (rule recognises_Cat [OF recognises_Class Cons.IH])
  then show ?case unfolding Chars_def by (auto elim!: recognises_cong)
qed

lemma star_lens_Class: "length s \<le> n \<Longrightarrow> k \<in> set (star_lens (match_lens (Class P)) n p s) \<longleftrightarrow> k \<le> length s \<and> list_all P (take k s)"
proof (induction n arbitrary: p s k)
  case (Suc n)
  show ?case
  proof (cases s)
    case (Cons c t)
    then have t: "length t \<le> n" using Suc.prems by simp
    show ?thesis using Suc.IH [OF t] Cons by (cases k) (auto simp: char_before_def)
  qed simp
qed simp

lemma recognises_Star_Class: "recognises (Star (Class P)) (list_all P)"
  by (simp add: recognises_def star_lens_Class)

lemma recognises_Class_Cat:
  assumes "recognises b M"
  shows "recognises (Cat (Class P) b) (\<lambda>u. \<exists>c v. u = c # v \<and> P c \<and> M v)"
proof (rule recognises_cong [OF recognises_Cat [OF recognises_Class assms]])
  show "(\<exists>x y. u = x @ y \<and> (\<exists>c. x = [c] \<and> P c) \<and> M y) \<longleftrightarrow> (\<exists>c v. u = c # v \<and> P c \<and> M v)" for u
    by (metis append_Cons append_Nil)
qed

lemma recognises_Plus_Class: "recognises (Plus (Class P)) (\<lambda>u. u \<noteq> [] \<and> list_all P u)"
  unfolding Plus_def
  by (rule recognises_cong [OF recognises_Class_Cat [OF recognises_Star_Class]]) (auto simp: neq_Nil_conv)

definition digits4 :: "string \<Rightarrow> bool" where
  "digits4 d \<longleftrightarrow> 4 \<le> length d \<and> list_all is_digit d"

lemma recognises_Digits4: "recognises Digits4 digits4"
proof -
  let ?C = "\<lambda>M u. \<exists>c v. u = c # v \<and> is_digit c \<and> M v"
  have "recognises Digits4 (?C (?C (?C (?C (\<lambda>u. \<exists>x y. u = x @ y \<and> list_all is_digit x \<and> y = [])))))"
    unfolding Digits4_def Cats.simps
    by (intro recognises_Class_Cat recognises_Cat recognises_Star_Class recognises_Empty)
  then show ?thesis
  proof (rule recognises_cong)
    show "?C (?C (?C (?C (\<lambda>u. \<exists>x y. u = x @ y \<and> list_all is_digit x \<and> y = [])))) u \<longleftrightarrow> digits4 u" for u
      unfolding digits4_def by (cases u; cases "tl u"; cases "tl (tl u)"; cases "tl (tl (tl u))") auto
  qed
qed

text \<open>What stands between the stem and the extension of a part's object.\<close>

definition part_mark :: "string \<Rightarrow> bool" where
  "part_mark u \<longleftrightarrow> (\<exists>d e. u = ''.part-'' @ d @ ''-of-'' @ e \<and> digits4 d \<and> digits4 e)"

lemma recognises_part_suffix: "recognises partSuffixPatternBody (\<lambda>u. part_mark u \<or> u = [])"
proof -
  have "recognises partSuffixPatternBody (\<lambda>u. (\<exists>a v. u = a @ v \<and> a = ''.part-'' \<and> (\<exists>b w. v = b @ w \<and> digits4 b \<and>
      (\<exists>c x. w = c @ x \<and> c = ''-of-'' \<and> (\<exists>d y. x = d @ y \<and> digits4 d \<and> y = [])))) \<or> u = [])"
    unfolding partSuffixPatternBody_def Cats.simps
    by (intro recognises_Alt recognises_Cat recognises_Chars recognises_Digits4 recognises_Empty)
  then show ?thesis by (rule recognises_cong) (auto simp: part_mark_def)
qed

lemma part_mark_suffix: "part_mark (part_suffix i tot)"
  unfolding part_mark_def part_suffix_def digits4_def
  using length_pad_nat [of 4] pad_nat_digits [of _ 4] by (intro exI [of _ "pad_nat 4 i"] exI [of _ "pad_nat 4 tot"]) (auto simp: list_all_iff)

text \<open>The cut before the extension of a file name.\<close>

definition stem_length :: "string \<Rightarrow> nat" where
  "stem_length fn = (case LastIndexByte fn (CHR ''.'') of Some (Suc i) \<Rightarrow> Suc i | _ \<Rightarrow> length fn)"

definition marked :: "string \<Rightarrow> string \<Rightarrow> string" where
  "marked p u = (case path_Split p of (d, fn) \<Rightarrow> d @ take (stem_length fn) fn @ u @ drop (stem_length fn) fn)"

definition document_path :: "string \<Rightarrow> bool" where
  "document_path p \<longleftrightarrow> trimmed p \<and> p \<noteq> [] \<and> \<not> HasPrefix p ''./''
     \<and> \<not> (HasPrefix (snd (path_Split p)) ''generation='' \<and> Contains (fst (path_Split p)) ''/name='')"

lemma document_matcher:
  assumes "document_path p"
  shows "CleanupMatchers p = [\<lparr>km_Prefix = fst (path_Split p) @ take (stem_length (snd (path_Split p))) (snd (path_Split p)),
    km_Rest = Cats [partSuffixPatternBody, Chars (drop (stem_length (snd (path_Split p))) (snd (path_Split p)))]\<rparr>]"
proof -
  obtain d fn where df: "path_Split p = (d, fn)" by fastforce
  have "TrimPrefix (TrimSpace p) ''./'' = p" using assms by (simp add: document_path_def TrimSpace_id TrimPrefix_def)
  then show ?thesis using assms
    by (auto simp: CleanupMatchers_def df document_path_def stem_length_def split: option.split nat.split)
qed

lemma Matches_iff: "Matches \<lparr>km_Prefix = q, km_Rest = r\<rparr> key \<longleftrightarrow> (\<exists>t. key = q @ t \<and> full_match r t)"
proof -
  have "\<not> (length key < length q \<or> take (length q) key \<noteq> q) \<longleftrightarrow> (\<exists>t. key = q @ t)"
    by (metis append_eq_conv_conj append_take_drop_id le_add1 length_append not_less)
  then show ?thesis by (auto simp: Matches_def)
qed

lemma matches_document:
  assumes "document_path p"
  shows "(\<exists>m \<in> set (CleanupMatchers p). Matches m key) \<longleftrightarrow> (\<exists>u. (part_mark u \<or> u = []) \<and> key = marked p u)"
proof -
  obtain d fn where df: "path_Split p = (d, fn)" by fastforce
  let ?pre = "d @ take (stem_length fn) fn" and ?ext = "drop (stem_length fn) fn"
  have "recognises (Cats [partSuffixPatternBody, Chars ?ext]) (\<lambda>u. \<exists>x v. u = x @ v \<and> (part_mark x \<or> x = []) \<and> (\<exists>y z. v = y @ z \<and> y = ?ext \<and> z = []))"
    unfolding Cats.simps by (intro recognises_Cat recognises_part_suffix recognises_Chars recognises_Empty)
  then have rest: "full_match (Cats [partSuffixPatternBody, Chars ?ext]) s \<longleftrightarrow> (\<exists>x. s = x @ ?ext \<and> (part_mark x \<or> x = []))" for s
    by (subst full_match_iff) auto
  have "(\<exists>m \<in> set (CleanupMatchers p). Matches m key) \<longleftrightarrow>
      (\<exists>t. key = ?pre @ t \<and> (\<exists>x. t = x @ ?ext \<and> (part_mark x \<or> x = [])))"
    unfolding document_matcher [OF assms] df fst_conv snd_conv by (simp only: list.set bex_simps Matches_iff rest) simp
  then show ?thesis by (auto simp: marked_def df)
qed

lemma marked_Nil: "marked p [] = p"
proof -
  have "fst (path_Split p) @ snd (path_Split p) = p" by (simp add: path_Split_def split: option.split)
  then show ?thesis by (simp add: marked_def split: prod.split) (metis fst_conv snd_conv)
qed

text \<open>The object of a part, for a path that is clean and names a file.\<close>

lemma Clean_file:
  assumes "CHR ''/'' \<notin> set x" "\<not> dots x" "CHR ''/'' \<notin> set y" "\<not> dots y" "Clean (a @ ''/'' @ x) = a @ ''/'' @ x"
  shows "Clean ((a @ ''/'') @ ''/'' @ y) = a @ ''/'' @ y"
proof -
  let ?r = "HasPrefix (a @ ''/'' @ x) ''/''" and ?st = "clean_elems (HasPrefix (a @ ''/'' @ x) ''/'') [] (Split (CHR ''/'') a)"
  have r: "HasPrefix ((a @ ''/'') @ ''/'' @ y) ''/'' = ?r" by (cases a) (auto simp: HasPrefix_def)
  have "clean_elems ?r [] (Split (CHR ''/'') (a @ CHR ''/'' # x)) = x # ?st"
    "clean_elems ?r [] (Split (CHR ''/'') ((a @ [CHR ''/'']) @ CHR ''/'' # y)) = y # ?st"
    using assms(1-4) by (simp_all add: Split_append_last clean_elems_append Split_single dots_def)
  then have cx: "Clean (a @ ''/'' @ x) = (if ?r then ''/'' else []) @ Join ''/'' (rev ?st @ [x])"
    and cy: "Clean ((a @ ''/'') @ ''/'' @ y) = (if ?r then ''/'' else []) @ Join ''/'' (rev ?st @ [y])"
    using r by (auto simp: Clean_def Let_def)
  have join: "Join ''/'' (es @ [z]) = (if es = [] then z else Join ''/'' es @ ''/'' @ z)" for es z
    by (induction es) (auto simp: Join_Cons)
  show ?thesis using cx cy assms(5) unfolding join by (cases "?st = []") (auto split: if_splits)
qed

lemma Clean_name: "CHR ''/'' \<notin> set z \<Longrightarrow> \<not> dots z \<Longrightarrow> Clean z = z"
proof -
  assume z: "CHR ''/'' \<notin> set z" "\<not> dots z"
  have "\<not> HasPrefix z ''/''" using z(1) by (auto simp: HasPrefix_iff)
  then show ?thesis using z by (simp add: Clean_def Split_single dots_def)
qed

lemma part_path_marked:
  assumes "Clean p = p" "\<not> dots (snd (path_Split p))" "1 < tot"
  shows "PartitionObjectPath p i tot = marked p (part_suffix i tot)"
proof -
  obtain d fn where df: "path_Split p = (d, fn)" by fastforce
  have ns: "CHR ''/'' \<notin> set fn"
    using df LastIndexByte_Some [of p "CHR ''/''"] LastIndexByte_None [of p "CHR ''/''"]
    by (auto simp: path_Split_def split: option.splits)
  let ?y = "take (stem_length fn) fn @ part_suffix i tot @ drop (stem_length fn) fn"
  note y = part_name_ok [OF ns, of "stem_length fn" i tot]
  have eq: "PartitionObjectPath p i tot = path_Join [d, ?y]"
    using assms(3) df by (auto simp: PartitionObjectPath_def stem_length_def split: option.split nat.split)
  have "path_Join [d, ?y] = d @ ?y"
  proof (cases "LastIndexByte p (CHR ''/'')")
    case None
    then have "d = []" using df by (simp add: path_Split_def)
    have "Clean ?y = ?y" using y by (rule Clean_name)
    then show ?thesis using \<open>d = []\<close> y(2) by (simp add: path_Join_def dots_def)
  next
    case (Some j)
    then have "p = take j p @ ''/'' @ fn" "d = take j p @ ''/''"
      using df LastIndexByte_Some [OF Some] by (auto simp: path_Split_def take_Suc_conv_app_nth) (metis append_Cons append_Nil nth_append_length length_take min.absorb4)
    then show ?thesis
      using Clean_file [OF ns _ y, of "take j p"] assms(1,2) df y(2) by (auto simp: path_Join_def dots_def)
  qed
  then show ?thesis using eq by (simp add: marked_def df)
qed

text \<open>C38. The matchers of an inventory's document sweep every part of it and nothing but its parts: for a
  clean path that names a file, they match the object of every part of every multipart export, and a
  key they match is the path itself or the path with a part mark before its extension.
\<close>

theorem cleanup_sweeps_all_parts:
  assumes "document_path p" "Clean p = p" "\<not> dots (snd (path_Split p))"
  shows "(\<exists>m \<in> set (CleanupMatchers p). Matches m (PartitionObjectPath p i tot))
    \<and> ((\<exists>m \<in> set (CleanupMatchers p). Matches m key) \<longleftrightarrow> key = p \<or> (\<exists>u. part_mark u \<and> key = marked p u))"
proof
  show "\<exists>m \<in> set (CleanupMatchers p). Matches m (PartitionObjectPath p i tot)"
  proof (cases "1 < tot")
    case True
    then show ?thesis using part_path_marked [OF assms(2,3)] part_mark_suffix matches_document [OF assms(1)] by metis
  next
    case False
    then have "PartitionObjectPath p i tot = marked p []" by (simp add: PartitionObjectPath_def marked_Nil)
    then show ?thesis using matches_document [OF assms(1)] by metis
  qed
  show "(\<exists>m \<in> set (CleanupMatchers p). Matches m key) \<longleftrightarrow> key = p \<or> (\<exists>u. part_mark u \<and> key = marked p u)"
    unfolding matches_document [OF assms(1)] using marked_Nil by metis
qed

theorem cleanup_sweeps_all_parts_witness:
  "\<exists>m. CleanupMatchers ''inventory/team/app.json'' = [m] \<and> Matches m ''inventory/team/app.part-0002-of-0003.json''
     \<and> \<not> Matches m ''inventory/team/app-v2.json''"
proof -
  let ?p = "''inventory/team/app.json''"
  have "document_path ?p" "Clean ?p = ?p" "\<not> dots (snd (path_Split ?p))" by code_simp+
  note sweeps = cleanup_sweeps_all_parts [OF this]
  have "PartitionObjectPath ?p 2 3 = ''inventory/team/app.part-0002-of-0003.json''" by code_simp
  moreover have "marked ?p u = ''inventory/team/app'' @ u @ ''.json''" for u
    by (simp add: marked_def path_Split_def stem_length_def)
  moreover obtain m where "CleanupMatchers ?p = [m]" using document_matcher [OF \<open>document_path ?p\<close>] by blast
  ultimately show ?thesis using sweeps [of 2 3] sweeps [of 2 3 "''inventory/team/app-v2.json''"] by (auto simp: part_mark_def)
qed

text \<open>
  A resource name may look like a part: the sweep of one inventory's document then matches the document
  of another inventory of the same namespace.
\<close>

theorem cleanup_matches_other_inventory:
  "\<exists>m \<in> set (CleanupMatchers (ObjectPath \<lparr>os_Cluster = [], os_PathTemplate = [], os_Format = None\<rparr> ''team'' ''app'' 1)).
     Matches m (ObjectPath \<lparr>os_Cluster = [], os_PathTemplate = [], os_Format = None\<rparr> ''team'' ''app.part-0001-of-0002'' 1)"
  by code_simp

end
