(* ===== verification/Layout.thy ===== *)
theory Layout
  imports Object_Paths
begin

text \<open>
  The file tree of a Git snapshot: \<open>src/internal/sink/layout/\<close> and the multipart rules of
  \<open>src/internal/sink/layout_export.go\<close> and \<open>identity.go\<close>. The encoding of a row, of a document and of the
  index (\<open>serialize.go\<close>, \<open>index.go\<close>) is the argument \<open>layout_encoder\<close>. Of a sink's spec the resolution reads
  the fields in \<open>layout_input\<close>; the effective serialization format is one of them.
\<close>

section \<open>Specs\<close>

definition LayoutModeDocument :: string where "LayoutModeDocument = ''document''"
definition LayoutModePerResource :: string where "LayoutModePerResource = ''perResource''"
definition LayoutModeSplit :: string where "LayoutModeSplit = ''split''"
definition LayoutContentItem :: string where "LayoutContentItem = ''item''"
definition LayoutContentManifest :: string where "LayoutContentManifest = ''manifest''"
definition LayoutGroupInPathAuto :: string where "LayoutGroupInPathAuto = ''auto''"
definition LayoutGroupInPathNever :: string where "LayoutGroupInPathNever = ''never''"
definition DefaultLayoutPathTemplate :: string where
  "DefaultLayoutPathTemplate = ''{cluster}/{sourceNamespace}/{kind}/{sourceName}{extension}''"
definition DefaultLayoutIndexPathTemplate :: string where
  "DefaultLayoutIndexPathTemplate = ''inventory/{namespace}/{name}{extension}''"
definition DefaultLayoutMaxSegmentLength :: int where "DefaultLayoutMaxSegmentLength = 63"
definition DefaultDocumentPathTemplate :: string where
  "DefaultDocumentPathTemplate = ''inventory/{namespace}/{name}{extension}''"
definition DefaultExportAs :: string where "DefaultExportAs = ''resource''"

record LayoutIndexSpec =
  li_Enabled :: "bool option"
  li_PathTemplate :: string

record LayoutFilenameSpec =
  lf_GroupInPath :: string
  lf_LowercaseKind :: "bool option"
  lf_MaxSegmentLength :: "int option"

record LayoutSpec =
  ls_Mode :: string
  ls_Content :: string
  ls_PathTemplate :: string
  ls_Index :: "LayoutIndexSpec option"
  ls_Filename :: "LayoutFilenameSpec option"

definition ModeOrDefault :: "LayoutSpec option \<Rightarrow> string" where
  "ModeOrDefault l = (case l of None \<Rightarrow> LayoutModeDocument | Some s \<Rightarrow> if ls_Mode s = [] then LayoutModeDocument else ls_Mode s)"

definition ModeExplicit :: "LayoutSpec option \<Rightarrow> bool" where
  "ModeExplicit l = (case l of None \<Rightarrow> False | Some s \<Rightarrow> ls_Mode s \<noteq> [])"

definition GroupInPathOrDefault :: "LayoutFilenameSpec option \<Rightarrow> string" where
  "GroupInPathOrDefault f = (case f of None \<Rightarrow> LayoutGroupInPathAuto
     | Some s \<Rightarrow> if lf_GroupInPath s = [] then LayoutGroupInPathAuto else lf_GroupInPath s)"

definition LowercaseKindEnabled :: "LayoutFilenameSpec option \<Rightarrow> bool" where
  "LowercaseKindEnabled f = (case Option.bind f lf_LowercaseKind of None \<Rightarrow> True | Some b \<Rightarrow> b)"

definition MaxSegmentLengthOrDefault :: "LayoutFilenameSpec option \<Rightarrow> int" where
  "MaxSegmentLengthOrDefault f = (case Option.bind f lf_MaxSegmentLength of
     None \<Rightarrow> DefaultLayoutMaxSegmentLength | Some n \<Rightarrow> if n \<le> 0 then DefaultLayoutMaxSegmentLength else n)"

definition IndexEnabled :: "LayoutSpec option \<Rightarrow> bool" where
  "IndexEnabled l = (case Option.bind (Option.bind l ls_Index) li_Enabled of Some b \<Rightarrow> b | None \<Rightarrow> ModeOrDefault l = LayoutModeSplit)"

section \<open>Resolution\<close>

record layout_input =
  lin_Layout :: "LayoutSpec option"
  lin_Format :: string
  lin_PathTemplate :: string
  lin_Cluster :: string
  lin_InventoryNamespace :: string
  lin_InventoryName :: string
  lin_Generation :: int
  lin_ResourceExportMode :: bool
  lin_ManifestKey :: string

record ResolvedLayout =
  rl_Mode :: string
  rl_Content :: string
  rl_Format :: string
  rl_Extension :: string
  rl_DocumentPathTemplate :: string
  rl_PathTemplate :: string
  rl_Cluster :: string
  rl_InventoryNamespace :: string
  rl_InventoryName :: string
  rl_Generation :: int
  rl_ManifestKey :: string
  rl_IndexEnabled :: bool
  rl_IndexPathTemplate :: string
  rl_ExportedAt :: string
  rl_Prune :: bool
  rl_Filename :: "LayoutFilenameSpec option"

definition IsDocument :: "ResolvedLayout \<Rightarrow> bool" where
  "IsDocument r \<longleftrightarrow> rl_Mode r = LayoutModeDocument"

definition ExtensionForFormat :: "string \<Rightarrow> string" where
  "ExtensionForFormat format =
     (let f = ToLower (TrimSpace format) in if f = ''yaml'' then ''.yaml'' else if f = ''ndjson'' then ''.ndjson'' else ''.json'')"

definition or_default :: "string \<Rightarrow> string \<Rightarrow> string" where
  "or_default s d = (if TrimSpace s = [] then d else TrimSpace s)"

definition Resolve :: "layout_input \<Rightarrow> ResolvedLayout" where
  "Resolve i =
     (let l = lin_Layout i;
          mode = (if lin_ResourceExportMode i \<and> \<not> ModeExplicit l then LayoutModePerResource else ModeOrDefault l);
          content = (case l of
              Some s \<Rightarrow> (if ls_Content s \<noteq> [] then ls_Content s
                else if lin_ResourceExportMode i \<and> mode \<noteq> LayoutModeDocument then LayoutContentManifest else LayoutContentItem)
            | None \<Rightarrow> (if lin_ResourceExportMode i \<and> mode \<noteq> LayoutModeDocument then LayoutContentManifest else LayoutContentItem))
      in \<lparr>rl_Mode = mode, rl_Content = content, rl_Format = lin_Format i, rl_Extension = ExtensionForFormat (lin_Format i),
          rl_DocumentPathTemplate = or_default (lin_PathTemplate i) DefaultDocumentPathTemplate,
          rl_PathTemplate = (case l of None \<Rightarrow> DefaultLayoutPathTemplate | Some s \<Rightarrow> or_default (ls_PathTemplate s) DefaultLayoutPathTemplate),
          rl_Cluster = TrimSpace (lin_Cluster i), rl_InventoryNamespace = lin_InventoryNamespace i,
          rl_InventoryName = lin_InventoryName i, rl_Generation = lin_Generation i,
          rl_ManifestKey = or_default (lin_ManifestKey i) DefaultExportAs, rl_IndexEnabled = IndexEnabled l,
          rl_IndexPathTemplate = (case Option.bind l ls_Index of None \<Rightarrow> DefaultLayoutIndexPathTemplate
            | Some x \<Rightarrow> or_default (li_PathTemplate x) DefaultLayoutIndexPathTemplate),
          rl_ExportedAt = [], rl_Prune = (mode \<noteq> LayoutModeDocument), rl_Filename = Option.bind l ls_Filename\<rparr>)"

section \<open>Paths\<close>

datatype layout_error = Traversal_Segment string | Rendered_Empty | Collision string string string | Index_Collision string
  | Manifest_Collision string | Encode_Failed string | No_Identity | Bad_Identity | Template_Parent
  | Unsupported_Layout_Placeholder string | No_Identifier

definition clusterOrDefault :: "string \<Rightarrow> string" where
  "clusterOrDefault cluster = or_default cluster ''default''"

definition renderInventoryPath :: "string \<Rightarrow> ResolvedLayout \<Rightarrow> string" where
  "renderInventoryPath template r =
     replacer [(''{cluster}'', clusterOrDefault (rl_Cluster r)), (''{namespace}'', rl_InventoryNamespace r), (''{name}'', rl_InventoryName r),
       (''{generation}'', show_int (rl_Generation r)), (''{extension}'', rl_Extension r)] 0 template"

definition DocumentPath :: "ResolvedLayout \<Rightarrow> string" where
  "DocumentPath r = renderInventoryPath (rl_DocumentPathTemplate r) r"

definition IndexPath :: "ResolvedLayout \<Rightarrow> string" where
  "IndexPath r = renderInventoryPath (rl_IndexPathTemplate r) r"

definition is_letter :: "char \<Rightarrow> bool" where
  "is_letter c \<longleftrightarrow> (let b = (of_char c :: nat) in 97 \<le> b \<and> b \<le> 122 \<or> 65 \<le> b \<and> b \<le> 90)"

definition LayoutPlaceholders :: "string list" where
  "LayoutPlaceholders = [''cluster'', ''namespace'', ''name'', ''targetNamespace'', ''targetName'', ''sourceNamespace'', ''sourceName'',
     ''group'', ''kind'', ''uid'', ''generation'', ''extension'']"

definition layoutPlaceholderPattern :: pattern where
  "layoutPlaceholderPattern = \<lparr>pat_before = Chars ''{'', pat_group = Plus (Class is_letter), pat_after = Chars ''}''\<rparr>"

definition unsafeSegmentChars :: pattern where
  "unsafeSegmentChars = \<lparr>pat_before = Empty, pat_group = Plus (Class (\<lambda>c. c = CHR ''/'' \<or> c = CHR 0x5C \<or> c = CHR '':'')), pat_after = Empty\<rparr>"

definition collapseDots :: pattern where
  "collapseDots = \<lparr>pat_before = Empty, pat_group = Cat (Chars ''.'') (Plus (Chars ''.'')), pat_after = Empty\<rparr>"

definition sanitizeSegment :: "string \<Rightarrow> int \<Rightarrow> string" where
  "sanitizeSegment v maxLen =
     (let t = TrimSpace v in
      if t = [] then []
      else let u = Trim (ReplaceAllString collapseDots (\<lambda>_. ''-'') (ReplaceAllString unsafeSegmentChars (\<lambda>_. ''-'') t)) ''.-'' in
        if u = [] then []
        else if 0 < maxLen \<and> maxLen < int (length u) then Trim (take (nat maxLen) u) ''.-'' else u)"

definition groupSegment :: "string \<Rightarrow> string \<Rightarrow> string" where
  "groupSegment g policy = (if policy = LayoutGroupInPathNever then [] else TrimSpace g)"

fun keep_segments :: "string list \<Rightarrow> string list option" where
  "keep_segments [] = Some []"
| "keep_segments (seg # segs) =
     (let s = TrimSpace seg in
      if s = [] then keep_segments segs
      else if s = ''.'' \<or> s = ''..'' then None
      else map_option ((#) s) (keep_segments segs))"

definition cleanRenderedPath :: "string \<Rightarrow> layout_error + string" where
  "cleanRenderedPath path =
     (let p = ReplaceAll (TrimSpace path) [CHR 0x5C] ''/'' in
      case keep_segments (Split (CHR ''/'') p) of
        None \<Rightarrow> Inl (Traversal_Segment p)
      | Some kept \<Rightarrow> if kept = [] then Inl Rendered_Empty else Inr (Join ''/'' kept))"

definition item_placeholders :: "item \<Rightarrow> ResolvedLayout \<Rightarrow> (string, string) gomap" where
  "item_placeholders it r =
     (let cluster = (if TrimSpace (rl_Cluster r) = [] then ''default'' else rl_Cluster r);
          kind = (if LowercaseKindEnabled (rl_Filename r) then ToLower (item_kind it) else item_kind it);
          g = groupSegment (item_group it) (GroupInPathOrDefault (rl_Filename r));
          san = (\<lambda>v. sanitizeSegment v (MaxSegmentLengthOrDefault (rl_Filename r)))
      in [(''cluster'', san cluster), (''namespace'', san (rl_InventoryNamespace r)), (''name'', san (rl_InventoryName r)),
          (''targetNamespace'', san (item_targetNamespace it)), (''targetName'', san (item_targetName it)),
          (''sourceNamespace'', san (item_namespace it)), (''sourceName'', san (item_name it)), (''group'', san g), (''kind'', san kind),
          (''uid'', san (item_uid it)), (''generation'', show_int (rl_Generation r)), (''extension'', rl_Extension r)])"

definition renderItemPath :: "item \<Rightarrow> ResolvedLayout \<Rightarrow> layout_error + string" where
  "renderItemPath it r =
     (let repl = item_placeholders it r in
      cleanRenderedPath (ReplaceAllString layoutPlaceholderPattern
        (\<lambda>key. case map_of repl key of Some v \<Rightarrow> v | None \<Rightarrow> ''{'' @ key @ ''}'') (rl_PathTemplate r)))"

definition ValidateLayoutPathTemplate :: "string \<Rightarrow> layout_error option" where
  "ValidateLayoutPathTemplate template =
     (let t = TrimSpace template in
      if t = [] then None
      else if Contains t ''..'' then Some Template_Parent
      else case find (\<lambda>g. g \<notin> set LayoutPlaceholders) (find_groups layoutPlaceholderPattern (length t) None t) of
        Some g \<Rightarrow> Some (Unsupported_Layout_Placeholder g)
      | None \<Rightarrow>
          (if \<not> Contains t ''{sourceName}'' \<and> \<not> Contains t ''{name}'' \<and> \<not> Contains t ''{uid}'' then Some No_Identifier else None))"

section \<open>Projection\<close>

record layout_file =
  f_Path :: string
  f_Data :: string

record layout_encoder =
  le_item :: "ResolvedLayout \<Rightarrow> item \<Rightarrow> string + string"
  le_document :: "ResolvedLayout \<Rightarrow> item list \<Rightarrow> string + string"
  le_index :: "ResolvedLayout \<Rightarrow> item list \<Rightarrow> string list \<Rightarrow> string + string"

definition itemRef :: "item \<Rightarrow> string" where
  "itemRef it = TrimSpace (item_kind it @ ''/'' @ item_namespace it @ ''/'' @ item_name it)"

definition projectDocument :: "layout_encoder \<Rightarrow> item list \<Rightarrow> ResolvedLayout \<Rightarrow> layout_error + layout_file list" where
  "projectDocument enc items r = (case le_document enc r items of
     Inl e \<Rightarrow> Inl (Encode_Failed e) | Inr data \<Rightarrow> Inr [\<lparr>f_Path = DocumentPath r, f_Data = data\<rparr>])"

fun project_loop ::
  "layout_encoder \<Rightarrow> ResolvedLayout \<Rightarrow> (string, string) gomap \<Rightarrow> layout_file list \<Rightarrow> item list \<Rightarrow> layout_error + layout_file list" where
  "project_loop enc r seen files [] = Inr files"
| "project_loop enc r seen files (it # items) = (case renderItemPath it r of
     Inl e \<Rightarrow> Inl e
   | Inr path \<Rightarrow> (case map_of seen path of
         Some prev \<Rightarrow> Inl (Collision prev (itemRef it) path)
       | None \<Rightarrow> (case le_item enc r it of
             Inl e \<Rightarrow> Inl (Encode_Failed e)
           | Inr data \<Rightarrow> project_loop enc r (AList.update path (itemRef it) seen) (files @ [\<lparr>f_Path = path, f_Data = data\<rparr>]) items)))"

definition projectPerResource :: "layout_encoder \<Rightarrow> item list \<Rightarrow> ResolvedLayout \<Rightarrow> layout_error + layout_file list" where
  "projectPerResource enc items r = project_loop enc r [] [] items"

definition projectSplit :: "layout_encoder \<Rightarrow> item list \<Rightarrow> ResolvedLayout \<Rightarrow> layout_error + layout_file list" where
  "projectSplit enc items r = (case projectPerResource enc items r of
     Inl e \<Rightarrow> Inl e
   | Inr files \<Rightarrow>
       (if \<not> rl_IndexEnabled r then Inr files
        else case le_index enc r items (map f_Path files) of
          Inl e \<Rightarrow> Inl (Encode_Failed e)
        | Inr data \<Rightarrow>
            (if list_ex (\<lambda>f. f_Path f = IndexPath r) files then Inl (Index_Collision (IndexPath r))
             else Inr (\<lparr>f_Path = IndexPath r, f_Data = data\<rparr> # files))))"

definition Project :: "layout_encoder \<Rightarrow> item list \<Rightarrow> ResolvedLayout \<Rightarrow> layout_error + layout_file list" where
  "Project enc items r =
     (if rl_Mode r = LayoutModePerResource then projectPerResource enc items r
      else if rl_Mode r = LayoutModeSplit then projectSplit enc items r
      else projectDocument enc items r)"

section \<open>Set manifests\<close>

definition SetManifestKind :: string where "SetManifestKind = ''KollectExportSetManifest''"
definition DefaultSetManifestPathTemplate :: string where
  "DefaultSetManifestPathTemplate = ''inventory/{namespace}/{name}.manifest.json''"

record SetManifest =
  sm_Kind :: string
  sm_SchemaVersion :: string
  sm_Cluster :: string
  sm_Namespace :: string
  sm_Name :: string
  sm_Generation :: int
  sm_PartTotal :: nat
  sm_Parts :: "nat list"
  sm_ExportedAt :: string
  sm_Paths :: "string list"

definition SetManifestPath :: "ResolvedLayout \<Rightarrow> string" where
  "SetManifestPath r = renderInventoryPath DefaultSetManifestPathTemplate r"

definition BuildSetManifest :: "ResolvedLayout \<Rightarrow> nat \<Rightarrow> string list \<Rightarrow> SetManifest" where
  "BuildSetManifest r partTotal paths =
     \<lparr>sm_Kind = SetManifestKind, sm_SchemaVersion = ExportSchemaVersion, sm_Cluster = clusterOrDefault (rl_Cluster r),
      sm_Namespace = rl_InventoryNamespace r, sm_Name = rl_InventoryName r, sm_Generation = rl_Generation r, sm_PartTotal = partTotal,
      sm_Parts = [1..<partTotal + 1], sm_ExportedAt = rl_ExportedAt r, sm_Paths = sort paths\<rparr>"

definition isControlSidecar :: "string \<Rightarrow> bool" where
  "isControlSidecar p \<longleftrightarrow> HasSuffix p ''.manifest.json''"

record SetVerification =
  sv_Complete :: bool
  sv_Missing :: "string list"
  sv_Stale :: "string list"
  sv_GenerationMismatch :: bool

definition VerifySet :: "SetManifest \<Rightarrow> string list \<Rightarrow> int \<Rightarrow> SetVerification" where
  "VerifySet m present expectedGeneration =
     (let missing = filter (\<lambda>p. p \<notin> set present) (sm_Paths m);
          stale = filter (\<lambda>p. p \<notin> set (sm_Paths m) \<and> \<not> isControlSidecar p) present;
          genMismatch = (expectedGeneration \<noteq> 0 \<and> sm_Generation m \<noteq> expectedGeneration)
      in \<lparr>sv_Complete = (missing = [] \<and> stale = [] \<and> \<not> genMismatch), sv_Missing = sort missing, sv_Stale = sort stale,
          sv_GenerationMismatch = genMismatch\<rparr>)"

section \<open>Multipart trees\<close>

text \<open>The accumulator of a set: the paths added so far; a part of a single export has none.\<close>

type_synonym PrunePlan = "string list"

definition NewPrunePlan :: PrunePlan where "NewPrunePlan = []"

definition PrunePlan_Add :: "string list \<Rightarrow> PrunePlan \<Rightarrow> PrunePlan" where
  "PrunePlan_Add paths plan = fold List.insert paths plan"

definition PrunePlan_Union :: "PrunePlan \<Rightarrow> string list" where
  "PrunePlan_Union plan = sort plan"

record ExportFilesOptions =
  ef_Prune :: bool
  ef_PruneOwner :: string
  ef_PruneKeepPaths :: "string list"
  ef_SuppressPrune :: bool
  ef_PruneClaimPaths :: "string list"

definition baseInventoryName :: "string \<Rightarrow> int \<Rightarrow> int \<Rightarrow> string" where
  "baseInventoryName name partIndex partTotal =
     (if partTotal \<le> 1 \<or> partIndex < 1 \<or> partTotal < partIndex then name
      else TrimSuffix name (part_suffix (nat partIndex) (nat partTotal)))"

definition gitExportOpts ::
  "bool \<Rightarrow> int \<Rightarrow> int \<Rightarrow> string list \<Rightarrow> PrunePlan option \<Rightarrow> ExportFilesOptions \<times> PrunePlan option" where
  "gitExportOpts prune partIndex partTotal projectedPaths plan =
     (let opts = \<lparr>ef_Prune = prune, ef_PruneOwner = [], ef_PruneKeepPaths = [], ef_SuppressPrune = False, ef_PruneClaimPaths = []\<rparr> in
      if \<not> prune \<or> partTotal \<le> 1 then (opts, plan)
      else case plan of
        None \<Rightarrow> (opts\<lparr>ef_SuppressPrune := True\<rparr>, None)
      | Some p \<Rightarrow>
          (let p' = PrunePlan_Add projectedPaths p in
           if partTotal \<le> partIndex then (opts\<lparr>ef_PruneKeepPaths := PrunePlan_Union p'\<rparr>, Some p')
           else (opts\<lparr>ef_SuppressPrune := True\<rparr>, Some p')))"

definition setManifestPath :: "ResolvedLayout \<Rightarrow> int \<Rightarrow> int \<Rightarrow> string" where
  "setManifestPath r partIndex partTotal =
     SetManifestPath (r\<lparr>rl_InventoryName := baseInventoryName (rl_InventoryName r) partIndex partTotal\<rparr>)"

definition setManifestClaim :: "ResolvedLayout \<Rightarrow> int \<Rightarrow> int \<Rightarrow> PrunePlan option \<Rightarrow> string list" where
  "setManifestClaim r partIndex partTotal plan =
     (if \<not> rl_Prune r \<or> partTotal \<le> 1 \<or> partTotal \<le> partIndex \<or> plan = None then [] else [setManifestPath r partIndex partTotal])"

text \<open>The encoding of the manifest is the argument \<open>enc\<close>; it cannot fail on strings and numbers.\<close>

definition appendSetManifest ::
  "(SetManifest \<Rightarrow> string) \<Rightarrow> ResolvedLayout \<Rightarrow> layout_file list \<Rightarrow> ExportFilesOptions \<Rightarrow> int \<Rightarrow> int \<Rightarrow> PrunePlan option
   \<Rightarrow> layout_error + layout_file list \<times> ExportFilesOptions" where
  "appendSetManifest enc r gitFiles opts partIndex partTotal plan =
     (if \<not> rl_Prune r \<or> partTotal \<le> 1 \<or> partIndex < partTotal then Inr (gitFiles, opts)
      else case plan of
        None \<Rightarrow> Inr (gitFiles, opts)
      | Some p \<Rightarrow>
          (let r' = r\<lparr>rl_InventoryName := baseInventoryName (rl_InventoryName r) partIndex partTotal\<rparr>;
               manifestPath = setManifestPath r partIndex partTotal
           in if manifestPath \<in> set (PrunePlan_Union p) then Inl (Manifest_Collision manifestPath)
              else Inr (gitFiles @ [\<lparr>f_Path = manifestPath, f_Data = enc (BuildSetManifest r' (nat partTotal) (PrunePlan_Union p))\<rparr>],
                opts\<lparr>ef_PruneKeepPaths := ef_PruneKeepPaths opts @ [manifestPath]\<rparr>)))"

text \<open>The end of \<open>resolveSnapshotExport\<close>: the files and options of one part's commit, for a given owner.\<close>

definition tree_export ::
  "(SetManifest \<Rightarrow> string) \<Rightarrow> (layout_error + string) \<Rightarrow> ResolvedLayout \<Rightarrow> layout_file list \<Rightarrow> int \<Rightarrow> int \<Rightarrow> PrunePlan option
   \<Rightarrow> (layout_error + layout_file list \<times> ExportFilesOptions) \<times> PrunePlan option" where
  "tree_export enc owner r files partIndex partTotal plan =
     (case gitExportOpts (rl_Prune r) partIndex partTotal (map f_Path files) plan of (opts, plan') \<Rightarrow>
        (case owner of
           Inl e \<Rightarrow> Inl e
         | Inr o' \<Rightarrow> appendSetManifest enc r files
             (opts\<lparr>ef_PruneOwner := o', ef_PruneClaimPaths := setManifestClaim r partIndex partTotal plan'\<rparr>) partIndex partTotal plan',
         plan'))"

section \<open>Identities\<close>

definition InventoryKindNamespaced :: string where "InventoryKindNamespaced = ''KollectInventory''"
definition InventoryKindCluster :: string where "InventoryKindCluster = ''KollectClusterInventory''"
definition clusterInventoryPathNamespace :: string where "clusterInventoryPathNamespace = ''cluster''"

record InventoryIdentity =
  ii_Kind :: string
  ii_Namespace :: string
  ii_Name :: string

definition identity_IsZero :: "InventoryIdentity \<Rightarrow> bool" where
  "identity_IsZero x \<longleftrightarrow> x = \<lparr>ii_Kind = [], ii_Namespace = [], ii_Name = []\<rparr>"

definition identity_validate :: "InventoryIdentity \<Rightarrow> layout_error option" where
  "identity_validate x =
     (if TrimSpace (ii_Name x) = [] \<or> ii_Name x \<noteq> TrimSpace (ii_Name x) then Some Bad_Identity
      else if ii_Kind x = InventoryKindNamespaced then
        (if TrimSpace (ii_Namespace x) = [] \<or> ii_Namespace x \<noteq> TrimSpace (ii_Namespace x) then Some Bad_Identity else None)
      else if ii_Kind x = InventoryKindCluster then (if ii_Namespace x \<noteq> [] then Some Bad_Identity else None)
      else Some Bad_Identity)"

definition pathNamespace :: "InventoryIdentity \<Rightarrow> string" where
  "pathNamespace x = (if ii_Kind x = InventoryKindCluster then clusterInventoryPathNamespace else ii_Namespace x)"

definition checkObjectPath :: "InventoryIdentity \<Rightarrow> string \<Rightarrow> string \<Rightarrow> int \<Rightarrow> int \<Rightarrow> layout_error option" where
  "checkObjectPath x pathNS pathName partIndex partTotal = (case identity_validate x of
     Some e \<Rightarrow> Some e
   | None \<Rightarrow> (if pathNS \<noteq> pathNamespace x \<or> baseInventoryName pathName partIndex partTotal \<noteq> ii_Name x then Some Bad_Identity else None))"

section \<open>What the tree promises\<close>

lemma keep_segments_ok:
  "keep_segments segs = Some kept \<Longrightarrow> s \<in> set kept \<Longrightarrow> \<not> dots s \<and> (\<exists>seg \<in> set segs. set s \<subseteq> set seg)"
proof (induction segs arbitrary: kept)
  case (Cons seg segs)
  show ?case
  proof (cases "TrimSpace seg = []")
    case True
    then show ?thesis using Cons by auto
  next
    case False
    then obtain rest where k: "TrimSpace seg \<noteq> ''.''" "TrimSpace seg \<noteq> ''..''" "keep_segments segs = Some rest" "kept = TrimSpace seg # rest"
      using Cons.prems(1) by (auto simp: Let_def split: if_splits)
    show ?thesis
    proof (cases "s = TrimSpace seg")
      case True
      then show ?thesis using False k set_TrimSpace [of seg] by (auto simp: dots_def)
    next
      case False
      then show ?thesis using Cons.IH [OF k(3)] Cons.prems(2) k(4) by auto
    qed
  qed
qed simp

lemma Split_subset: "t \<in> set (Split c s) \<Longrightarrow> set t \<subseteq> set s"
proof (induction s arbitrary: t)
  case (Cons x s)
  obtain y ys where ys: "Split c s = y # ys" by (cases "Split c s") auto
  then have "set y \<subseteq> set s" "\<And>z. z \<in> set ys \<Longrightarrow> set z \<subseteq> set s" using Cons.IH by simp_all
  then show ?case using Cons.prems ys by (auto split: if_splits)
qed simp

lemma ReplaceAll_char_removes: "d \<noteq> c \<Longrightarrow> c \<notin> set (ReplaceAll s [c] [d])"
proof (induction s)
  case (Cons x s)
  then show ?case by (cases "x = c") (simp_all add: HasPrefix_def)
qed simp

text \<open>C39. No template and no collected value can make a row's file leave the tree: a rendered path is
  relative, and each of its segments is non-empty, is not a dot or a parent reference, and holds no
  backslash.
\<close>

theorem row_paths_confined:
  assumes "renderItemPath it r = Inr p"
  shows "\<not> HasPrefix p ''/'' \<and> list_all (\<lambda>seg. \<not> dots seg \<and> CHR 0x5C \<notin> set seg) (Split (CHR ''/'') p)"
proof -
  obtain q kept where kept: "keep_segments (Split (CHR ''/'') (ReplaceAll q [CHR 0x5C] ''/'')) = Some kept" "kept \<noteq> []" "p = Join ''/'' kept"
    using assms by (auto simp: renderItemPath_def cleanRenderedPath_def Let_def split: option.splits if_splits)
  have seg: "\<not> dots s \<and> CHR 0x5C \<notin> set s \<and> CHR ''/'' \<notin> set s" if "s \<in> set kept" for s
  proof -
    note in_kept = that
    obtain t where t: "\<not> dots s" "t \<in> set (Split (CHR ''/'') (ReplaceAll q [CHR 0x5C] ''/''))" "set s \<subseteq> set t"
      using keep_segments_ok [OF kept(1) in_kept] by blast
    have "set t \<subseteq> set (ReplaceAll q [CHR 0x5C] ''/'')" by (rule Split_subset [OF t(2)])
    then show ?thesis using t Split_no_sep [OF t(2)] ReplaceAll_char_removes [of "CHR ''/''" "CHR 0x5C" q] by auto
  qed
  have split: "Split (CHR ''/'') p = kept" unfolding kept(3) using kept(2) seg by (intro Split_Join) auto
  have "\<not> HasPrefix p ''/''"
  proof
    assume "HasPrefix p ''/''"
    then have "[] \<in> set (Split (CHR ''/'') p)" by (auto simp: HasPrefix_iff)
    then show False using seg split by (auto simp: dots_def)
  qed
  then show ?thesis using seg split by (auto simp: list_all_iff)
qed

lemma project_loop_ok:
  assumes "project_loop enc r seen files items = Inr out" "fst ` set seen = f_Path ` set files" "distinct (map f_Path files)"
  shows "map (\<lambda>f. Inr (f_Path f)) out = map (\<lambda>f. Inr (f_Path f)) files @ map (\<lambda>it. renderItemPath it r) items \<and> distinct (map f_Path out)"
  using assms
proof (induction items arbitrary: seen files)
  case (Cons it items)
  obtain path data where p: "renderItemPath it r = Inr path" "map_of seen path = None" "le_item enc r it = Inr data"
    and rest: "project_loop enc r (AList.update path (itemRef it) seen) (files @ [\<lparr>f_Path = path, f_Data = data\<rparr>]) items = Inr out"
    using Cons.prems(1) by (auto split: sum.splits option.splits)
  have fresh: "path \<notin> f_Path ` set files" using p(2) Cons.prems(2) by (metis map_of_eq_None_iff)
  have "fst ` set (AList.update path (itemRef it) seen) = f_Path ` set (files @ [\<lparr>f_Path = path, f_Data = data\<rparr>])"
    using Cons.prems(2) by (simp add: dom_update)
  moreover have "distinct (map f_Path (files @ [\<lparr>f_Path = path, f_Data = data\<rparr>]))" using fresh Cons.prems(3) by simp
  ultimately show ?case using Cons.IH [OF rest] p(1) by simp
qed simp

text \<open>
  A projected tree holds one file per row, at the row's own path and in the rows' order, and no two
  files share a path: a collision within one document is an error, never an overwrite.
\<close>

theorem tree_one_file_per_row:
  assumes "projectPerResource enc items r = Inr files"
  shows "map (\<lambda>f. Inr (f_Path f)) files = map (\<lambda>it. renderItemPath it r) items \<and> distinct (map f_Path files)"
  using project_loop_ok [OF assms [unfolded projectPerResource_def]] by simp

theorem verify_set_exact:
  "sv_Complete (VerifySet (BuildSetManifest r n paths) present g) \<longleftrightarrow>
     set paths \<subseteq> set present \<and> list_all (\<lambda>p. p \<in> set paths \<or> isControlSidecar p) present \<and> (g = 0 \<or> g = rl_Generation r)"
  by (auto simp: VerifySet_def BuildSetManifest_def Let_def filter_empty_conv list_all_iff)

subsection \<open>Pruning a multipart tree\<close>

text \<open>The commits of a set: each part's layout and files, with the plan the parts share.\<close>

fun tree_set ::
  "(SetManifest \<Rightarrow> string) \<Rightarrow> string \<Rightarrow> nat \<Rightarrow> nat \<Rightarrow> PrunePlan option \<Rightarrow> (ResolvedLayout \<times> layout_file list) list
   \<Rightarrow> (layout_error + layout_file list \<times> ExportFilesOptions) list" where
  "tree_set enc owner tot k plan [] = []"
| "tree_set enc owner tot k plan ((r, files) # parts) =
     (case tree_export enc (Inr owner) r files (int k) (int tot) plan of (res, plan') \<Rightarrow>
        res # tree_set enc owner tot (Suc k) plan' parts)"

definition prunes :: "ExportFilesOptions \<Rightarrow> bool" where
  "prunes opts \<longleftrightarrow> ef_Prune opts \<and> \<not> ef_SuppressPrune opts"

lemma set_plan_add: "set (PrunePlan_Add paths plan) = set paths \<union> set plan"
  unfolding PrunePlan_Add_def by (induction paths arbitrary: plan) auto

lemma set_plan_union: "set (PrunePlan_Union plan) = set plan"
  by (simp add: PrunePlan_Union_def)

lemma tree_export_inner:
  assumes "rl_Prune r" "1 < tot" "k < tot"
  shows "\<exists>opts. tree_export enc (Inr owner) r files (int k) (int tot) (Some plan) =
    (Inr (files, opts), Some (PrunePlan_Add (map f_Path files) plan)) \<and> \<not> prunes opts"
  using assms by (simp add: tree_export_def gitExportOpts_def appendSetManifest_def Let_def prunes_def)

lemma tree_export_final:
  assumes "rl_Prune r" "1 < tot" "tree_export enc (Inr owner) r files (int tot) (int tot) (Some plan) = (Inr (out, opts), plan')"
  shows "prunes opts \<and> set (ef_PruneKeepPaths opts) = f_Path ` set files \<union> set plan \<union> {setManifestPath r (int tot) (int tot)}
    \<and> f_Path ` set out = f_Path ` set files \<union> {setManifestPath r (int tot) (int tot)}
    \<and> setManifestPath r (int tot) (int tot) \<notin> f_Path ` set files \<union> set plan"
  using assms
  by (auto simp: tree_export_def gitExportOpts_def appendSetManifest_def Let_def prunes_def set_plan_union set_plan_add split: if_splits)

lemma tree_set_ok:
  assumes "list_all (\<lambda>part. rl_Prune (fst part)) parts" "1 < tot" "k + length parts = Suc tot" "parts \<noteq> []"
    and "tree_set enc owner tot k (Some plan) parts = res"
  shows "length res = length parts
    \<and> (\<forall>j. Suc j < length parts \<longrightarrow> (\<exists>out opts. res ! j = Inr (out, opts) \<and> \<not> prunes opts))
    \<and> (\<forall>out opts. last res = Inr (out, opts) \<longrightarrow> prunes opts
         \<and> set (ef_PruneKeepPaths opts) = (\<Union>part \<in> set parts. f_Path ` set (snd part)) \<union> set plan
             \<union> {setManifestPath (fst (last parts)) (int tot) (int tot)})"
  using assms
proof (induction parts arbitrary: k plan res)
  case (Cons part parts)
  obtain r files where part: "part = (r, files)" by (cases part)
  have prune: "rl_Prune r" using Cons.prems(1) part by simp
  show ?case
  proof (cases "parts = []")
    case True
    then have "k = tot" using Cons.prems(3) by simp
    then obtain x plan' where x: "tree_export enc (Inr owner) r files (int tot) (int tot) (Some plan) = (x, plan')" "res = [x]"
      using Cons.prems(5) True part by (cases "tree_export enc (Inr owner) r files (int tot) (int tot) (Some plan)") auto
    show ?thesis using True part x tree_export_final [OF prune Cons.prems(2)] by auto
  next
    case False
    then have "k < tot" using Cons.prems(3) by (cases parts) auto
    then obtain opts where o': "tree_export enc (Inr owner) r files (int k) (int tot) (Some plan) =
        (Inr (files, opts), Some (PrunePlan_Add (map f_Path files) plan))" "\<not> prunes opts"
      using tree_export_inner [OF prune Cons.prems(2)] by blast
    define rest where "rest = tree_set enc owner tot (Suc k) (Some (PrunePlan_Add (map f_Path files) plan)) parts"
    have res: "res = Inr (files, opts) # rest" using Cons.prems(5) part o'(1) by (simp add: rest_def)
    have ih: "length rest = length parts
        \<and> (\<forall>j. Suc j < length parts \<longrightarrow> (\<exists>out opts. rest ! j = Inr (out, opts) \<and> \<not> prunes opts))
        \<and> (\<forall>out opts. last rest = Inr (out, opts) \<longrightarrow> prunes opts
           \<and> set (ef_PruneKeepPaths opts) = (\<Union>part \<in> set parts. f_Path ` set (snd part)) \<union> set (PrunePlan_Add (map f_Path files) plan)
               \<union> {setManifestPath (fst (last parts)) (int tot) (int tot)})"
      using Cons.IH [OF _ Cons.prems(2) _ False rest_def [symmetric]] Cons.prems(1,3) by simp
    then have "rest \<noteq> []" using False by auto
    show ?thesis
    proof (intro conjI allI impI)
      show "length res = length (part # parts)" using res ih by simp
      show "\<exists>out opts. res ! j = Inr (out, opts) \<and> \<not> prunes opts" if "Suc j < length (part # parts)" for j
        using that res ih o'(2) by (cases j) auto
    next
      fix out opts'
      assume "last res = Inr (out, opts')"
      then have l: "last rest = Inr (out, opts')" using res \<open>rest \<noteq> []\<close> by simp
      then show "prunes opts'" using ih by blast
      show "set (ef_PruneKeepPaths opts') = (\<Union>part \<in> set (part # parts). f_Path ` set (snd part)) \<union> set plan
          \<union> {setManifestPath (fst (last (part # parts))) (int tot) (int tot)}"
        using ih l False part by (auto simp: set_plan_add)
    qed
  qed
qed simp

text \<open>C40. A multipart tree is pruned once and loses no part. Of the commits of a set of several parts only
  the last one prunes, and what it keeps is the union of the files of all parts and the set's manifest,
  so no part's prune removes what an earlier part wrote.
\<close>

theorem multipart_prune_once:
  assumes "list_all (\<lambda>part. rl_Prune (fst part)) parts" "1 < length parts"
    and "tree_set enc owner (length parts) 1 (Some NewPrunePlan) parts = res" "last res = Inr (out, opts)"
  shows "(\<forall>j. Suc j < length parts \<longrightarrow> (\<exists>out opts. res ! j = Inr (out, opts) \<and> \<not> prunes opts)) \<and> prunes opts
    \<and> set (ef_PruneKeepPaths opts) = (\<Union>part \<in> set parts. f_Path ` set (snd part))
        \<union> {setManifestPath (fst (last parts)) (int (length parts)) (int (length parts))}"
proof -
  have "parts \<noteq> []" "1 + length parts = Suc (length parts)" using assms(2) by auto
  from tree_set_ok [OF assms(1,2) this(2,1) assms(3)] show ?thesis using assms(4) by (simp add: NewPrunePlan_def)
qed

section \<open>Examples\<close>

definition example_layout :: "string \<Rightarrow> ResolvedLayout" where
  "example_layout name = Resolve \<lparr>lin_Layout = Some \<lparr>ls_Mode = ''perResource'', ls_Content = [], ls_PathTemplate = [], ls_Index = None, ls_Filename = None\<rparr>,
     lin_Format = ''yaml'', lin_PathTemplate = [], lin_Cluster = [], lin_InventoryNamespace = ''team'', lin_InventoryName = name,
     lin_Generation = 7, lin_ResourceExportMode = False, lin_ManifestKey = []\<rparr>"

definition example_encoder :: layout_encoder where
  "example_encoder = \<lparr>le_item = (\<lambda>r it. Inr (item_uid it)), le_document = (\<lambda>r its. Inr []), le_index = (\<lambda>r its ps. Inr [])\<rparr>"

definition example_row :: "string \<Rightarrow> item" where
  "example_row target = (example_item ''team'' ''u1'')\<lparr>item_targetName := target\<rparr>"

lemma default_template_rendered:
  "ReplaceAllString layoutPlaceholderPattern f DefaultLayoutPathTemplate =
     f ''cluster'' @ ''/'' @ f ''sourceNamespace'' @ ''/'' @ f ''kind'' @ ''/'' @ f ''sourceName'' @ f ''extension''"
  by code_simp simp

lemma example_segments:
  "sanitizeSegment ''default'' 63 = ''default''" "sanitizeSegment ''app'' 63 = ''app''" "sanitizeSegment ''deployment'' 63 = ''deployment''"
  "sanitizeSegment ''web'' 63 = ''web''" "ToLower ''Deployment'' = ''deployment''"
  by code_simp+

lemma example_row_path: "renderItemPath (example_row t) (example_layout name) = Inr ''default/app/deployment/web.yaml''"
proof -
  let ?r = "example_layout name" and ?it = "example_row t"
  have r: "rl_PathTemplate ?r = DefaultLayoutPathTemplate" "rl_Cluster ?r = []" "rl_Filename ?r = None" "rl_Extension ?r = ''.yaml''"
    by (simp_all add: example_layout_def Resolve_def Let_def or_default_def ExtensionForFormat_def) code_simp
  have it: "item_kind ?it = ''Deployment''" "item_namespace ?it = ''app''" "item_name ?it = ''web''"
    by (simp_all add: example_row_def example_item_def)
  let ?m = "map_of (item_placeholders ?it ?r)"
  have "?m ''cluster'' = Some ''default''" "?m ''sourceNamespace'' = Some ''app''" "?m ''kind'' = Some ''deployment''" "?m ''sourceName'' = Some ''web''"
    "?m ''extension'' = Some ''.yaml''"
    by (simp_all add: item_placeholders_def Let_def r it LowercaseKindEnabled_def MaxSegmentLengthOrDefault_def DefaultLayoutMaxSegmentLength_def
        example_segments)
  moreover have "cleanRenderedPath ''default/app/deployment/web.yaml'' = Inr ''default/app/deployment/web.yaml''" by code_simp
  ultimately show ?thesis by (simp add: renderItemPath_def Let_def r default_template_rendered)
qed

theorem row_paths_confined_witness:
  "\<not> HasPrefix ''default/app/deployment/web.yaml'' ''/''
   \<and> list_all (\<lambda>seg. \<not> dots seg \<and> CHR 0x5C \<notin> set seg) (Split (CHR ''/'') ''default/app/deployment/web.yaml'')"
  by (rule row_paths_confined [OF example_row_path])

theorem tree_one_file_per_row_witness:
  "projectPerResource example_encoder [example_row ''t''] (example_layout ''inv'') = Inr [\<lparr>f_Path = ''default/app/deployment/web.yaml'', f_Data = ''u1''\<rparr>]
   \<and> distinct (map f_Path [\<lparr>f_Path = ''default/app/deployment/web.yaml'', f_Data = ''u1''\<rparr>])"
proof -
  have "le_item example_encoder r (example_row t) = Inr ''u1''" for r t
    by (simp add: example_encoder_def example_row_def example_item_def)
  then have p: "projectPerResource example_encoder [example_row ''t''] (example_layout ''inv'') = Inr [\<lparr>f_Path = ''default/app/deployment/web.yaml'', f_Data = ''u1''\<rparr>]"
    using example_row_path by (simp add: projectPerResource_def)
  then show ?thesis using tree_one_file_per_row [OF p] by blast
qed

text \<open>
  Two rows at one path are refused when they are projected together, but not when they fall into
  different parts: both projections succeed with the same path, the later part replaces the file of the
  earlier one, and the union that the manifest declares lists it once.
\<close>

theorem parts_overwrite_silently:
  "(\<exists>e. projectPerResource example_encoder [example_row ''t'', example_row ''o''] (example_layout ''inv'') = Inl e)
   \<and> (\<exists>f g. projectPerResource example_encoder [example_row ''t''] (example_layout ''inv.part-0001-of-0002'') = Inr [f]
        \<and> projectPerResource example_encoder [example_row ''o''] (example_layout ''inv.part-0002-of-0002'') = Inr [g]
        \<and> f_Path f = f_Path g \<and> PrunePlan_Union (PrunePlan_Add [f_Path g] (PrunePlan_Add [f_Path f] NewPrunePlan)) = [f_Path f])"
proof -
  have "le_item example_encoder r (example_row t) = Inr ''u1''" for r t
    by (simp add: example_encoder_def example_row_def example_item_def)
  then show ?thesis
    using example_row_path by (simp add: projectPerResource_def PrunePlan_Union_def PrunePlan_Add_def NewPrunePlan_def)
qed

theorem multipart_prune_once_witness:
  "\<exists>res out opts. tree_set (\<lambda>_. ''m'') ''owner'' 2 1 (Some NewPrunePlan)
       [(example_layout ''inv.part-0001-of-0002'', [\<lparr>f_Path = ''a.yaml'', f_Data = ''x''\<rparr>]),
        (example_layout ''inv.part-0002-of-0002'', [\<lparr>f_Path = ''b.yaml'', f_Data = ''y''\<rparr>])] = res
     \<and> last res = Inr (out, opts) \<and> prunes opts
     \<and> set (ef_PruneKeepPaths opts) = {''a.yaml'', ''b.yaml'', ''inventory/team/inv.manifest.json''}"
proof -
  let ?parts = "[(example_layout ''inv.part-0001-of-0002'', [\<lparr>f_Path = ''a.yaml'', f_Data = ''x''\<rparr>]),
    (example_layout ''inv.part-0002-of-0002'', [\<lparr>f_Path = ''b.yaml'', f_Data = ''y''\<rparr>])]"
  have m: "setManifestPath (example_layout ''inv.part-0002-of-0002'') 2 2 = ''inventory/team/inv.manifest.json''" by code_simp
  have pr: "rl_Prune (example_layout n)" for n by (simp add: example_layout_def Resolve_def Let_def ModeOrDefault_def ModeExplicit_def LayoutModeDocument_def)
  obtain out opts where l: "last (tree_set (\<lambda>_. ''m'') ''owner'' (length ?parts) 1 (Some NewPrunePlan) ?parts) = Inr (out, opts)"
    using pr m by (simp add: tree_export_def gitExportOpts_def appendSetManifest_def Let_def PrunePlan_Add_def NewPrunePlan_def PrunePlan_Union_def)
  have "list_all (\<lambda>part. rl_Prune (fst part)) ?parts" "1 < length ?parts" using pr by simp_all
  from multipart_prune_once [OF this refl l] show ?thesis using l m by auto
qed

end
