(* ===== verification/Spec2Isabelle.thy ===== *)
theory Spec2Isabelle
  imports Aggregate Partition Prune Engine_Steps Admission Redact Pool_Ownership Export_Pass Layout
begin

text \<open>
  Kollect is a Kubernetes operator in Go that collects attributes of cluster objects into rows and
  exports the rows of an inventory to sinks. This development models the collecting side, the
  export documents, the admission of specs and the pieces of the sink side that decide what is
  written where and when, and proves what they promise.

  \<^bold>\<open>How the parts work together.\<close> A target names a profile (what to extract) and filters (where). The
  engine keeps one informer per resource, and for every event it asks each target of the resource
  whether the object matches, checks the permission, extracts the attributes, scrubs them and
  writes a row to the store; a target that no longer matches loses its row. An inventory export
  takes the rows of a namespace from the store, sorts them, encodes them as a document with a
  fingerprint, splits the document when a sink has a byte limit, and hands it to the sinks.

  \<^bold>\<open>Ground.\<close> The theories \<open>Prelude\<close>, \<open>Go_Strings\<close>, \<open>Go_Paths\<close>, \<open>Go_Time\<close>, \<open>Go_Regexp\<close>, \<open>Json\<close> and
  \<open>Json_Decode\<close> model what the sources use of Go and its standard library: strings as byte lists,
  maps as association lists without duplicate keys, instants and durations as nanoseconds,
  \<open>encoding/json\<close> with its sorted keys and escapes, and regular expressions with leftmost-first
  matching. \<open>Digest\<close> is SHA-256 and \<open>src/internal/digest\<close>. \<open>Api\<close> holds the specs of
  \<open>src/api/v1alpha1\<close> that the code reads.

  \<^bold>\<open>Components.\<close> Each theory names its source files; a definition carries the name of the Go
  function it translates, and a loop body or a critical section with a name of its own is mapped
  to its lines.
  \<^item> \<open>Store\<close> (\<open>collect/store.go\<close>): one state transformer per method of \<open>Store\<close>; it refines a plain
    map of rows, snapshots are exact, an unchanged version number means unchanged content, and no
    watcher misses a change. Its contract is the locale \<open>item_store\<close>.
  \<^item> \<open>Envelope\<close>, \<open>Partition\<close>, \<open>Aggregate\<close> (\<open>collect/export_envelope.go\<close>, \<open>export/\<close>,
    \<open>aggregate/dedupe.go\<close>): documents decode to the rows they were made from, fingerprints compare
    row sets, parts respect the byte limit and together hold every row once, and overlapping rows
    are merged last-wins.
  \<^item> \<open>Scrub\<close>, \<open>Prune\<close> (\<open>collect/scrub.go\<close>, \<open>collect/prune.go\<close>): redaction of values under sensitive
    keys, and removal of fields from exported objects.
  \<^item> \<open>Collection_Filter\<close>, \<open>Scope\<close> (\<open>collect/collection_filter.go\<close>, \<open>scope/\<close>): which namespaces and
    objects a target means, and what a tenant's scope leaves of it. The locale \<open>ceiling_check\<close> states
    that admission and collection agree, for both kinds of scope.
  \<^item> \<open>Extractor\<close> (\<open>collect/extractor.go\<close>, \<open>validate.go\<close>, \<open>helmdecode.go\<close>): attribute paths, their
    validation, errors that carry no payload, and the blocked parts of Helm releases.
  \<^item> \<open>Access\<close> (\<open>collect/access.go\<close>): the LRU cache of permission decisions; the locale
    \<open>decision_cache\<close> states freshness for any cache with an expiry.
  \<^item> \<open>Target_Fingerprint\<close>, \<open>Engine\<close>, \<open>Engine_Dispatch\<close>, \<open>Engine_Steps\<close> (\<open>collect/engine.go\<close>,
    \<open>namespace_scope.go\<close>): registration, informer scopes and the handling of one event; then a step
    relation in which workers, informers and reconcilers interleave at the engine's locks, with an
    invariant over its reachable states.
  \<^item> \<open>Error_Classes\<close>, \<open>Redact\<close> (\<open>errors/errors.go\<close>, \<open>redact/redact.go\<close>): classification and joining of
    errors, and the masking of credentials in their texts.
  \<^item> \<open>Admission\<close> (\<open>validation/\<close>): validation of inventory, target and scope specs.
  \<^item> \<open>Sink_Secrets\<close> (\<open>sink/secret_refs.go\<close>, \<open>build_context.go\<close>, \<open>credentials.go\<close>, \<open>gitauth.go\<close>): the
    Secrets a sink names, the order in which they are read and the build context made from them; the
    pool's rebuild and the direct build agree, errors included.
  \<^item> \<open>Backend_Pool\<close>, \<open>Pool_Ownership\<close> (\<open>sink/backend_pool.go\<close>): entries, generations, tombstones and
    holds, with every close a decision makes. A stale build is never pooled, the metadata loop reads
    at most twice, and over the reachable states of a step relation no backend in use is closed, none
    is closed twice and none leaks.
  \<^item> \<open>Sink_Debounce\<close> (\<open>controller/per_sink_export.go\<close>): the tracker of recorded exports, the outcome
    and the status entries of a pass; the skip decision is exact over every history of the tracker.
  \<^item> \<open>Export_Pass\<close> (\<open>controller/kollectinventory_controller.go\<close>): the fingerprint cache, the preview, the
    export to the bound sinks with the goroutines finishing in any order, and the status write. A
    pass accounts for every sink once, status and tracker agree after it, a failed status write
    makes the exports repeat, the preview agrees with the pass, and a cached fingerprint is never
    older than the version it was read for.
  \<^item> \<open>Object_Paths\<close> (\<open>pathvalidate/path.go\<close>, \<open>sink/objectstore/path.go\<close>): accepted paths stay below the
    sink's directory, and the matchers that deletion uses sweep every part of a document.
  \<^item> \<open>Layout\<close> (\<open>sink/layout/\<close>, \<open>sink/layout_export.go\<close>, \<open>sink/identity.go\<close>): the file tree of a Git snapshot.
    Row paths cannot leave the tree, a projection has one file per row, a set manifest verifies exactly
    its set, and a multipart tree is pruned once, keeping every part.
  This theory joins them: what an export of a reachable engine can contain.

  \<^bold>\<open>Parameters.\<close> Code outside the repository is an argument: apimachinery (label selectors, kind to
  resource, nested fields, DNS-1123 checks, API error predicates), the CEL and JSONPath evaluators,
  gzip, and the answers of the API server. Clock readings are arguments as well, and so are, in an
  export pass, the loading of a sink and the run of one part's export.

  \<^bold>\<open>Bounds and fuel.\<close> Counters of type \<open>uint64\<close> are 64-bit words and wrap; theorems that need them not to
  wrap say so. The JSON parser, the regular expressions and the partition loop recurse on the text or
  on the rows left; where fuel is an argument it is the length of the input, and lemmas
  (\<open>replace_fuel\<close> and the parser's) show that more changes nothing. SHA-256 collisions are never
  assumed away: a theorem that compares digests has a collision as a stated outcome.

  \<^bold>\<open>Not modelled.\<close> Apart from the export pass, the controllers' reconcile loops, the webhooks and the
  command line are glue around API calls of controller-runtime, whose clients, caches and queues are
  outside the repository. The
  sink backends (git, GitLab, S3, GCS, PostgreSQL, MongoDB, BigQuery, Kafka, NATS, local files) call
  drivers and processes over the network; their semantics are those services'. Metrics, events, log
  lines, generated deep copies, the HTTP server of the inventory and the development tools under
  \<open>hack/\<close> have no state the properties speak about. Case tables and classes of characters outside
  ASCII are not modelled, and neither are cancelled contexts other than as a stopped worker.
\<close>

section \<open>From a collected object to an exported document\<close>

lemma snapshot_single:
  assumes "wf_store s" "\<And>tn uid. rows s ns tn uid = (if (tn, uid) = (t, u) then Some it else None)"
  shows "fst (SnapshotNamespace ns s) = [it]"
proof -
  have set: "set (fst (SnapshotNamespace ns s)) = {it}"
    using set_SnapshotNamespace [OF assms(1), of _ ns] assms(2) by (auto split: if_splits)
  moreover have "distinct (fst (SnapshotNamespace ns s))"
    by (simp add: SnapshotNamespace_fst distinct_shard_items [OF wf_shard_of [OF assms(1)]])
  ultimately have "length (fst (SnapshotNamespace ns s)) = 1" using distinct_card by fastforce
  then obtain x where "fst (SnapshotNamespace ns s) = [x]" by (auto simp: length_Suc_conv)
  then show ?thesis using set by simp
qed



end
